(* ===== verification/NexusPrelude.thy ===== *)
theory NexusPrelude
  imports Main "HOL-Library.Word" "HOL-Library.Sublist"
begin

text \<open>
  Shared vocabulary of the development: C++ exceptions as values, byte strings, the few
  members of \<open>std::string\<close> the program calls, decimal and hexadecimal output of integers,
  big-endian byte encodings, and the socket model with its partial reads. The collections
  declared here (\<open>bus_simps\<close>, \<open>codec_simps\<close>, \<open>registry_simps\<close>) gather the facts the
  component theories hand to the simplifier.
\<close>

named_theorems bus_simps "how each bus operation changes each field"
named_theorems codec_simps "decoding inverts encoding"
named_theorems registry_simps "lookups after registry updates"

section \<open>Exceptions\<close>

text \<open>
  A C++ function that may throw returns a value of a sum type. The constructors tell apart
  what \<open>catch (const std::exception&)\<close> catches, what only \<open>catch (...)\<close> catches, and
  undefined behaviour (an out-of-range read, a null dereference), which no handler catches.
\<close>

datatype exn = StdException string | OtherException | Undefined

type_synonym 'a outcome = "exn + 'a"

abbreviation Throw :: "exn \<Rightarrow> 'a outcome" where "Throw e \<equiv> Inl e"
abbreviation Return :: "'a \<Rightarrow> 'a outcome" where "Return x \<equiv> Inr x"

definition bind_exn :: "'a outcome \<Rightarrow> ('a \<Rightarrow> 'b outcome) \<Rightarrow> 'b outcome" where
  "bind_exn r f = (case r of Inl e \<Rightarrow> Inl e | Inr x \<Rightarrow> f x)"

lemma bind_exn_simps [simp]:
  "bind_exn (Inl e) f = Inl e"
  "bind_exn (Inr x) f = f x"
  by (simp_all add: bind_exn_def)

lemma bind_exn_Inr: "bind_exn r f = Inr y \<longleftrightarrow> (\<exists>x. r = Inr x \<and> f x = Inr y)"
  by (cases r) simp_all

text \<open>\<open>catch (...)\<close>: every exception is handled, undefined behaviour is not.\<close>

definition catch_any :: "'a outcome \<Rightarrow> (exn \<Rightarrow> 'a outcome) \<Rightarrow> 'a outcome" where
  "catch_any r h = (case r of
     Inl Undefined \<Rightarrow> Inl Undefined
   | Inl e \<Rightarrow> h e
   | Inr x \<Rightarrow> Inr x)"

lemma catch_any_simps [simp]:
  "catch_any (Inr x) h = Inr x"
  "catch_any (Inl (StdException m)) h = h (StdException m)"
  "catch_any (Inl OtherException) h = h OtherException"
  "catch_any (Inl Undefined) h = Inl Undefined"
  by (simp_all add: catch_any_def)

fun map_outcomes :: "('a \<Rightarrow> 'b outcome) \<Rightarrow> 'a list \<Rightarrow> 'b list outcome" where
  "map_outcomes f [] = Inr []"
| "map_outcomes f (x # xs) = bind_exn (f x) (\<lambda>y. bind_exn (map_outcomes f xs) (\<lambda>ys. Inr (y # ys)))"

lemma map_outcomes_Inr: "(\<And>x. x \<in> set xs \<Longrightarrow> f x = Inr (g x)) \<Longrightarrow> map_outcomes f xs = Inr (map g xs)"
  by (induction xs) simp_all

section \<open>Bytes and strings\<close>

text \<open>
  \<open>std::string\<close> is a sequence of bytes; HOL's \<open>char\<close> has 256 values and stands for one
  byte. Wire formats use \<open>8 word\<close>.
\<close>

type_synonym byte = "8 word"
type_synonym u32 = "32 word"
type_synonym u64 = "64 word"

definition bytes_of :: "string \<Rightarrow> byte list" where
  "bytes_of s = map of_char s"

definition str_of :: "byte list \<Rightarrow> string" where
  "str_of bs = map (\<lambda>b. char_of (unat b)) bs"

lemma unat_of_char [simp]: "unat (of_char c :: byte) = of_char c"
proof -
  have "unat (of_nat (of_char c) :: byte) = of_char c"
    by (simp add: unat_of_nat del: of_nat_of_char)
  then show ?thesis by (simp only: of_nat_of_char)
qed

lemma of_char_char_of_unat [simp]: "of_char (char_of (unat (b :: byte))) = b"
proof -
  have "unat b < 256" using unsigned_less [of b, where ?'a = nat] by simp
  then have "unat (of_char (char_of (unat b)) :: byte) = unat b"
    by simp
  then show ?thesis by (simp only: word_unat_eq_iff)
qed

lemma str_of_bytes_of [simp]: "str_of (bytes_of s) = s"
  by (simp add: str_of_def bytes_of_def comp_def)

lemma bytes_of_str_of [simp]: "bytes_of (str_of bs) = bs"
  by (simp add: str_of_def bytes_of_def comp_def)

lemma length_bytes_of [simp]: "length (bytes_of s) = length s"
  by (simp add: bytes_of_def)

lemma length_str_of [simp]: "length (str_of bs) = length bs"
  by (simp add: str_of_def)

lemma bytes_of_append [simp]: "bytes_of (s @ t) = bytes_of s @ bytes_of t"
  by (simp add: bytes_of_def)

lemma bytes_of_eq_iff [simp]: "bytes_of s = bytes_of t \<longleftrightarrow> s = t"
  by (metis str_of_bytes_of)

subsection \<open>Searching in strings\<close>

text \<open>
  \<open>str_find p s\<close> is \<open>s.find(p)\<close>, the least position where \<open>p\<close> occurs (\<open>None\<close> for
  \<open>npos\<close>); \<open>str_find_from\<close> adds the start position; \<open>chr_find\<close> and \<open>chr_rfind\<close>
  search for a single character from the left and from the right.
\<close>

fun str_find :: "string \<Rightarrow> string \<Rightarrow> nat option" where
  "str_find p [] = (if p = [] then Some 0 else None)"
| "str_find p (c # s) =
     (if prefix p (c # s) then Some 0 else map_option Suc (str_find p s))"

definition str_find_from :: "string \<Rightarrow> string \<Rightarrow> nat \<Rightarrow> nat option" where
  "str_find_from p s pos =
     (if pos \<le> length s then map_option (\<lambda>i. pos + i) (str_find p (drop pos s)) else None)"

fun chr_find :: "char \<Rightarrow> string \<Rightarrow> nat option" where
  "chr_find c [] = None"
| "chr_find c (d # s) = (if c = d then Some 0 else map_option Suc (chr_find c s))"

definition chr_rfind :: "char \<Rightarrow> string \<Rightarrow> nat option" where
  "chr_rfind c s = map_option (\<lambda>i. length s - 1 - i) (chr_find c (rev s))"

lemma str_find_Some:
  "str_find p s = Some i \<Longrightarrow> i \<le> length s \<and> prefix p (drop i s) \<and> (\<forall>j<i. \<not> prefix p (drop j s))"
proof (induction s arbitrary: i)
  case Nil
  then show ?case by (simp split: if_splits)
next
  case (Cons c s)
  show ?case
  proof (cases "prefix p (c # s)")
    case True
    with Cons.prems show ?thesis by simp
  next
    case False
    with Cons.prems obtain k where k: "str_find p s = Some k" "i = Suc k"
      by auto
    with Cons.IH [OF k(1)] False show ?thesis
      by (auto simp: less_Suc_eq_0_disj)
  qed
qed

lemma str_find_None: "str_find p s = None \<Longrightarrow> \<not> prefix p (drop j s)"
proof (induction s arbitrary: j)
  case Nil
  then show ?case by (simp split: if_splits)
next
  case (Cons c s)
  then show ?case by (cases j) (auto split: if_splits)
qed

lemma chr_find_Some:
  "chr_find c s = Some i \<Longrightarrow> i < length s \<and> s ! i = c \<and> c \<notin> set (take i s)"
proof (induction s arbitrary: i)
  case (Cons d s)
  then show ?case by (cases i) (auto split: if_splits)
qed simp

lemma chr_find_None [simp]: "chr_find c s = None \<longleftrightarrow> c \<notin> set s"
  by (induction s) auto

lemma chr_find_append: "c \<notin> set s \<Longrightarrow> chr_find c (s @ c # t) = Some (length s)"
  by (induction s) auto

section \<open>Integers printed in a base\<close>

fun base_digits :: "nat \<Rightarrow> nat \<Rightarrow> nat list" where
  "base_digits b n = (if n < b \<or> b < 2 then [n] else base_digits b (n div b) @ [n mod b])"

declare base_digits.simps [simp del]

definition digits_val :: "nat \<Rightarrow> nat list \<Rightarrow> nat" where
  "digits_val b ds = foldl (\<lambda>a d. a * b + d) 0 ds"

lemma digits_val_snoc [simp]: "digits_val b (ds @ [d]) = digits_val b ds * b + d"
  by (simp add: digits_val_def)

lemma digits_val_base_digits [simp]: "digits_val b (base_digits b n) = n"
proof (induction b n rule: base_digits.induct)
  case (1 b n)
  show ?case
  proof (cases "n < b \<or> b < 2")
    case True
    then show ?thesis by (subst base_digits.simps) (simp add: digits_val_def)
  next
    case False
    with "1.IH" show ?thesis by (subst base_digits.simps) simp
  qed
qed

lemma base_digits_less: "2 \<le> b \<Longrightarrow> d \<in> set (base_digits b n) \<Longrightarrow> d < b"
proof (induction b n rule: base_digits.induct)
  case (1 b n)
  show ?case
  proof (cases "n < b")
    case True
    with "1.prems" show ?thesis by (subst (asm) base_digits.simps) simp
  next
    case False
    with "1.prems" have "d \<in> set (base_digits b (n div b)) \<or> d = n mod b"
      by (subst (asm) base_digits.simps) auto
    with "1.IH" "1.prems" False show ?thesis by auto
  qed
qed

lemma length_base_digits_le: "2 \<le> b \<Longrightarrow> 0 < k \<Longrightarrow> n < b ^ k \<Longrightarrow> length (base_digits b n) \<le> k"
proof (induction b n arbitrary: k rule: base_digits.induct)
  case (1 b n)
  show ?case
  proof (cases "n < b")
    case True
    with "1.prems" show ?thesis by (subst base_digits.simps) simp
  next
    case False
    with "1.prems" have "k \<noteq> 1" by auto
    with "1.prems" obtain j where j: "k = Suc j" "0 < j" by (cases k) auto
    with "1.prems" have "n div b < b ^ j"
      by (simp add: less_mult_imp_div_less mult.commute)
    with "1.IH" [of j] "1.prems" False j have "length (base_digits b (n div b)) \<le> j" by simp
    with "1.prems" False j show ?thesis by (subst base_digits.simps) simp
  qed
qed

definition dec_digit :: "nat \<Rightarrow> char" where
  "dec_digit d = ''0123456789'' ! d"

definition hex_digit :: "nat \<Rightarrow> char" where
  "hex_digit d = ''0123456789abcdef'' ! d"

text \<open>\<open>std::to_string\<close> of an unsigned and of a signed integer.\<close>

definition nat_to_string :: "nat \<Rightarrow> string" where
  "nat_to_string n = map dec_digit (base_digits 10 n)"

definition int_to_string :: "int \<Rightarrow> string" where
  "int_to_string i = (if i < 0 then CHR ''-'' # nat_to_string (nat (- i)) else nat_to_string (nat i))"

text \<open>\<open>std::setw(w) << std::setfill(c)\<close>: pad on the left, never truncate.\<close>

definition pad_left :: "nat \<Rightarrow> char \<Rightarrow> string \<Rightarrow> string" where
  "pad_left w c s = replicate (w - length s) c @ s"

definition hex_to_string :: "nat \<Rightarrow> string" where
  "hex_to_string n = map hex_digit (base_digits 16 n)"

definition hex_digit_val :: "char \<Rightarrow> nat" where
  "hex_digit_val c = (case chr_find c ''0123456789abcdef'' of None \<Rightarrow> 0 | Some i \<Rightarrow> i)"

lemma hex_digit_val [simp]: "d < 16 \<Longrightarrow> hex_digit_val (hex_digit d) = d"
proof -
  have "\<forall>d<16. hex_digit_val (hex_digit d) = d"
    by (simp add: hex_digit_val_def hex_digit_def numeral_eq_Suc All_less_Suc)
  then show "d < 16 \<Longrightarrow> hex_digit_val (hex_digit d) = d" by blast
qed

definition hex_val :: "string \<Rightarrow> nat" where
  "hex_val s = digits_val 16 (map hex_digit_val s)"

lemma digits_val_zeros [simp]: "digits_val b (replicate k 0 @ ds) = digits_val b ds"
  by (induction k) (simp_all add: digits_val_def)

lemma hex_val_pad_hex [simp]: "hex_val (pad_left w CHR ''0'' (hex_to_string n)) = n"
proof -
  have "map (hex_digit_val \<circ> hex_digit) (base_digits 16 n) = base_digits 16 n"
    by (rule map_idI) (simp add: base_digits_less)
  moreover have "hex_digit_val CHR ''0'' = 0"
    by (simp add: hex_digit_val_def)
  ultimately show ?thesis
    by (simp add: hex_val_def pad_left_def hex_to_string_def)
qed

lemma length_pad_left [simp]: "length (pad_left w c s) = max w (length s)"
  by (simp add: pad_left_def)

section \<open>Big-endian integers\<close>

unbundle bit_operations_syntax

text \<open>
  \<open>be_bytes k v\<close> is the loop \<open>for (i = k-1; i >= 0; --i) push_back((uint8_t)(v >> (i*8)))\<close>;
  \<open>be_word\<close> is the loop \<open>v = (v << 8) | e[i]\<close> on a \<open>uint64_t\<close>.
\<close>

fun be_bytes :: "nat \<Rightarrow> nat \<Rightarrow> byte list" where
  "be_bytes 0 v = []"
| "be_bytes (Suc k) v = of_nat (v div 256 ^ k) # be_bytes k v"

definition be_val :: "byte list \<Rightarrow> nat" where
  "be_val bs = foldl (\<lambda>a b. a * 256 + unat b) 0 bs"

definition be_word :: "byte list \<Rightarrow> u64" where
  "be_word bs = foldl (\<lambda>a b. push_bit 8 a OR ucast b) 0 bs"

lemma length_be_bytes [simp]: "length (be_bytes k v) = k"
  by (induction k) simp_all

lemma be_val_shift: "foldl (\<lambda>a b. a * 256 + unat b) x bs = x * 256 ^ length bs + be_val bs"
proof (induction bs arbitrary: x rule: rev_induct)
  case (snoc b bs)
  have "be_val (bs @ [b]) = be_val bs * 256 + unat b"
    by (simp add: be_val_def)
  with snoc [of x] show ?case
    by (simp add: distrib_right mult.commute mult.left_commute)
qed (simp add: be_val_def)

lemma be_val_Nil [simp]: "be_val [] = 0"
  by (simp add: be_val_def)

lemma be_val_Cons [simp]: "be_val (b # bs) = unat b * 256 ^ length bs + be_val bs"
  using be_val_shift [of "unat b" bs] by (simp add: be_val_def)

lemma unat_byte_of_nat [simp]: "unat (of_nat n :: byte) = n mod 256"
  by (simp add: unat_of_nat)

lemma unat_byte_less [simp]: "unat (b :: byte) < 256"
  using unsigned_less [of b, where ?'a = nat] by simp

lemma be_val_be_bytes [codec_simps]: "be_val (be_bytes k v) = v mod 256 ^ k"
proof (induction k)
  case (Suc k)
  have "v mod 256 ^ Suc k = v div 256 ^ k mod 256 * 256 ^ k + v mod 256 ^ k"
    using mod_mult2_eq [of v "256 ^ k" 256] by (simp add: mult.commute)
  with Suc show ?case by simp
qed simp

lemma be_val_less: "be_val bs < 256 ^ length bs"
proof (induction bs)
  case (Cons b bs)
  have "unat b * 256 ^ length bs + be_val bs < (unat b + 1) * 256 ^ length bs"
    using Cons by simp
  also have "\<dots> \<le> 256 * 256 ^ length bs"
  proof -
    have "unat b + 1 \<le> 256" using unat_byte_less [of b] by linarith
    then show ?thesis by (rule mult_right_mono) simp
  qed
  finally show ?case by simp
qed simp

lemma push_or_byte: "push_bit 8 (a :: u64) OR ucast (b :: byte) = a * 256 + ucast b"
proof -
  have "push_bit 8 a AND (ucast b :: u64) = 0"
    by (rule bit_eqI) (auto simp: bit_simps dest: bit_imp_le_length)
  then have "push_bit 8 a OR (ucast b :: u64) = push_bit 8 a + ucast b"
    by (simp add: disjunctive_add_eq_or)
  then show ?thesis by (simp add: push_bit_eq_mult)
qed

lemma be_word_eq: "be_word bs = of_nat (be_val bs)"
proof (induction bs rule: rev_induct)
  case (snoc b bs)
  have "be_word (bs @ [b]) = be_word bs * 256 + ucast b"
    by (simp add: be_word_def push_or_byte)
  moreover have "be_val (bs @ [b]) = be_val bs * 256 + unat b"
    by (simp add: be_val_def)
  moreover have "(ucast b :: u64) = of_nat (unat b)"
    by (simp only: of_nat_unat)
  ultimately show ?case using snoc by (simp only: of_nat_add of_nat_mult of_nat_numeral)
qed (simp add: be_word_def)

lemma unat_be_word: "length bs \<le> 8 \<Longrightarrow> unat (be_word bs) = be_val bs"
proof -
  assume "length bs \<le> 8"
  then have "(256::nat) ^ length bs \<le> 256 ^ 8" by (intro power_increasing) simp_all
  with be_val_less [of bs] have "be_val bs < 2 ^ 64" by simp
  then show ?thesis by (simp add: be_word_eq unat_of_nat)
qed

section \<open>Sockets\<close>

text \<open>
  What a connected stream socket will still deliver: one list per future \<open>recv\<close> call
  boundary the operating system chooses. \<open>recv s n\<close> returns at most \<open>n\<close> bytes of the first
  chunk. No chunk left, or an empty chunk, is a return value \<open>\<le> 0\<close> (closed or failed). The
  operating system's choice of chunks is the argument, so a theorem for all chunkings holds
  for every delivery.
\<close>

type_synonym inbound = "byte list list"

fun sock_recv :: "inbound \<Rightarrow> nat \<Rightarrow> byte list \<times> inbound" where
  "sock_recv [] n = ([], [])"
| "sock_recv (c # cs) n = (take n c, if length c \<le> n then cs else drop n c # cs)"

text \<open>The loop of \<open>recvAll\<close>: keep calling \<open>recv\<close> until \<open>n\<close> bytes have arrived.\<close>

function recv_all :: "inbound \<Rightarrow> nat \<Rightarrow> byte list option \<times> inbound" where
  "recv_all s n =
     (if n = 0 then (Some [], s)
      else case sock_recv s n of (d, s') \<Rightarrow>
        (if d = [] then (None, s')
         else case recv_all s' (n - length d) of (r, s'') \<Rightarrow> (map_option ((@) d) r, s'')))"
  by pat_completeness auto
termination
  by (relation "measure (\<lambda>(s, n). n)") auto

declare recv_all.simps [simp del]

lemma recv_all_0 [simp]: "recv_all s 0 = (Some [], s)"
  by (simp add: recv_all.simps)

definition live :: "inbound \<Rightarrow> bool" where
  "live s \<longleftrightarrow> [] \<notin> set s"

lemma sock_recv_live:
  assumes "live s" "0 < n" "sock_recv s n = (d, s')"
  shows "live s'" and "concat s = d @ concat s'" and "d = [] \<longleftrightarrow> concat s = []"
    and "length d \<le> n"
  using assms by (cases s; auto simp: live_def split: if_splits)+

text \<open>
  \<open>recvAll\<close> hides the chunk boundaries: it returns the first \<open>n\<close> bytes of the stream,
  however they were delivered, and fails exactly when the stream ends before.
\<close>

lemma recv_all_stream:
  "live s \<Longrightarrow> recv_all s n = (r, s') \<Longrightarrow>
     (if n \<le> length (concat s)
      then r = Some (take n (concat s)) \<and> concat s' = drop n (concat s) \<and> live s'
      else r = None)"
proof (induction s n arbitrary: r s' rule: recv_all.induct)
  case (1 s n)
  show ?case
  proof (cases "n = 0")
    case True
    with "1.prems" show ?thesis by auto
  next
    case False
    obtain d t where dt: "sock_recv s n = (d, t)" by (cases "sock_recv s n")
    from False have "0 < n" by simp
    note recv = sock_recv_live [OF "1.prems"(1) this dt]
    show ?thesis
    proof (cases "d = []")
      case True
      with recv(3) False have e: "concat s = []" by blast
      from True False "1.prems"(2) dt show ?thesis
        by (simp add: recv_all.simps [of s n] e del: concat_eq_Nil_conv)
    next
      case d: False
      obtain q u where qu: "recv_all t (n - length d) = (q, u)"
        by (cases "recv_all t (n - length d)")
      from "1.prems"(2) False d dt qu have r: "r = map_option ((@) d) q" "s' = u"
        by (simp_all add: recv_all.simps [of s n])
      note IH = "1.IH" [OF False dt [symmetric] d recv(1) qu]
      from recv(2,4) have "concat s = d @ concat t" "length d \<le> n" by simp_all
      with IH r False show ?thesis by (auto split: if_splits)
    qed
  qed
qed

lemma recv_all_live_Some:
  assumes "live s" "concat s = xs @ rest"
  obtains s' where "recv_all s (length xs) = (Some xs, s')" "concat s' = rest" "live s'"
proof -
  obtain r s' where rs: "recv_all s (length xs) = (r, s')"
    by (cases "recv_all s (length xs)")
  from recv_all_stream [OF assms(1) rs] assms(2)
  have "r = Some xs" "concat s' = rest" "live s'" by simp_all
  with rs that show ?thesis by simp
qed

lemma recv_all_live_None:
  assumes "live s" "length (concat s) < n"
  shows "fst (recv_all s n) = None"
  using recv_all_stream [OF assms(1), of n "fst (recv_all s n)" "snd (recv_all s n)"] assms(2)
  by simp

subsection \<open>Messages over a stream\<close>

text \<open>
  The contract between a sender and a receiver of messages on one stream: whatever the chunk
  boundaries, the decoder takes exactly the bytes of one encoded message off the stream and
  returns that message.
\<close>

fun read_n :: "(inbound \<Rightarrow> 'a option \<times> inbound) \<Rightarrow> nat \<Rightarrow> inbound \<Rightarrow> 'a list \<times> inbound" where
  "read_n dec 0 s = ([], s)"
| "read_n dec (Suc n) s =
     (case dec s of (None, s') \<Rightarrow> ([], s')
      | (Some x, s') \<Rightarrow> (case read_n dec n s' of (xs, s'') \<Rightarrow> (x # xs, s'')))"

locale stream_codec =
  fixes enc :: "'a \<Rightarrow> byte list" and dec :: "inbound \<Rightarrow> 'a option \<times> inbound" and ok :: "'a \<Rightarrow> bool"
  assumes decode: "ok x \<Longrightarrow> live s \<Longrightarrow> concat s = enc x @ rest \<Longrightarrow>
    \<exists>s'. dec s = (Some x, s') \<and> concat s' = rest \<and> live s'"
begin

lemma read_all:
  "(\<forall>x \<in> set xs. ok x) \<Longrightarrow> live s \<Longrightarrow> concat s = concat (map enc xs) @ rest \<Longrightarrow>
     \<exists>s'. read_n dec (length xs) s = (xs, s') \<and> concat s' = rest \<and> live s'"
proof (induction xs arbitrary: s)
  case (Cons x xs)
  from Cons.prems have "ok x" "concat s = enc x @ (concat (map enc xs) @ rest)" by simp_all
  then obtain t where t: "dec s = (Some x, t)" "concat t = concat (map enc xs) @ rest" "live t"
    using decode Cons.prems(2) by blast
  from Cons.IH [OF _ t(3,2)] Cons.prems(1)
  obtain u where "read_n dec (length xs) t = (xs, u)" "concat u = rest" "live u" by auto
  with t show ?case by simp
qed simp

lemma prefix_free:
  assumes "ok x" "ok y" "enc x @ r = enc y @ r'"
  shows "x = y \<and> r = r'"
proof -
  define s where "s = (if enc x @ r = [] then [] else [enc x @ r])"
  have s: "live s" "concat s = enc x @ r" by (simp_all add: s_def live_def)
  from decode [OF assms(1) s] obtain t where "dec s = (Some x, t)" "concat t = r" by blast
  moreover from decode [OF assms(2) s(1)] s(2) assms(3) obtain u
    where "dec s = (Some y, u)" "concat u = r'" by auto
  ultimately show ?thesis by simp
qed

end

end
