(* ===== verification/JsonApi.thy ===== *)
theory JsonApi
  imports NexusPrelude
begin

text \<open>
  The interface of \<open>nlohmann::json\<close>, a third-party package the program calls and whose code
  is not part of the repository. A value of the record \<open>json_api\<close> holds the operations the
  program uses; every definition that touches JSON takes such a record as its argument
  \<open>J\<close>, and the type \<open>'j\<close> of JSON values stays abstract. What a theorem relies on is the
  documented behaviour collected in \<open>json_laws\<close>. The instance \<open>table_json\<close> at the end shows
  that the laws can hold; only witnesses use it.
\<close>

type_synonym double = u64

definition dbl_zero :: double where "dbl_zero = 0"
definition dbl_one :: double where "dbl_one = 0x3FF0000000000000"

text \<open>
  A member ending in \<open>outcome\<close> may throw (\<open>type_error\<close>, \<open>out_of_range\<close>). \<open>dump\<close> throws on
  a string that is not valid UTF-8 and \<open>parse\<close> on malformed text; both are \<open>None\<close> then.
  \<open>j_read\<close> is \<open>in >> j\<close>, which reads one value and leaves what follows it in the stream.
  \<open>j_index\<close> is the const \<open>operator[]\<close>, undefined on an absent key; \<open>j_set\<close> is
  \<open>j[k] = v\<close>. A \<open>double\<close> is its 64-bit pattern: the program stores and forwards doubles and
  never computes with them.
\<close>

record 'j json_api =
  j_null :: 'j
  j_bool :: "bool \<Rightarrow> 'j"
  j_int :: "int \<Rightarrow> 'j"
  j_double :: "double \<Rightarrow> 'j"
  j_string :: "string \<Rightarrow> 'j"
  j_array :: "'j list \<Rightarrow> 'j"
  j_object :: "(string \<times> 'j) list \<Rightarrow> 'j"
  j_parse :: "string \<Rightarrow> 'j option"
  j_read :: "string \<Rightarrow> 'j option"
  j_dump :: "'j \<Rightarrow> string option"
  j_pretty :: "nat \<Rightarrow> 'j \<Rightarrow> string option"
  j_contains :: "'j \<Rightarrow> string \<Rightarrow> bool"
  j_index :: "'j \<Rightarrow> string \<Rightarrow> 'j outcome"
  j_nth :: "'j \<Rightarrow> nat \<Rightarrow> 'j outcome"
  j_set :: "'j \<Rightarrow> string \<Rightarrow> 'j \<Rightarrow> 'j outcome"
  j_elems :: "'j \<Rightarrow> 'j list"
  j_items :: "'j \<Rightarrow> (string \<times> 'j) list"
  j_empty :: "'j \<Rightarrow> bool"
  j_is_null :: "'j \<Rightarrow> bool"
  j_is_object :: "'j \<Rightarrow> bool"
  j_is_string :: "'j \<Rightarrow> bool"
  j_is_integer :: "'j \<Rightarrow> bool"
  j_is_float :: "'j \<Rightarrow> bool"
  j_is_boolean :: "'j \<Rightarrow> bool"
  j_get_string :: "'j \<Rightarrow> string outcome"
  j_get_int :: "'j \<Rightarrow> int outcome"
  j_get_double :: "'j \<Rightarrow> double outcome"
  j_get_bool :: "'j \<Rightarrow> bool outcome"
  j_get_strings :: "'j \<Rightarrow> string list outcome"
  j_value_string :: "'j \<Rightarrow> string \<Rightarrow> string \<Rightarrow> string outcome"
  j_value_int :: "'j \<Rightarrow> string \<Rightarrow> int \<Rightarrow> int outcome"
  j_value_double :: "'j \<Rightarrow> string \<Rightarrow> double \<Rightarrow> double outcome"
  j_value_bool :: "'j \<Rightarrow> string \<Rightarrow> bool \<Rightarrow> bool outcome"
  j_value_json :: "'j \<Rightarrow> string \<Rightarrow> 'j \<Rightarrow> 'j outcome"
  j_value_strings :: "'j \<Rightarrow> string \<Rightarrow> string list \<Rightarrow> string list outcome"
  j_merge_patch :: "'j \<Rightarrow> 'j \<Rightarrow> 'j"

text \<open>\<open>dump()\<close> and \<open>dump(n)\<close> where an exception leaves the caller.\<close>

definition dump_exn :: "'j json_api \<Rightarrow> 'j \<Rightarrow> string outcome" where
  "dump_exn J j = (case j_dump J j of None \<Rightarrow> Inl (StdException ''type_error.316'') | Some t \<Rightarrow> Inr t)"

definition pretty_exn :: "'j json_api \<Rightarrow> nat \<Rightarrow> 'j \<Rightarrow> string outcome" where
  "pretty_exn J n j =
     (case j_pretty J n j of None \<Rightarrow> Inl (StdException ''type_error.316'') | Some t \<Rightarrow> Inr t)"

definition parse_exn :: "'j json_api \<Rightarrow> string \<Rightarrow> 'j outcome" where
  "parse_exn J t = (case j_parse J t of None \<Rightarrow> Inl (StdException ''parse_error'') | Some j \<Rightarrow> Inr j)"

definition read_exn :: "'j json_api \<Rightarrow> string \<Rightarrow> 'j outcome" where
  "read_exn J t = (case j_read J t of None \<Rightarrow> Inl (StdException ''parse_error'') | Some j \<Rightarrow> Inr j)"

fun assoc_set :: "'k \<Rightarrow> 'v \<Rightarrow> ('k \<times> 'v) list \<Rightarrow> ('k \<times> 'v) list" where
  "assoc_set k v [] = [(k, v)]"
| "assoc_set k v ((k', v') # kvs) = (if k = k' then (k, v) # kvs else (k', v') # assoc_set k v kvs)"

lemma map_of_assoc_set [registry_simps]:
  "map_of (assoc_set k v t) k' = (if k' = k then Some v else map_of t k')"
  by (induction t) auto

definition find_or :: "(string \<times> 'j) list \<Rightarrow> string \<Rightarrow> ('j \<Rightarrow> 'b) \<Rightarrow> 'b \<Rightarrow> 'b" where
  "find_or kvs k f d = (case map_of kvs k of None \<Rightarrow> d | Some v \<Rightarrow> f v)"

lemma find_or_simps [simp]:
  "find_or [] k f d = d"
  "find_or ((k', v) # kvs) k f d = (if k = k' then f v else find_or kvs k f d)"
  by (auto simp: find_or_def)

text \<open>
  Documented behaviour: a value built from an initializer list of pairs with distinct keys
  is an object with these members; \<open>value(k, d)\<close> returns the converted member or the
  default; \<open>get<T>\<close> inverts the constructor of its own type; iterating over an array gives
  its elements in order and \<open>operator[]\<close> the element at a valid index and over an object its members; \<open>j[k] = v\<close> replaces or adds a member,
  and turns \<open>null\<close> into an object; \<open>>>\<close> reads whatever \<open>parse\<close> accepts as \<open>parse\<close> does; \<open>is_null()\<close> holds of \<open>null\<close> and of no object; \<open>empty()\<close> holds of \<open>null\<close> and of an
  object or array without elements.
\<close>

definition json_laws :: "'j json_api \<Rightarrow> bool" where
  "json_laws J \<longleftrightarrow>
     (\<forall>t j. j_parse J t = Some j \<longrightarrow> j_read J t = Some j) \<and>
     (\<forall>s. j_get_string J (j_string J s) = Inr s) \<and>
     (\<forall>i. j_get_int J (j_int J i) = Inr i) \<and>
     (\<forall>b. j_get_bool J (j_bool J b) = Inr b) \<and>
     (\<forall>ss. j_get_strings J (j_array J (map (j_string J) ss)) = Inr ss) \<and>
     (\<forall>xs. j_elems J (j_array J xs) = xs) \<and>
     (\<forall>s. j_is_string J (j_string J s)) \<and>
     (\<forall>d. j_get_double J (j_double J d) = Inr d) \<and>
     (\<forall>xs n. n < length xs \<longrightarrow> j_nth J (j_array J xs) n = Inr (xs ! n)) \<and>
     (\<forall>xs. j_empty J (j_array J xs) \<longleftrightarrow> xs = []) \<and>
     j_is_null J (j_null J) \<and> (\<forall>kvs. \<not> j_is_null J (j_object J kvs)) \<and>
     j_empty J (j_null J) \<and> (\<forall>kvs. j_empty J (j_object J kvs) \<longleftrightarrow> kvs = []) \<and>
     (\<forall>k v. j_set J (j_null J) k v = Inr (j_object J [(k, v)])) \<and>
     (\<forall>kvs k v. distinct (map fst kvs) \<longrightarrow>
        j_set J (j_object J kvs) k v = Inr (j_object J (assoc_set k v kvs))) \<and>
     (\<forall>kvs. distinct (map fst kvs) \<longrightarrow> j_is_object J (j_object J kvs) \<and>
        set (j_items J (j_object J kvs)) = set kvs \<and> distinct (map fst (j_items J (j_object J kvs)))) \<and>
     (\<forall>kvs k. distinct (map fst kvs) \<longrightarrow>
        j_contains J (j_object J kvs) k = (k \<in> set (map fst kvs)) \<and>
        j_index J (j_object J kvs) k = find_or kvs k Inr (Inl Undefined) \<and>
        (\<forall>d. j_value_string J (j_object J kvs) k d = find_or kvs k (j_get_string J) (Inr d)) \<and>
        (\<forall>d. j_value_int J (j_object J kvs) k d = find_or kvs k (j_get_int J) (Inr d)) \<and>
        (\<forall>d. j_value_double J (j_object J kvs) k d = find_or kvs k (j_get_double J) (Inr d)) \<and>
        (\<forall>d. j_value_bool J (j_object J kvs) k d = find_or kvs k (j_get_bool J) (Inr d)) \<and>
        (\<forall>d. j_value_json J (j_object J kvs) k d = find_or kvs k Inr (Inr d)) \<and>
        (\<forall>d. j_value_strings J (j_object J kvs) k d = find_or kvs k (j_get_strings J) (Inr d)))"

lemma json_laws_read: "json_laws J \<Longrightarrow> j_parse J t = Some j \<Longrightarrow> read_exn J t = Inr j"
  by (simp add: json_laws_def read_exn_def)

lemma json_laws_get:
  assumes "json_laws J"
  shows "j_get_string J (j_string J s) = Inr s" "j_get_int J (j_int J i) = Inr i"
    "j_get_bool J (j_bool J b) = Inr b" "j_elems J (j_array J xs) = xs"
    "j_get_strings J (j_array J (map (j_string J) ss)) = Inr ss" "j_is_string J (j_string J s)"
    "j_set J (j_null J) k v = Inr (j_object J [(k, v)])"
    "j_empty J (j_null J)" "j_empty J (j_object J kvs) \<longleftrightarrow> kvs = []"
    "j_get_double J (j_double J d) = Inr d" "j_empty J (j_array J xs) \<longleftrightarrow> xs = []"
    "n < length xs \<Longrightarrow> j_nth J (j_array J xs) n = Inr (xs ! n)"
    "j_is_null J (j_null J)" "\<not> j_is_null J (j_object J kvs)"
  using assms by (simp_all add: json_laws_def)

lemma json_laws_object:
  assumes "json_laws J" "distinct (map fst kvs)"
  shows "j_contains J (j_object J kvs) k = (k \<in> set (map fst kvs))"
    "j_index J (j_object J kvs) k = find_or kvs k Inr (Inl Undefined)"
    "j_value_string J (j_object J kvs) k s = find_or kvs k (j_get_string J) (Inr s)"
    "j_value_int J (j_object J kvs) k i = find_or kvs k (j_get_int J) (Inr i)"
    "j_value_bool J (j_object J kvs) k b = find_or kvs k (j_get_bool J) (Inr b)"
    "j_value_json J (j_object J kvs) k j = find_or kvs k Inr (Inr j)"
    "j_value_strings J (j_object J kvs) k ss = find_or kvs k (j_get_strings J) (Inr ss)"
    "j_set J (j_object J kvs) k j = Inr (j_object J (assoc_set k j kvs))"
    "j_is_object J (j_object J kvs)"
    "j_value_double J (j_object J kvs) k db = find_or kvs k (j_get_double J) (Inr db)"
    "j_value_bool J (j_object J kvs) k bl = find_or kvs k (j_get_bool J) (Inr bl)"
  using assms by (simp_all add: json_laws_def)

lemma json_laws_items:
  assumes "json_laws J" "distinct (map fst kvs)"
  shows "set (j_items J (j_object J kvs)) = set kvs" "distinct (map fst (j_items J (j_object J kvs)))"
  using assms by (simp_all add: json_laws_def)

lemmas json_law_simps = json_laws_get json_laws_object

section \<open>An instance of the interface\<close>

text \<open>
  Values are the six JSON kinds. The text of a value is looked up in a table that the
  witness chooses, so that no parser has to be made up.
\<close>

datatype json =
    JNull | JBool bool | JInt int | JDouble double | JString string
  | JArray "json list" | JObject "(string \<times> json) list"

fun tj_string :: "json \<Rightarrow> string outcome" where
  "tj_string (JString s) = Inr s"
| "tj_string _ = Inl (StdException ''type_error.302'')"

fun tj_int :: "json \<Rightarrow> int outcome" where
  "tj_int (JInt s) = Inr s"
| "tj_int _ = Inl (StdException ''type_error.302'')"

fun tj_double :: "json \<Rightarrow> double outcome" where
  "tj_double (JDouble s) = Inr s"
| "tj_double _ = Inl (StdException ''type_error.302'')"

fun tj_bool :: "json \<Rightarrow> bool outcome" where
  "tj_bool (JBool s) = Inr s"
| "tj_bool _ = Inl (StdException ''type_error.302'')"

fun tj_elems :: "json \<Rightarrow> json list" where
  "tj_elems (JArray xs) = xs"
| "tj_elems (JObject kvs) = map snd kvs"
| "tj_elems JNull = []"
| "tj_elems j = [j]"

fun tj_strings :: "json \<Rightarrow> string list outcome" where
  "tj_strings (JArray xs) = map_outcomes tj_string xs"
| "tj_strings _ = Inl (StdException ''type_error.302'')"

fun tj_items :: "json \<Rightarrow> (string \<times> json) list" where
  "tj_items (JObject kvs) = kvs"
| "tj_items _ = []"

fun tj_value :: "(json \<Rightarrow> 'b outcome) \<Rightarrow> json \<Rightarrow> string \<Rightarrow> 'b \<Rightarrow> 'b outcome" where
  "tj_value get (JObject kvs) k d = find_or kvs k get (Inr d)"
| "tj_value get _ k d = Inl (StdException ''type_error.306'')"

fun tj_index :: "json \<Rightarrow> string \<Rightarrow> json outcome" where
  "tj_index (JObject kvs) k = find_or kvs k Inr (Inl Undefined)"
| "tj_index _ k = Inl (StdException ''type_error.305'')"

fun tj_nth :: "json \<Rightarrow> nat \<Rightarrow> json outcome" where
  "tj_nth (JArray xs) n = (if n < length xs then Inr (xs ! n) else Inl Undefined)"
| "tj_nth _ n = Inl (StdException ''type_error.305'')"

fun tj_set :: "json \<Rightarrow> string \<Rightarrow> json \<Rightarrow> json outcome" where
  "tj_set (JObject kvs) k v = Inr (JObject (assoc_set k v kvs))"
| "tj_set JNull k v = Inr (JObject [(k, v)])"
| "tj_set _ k v = Inl (StdException ''type_error.305'')"

fun tj_empty :: "json \<Rightarrow> bool" where
  "tj_empty (JArray xs) = (xs = [])"
| "tj_empty (JObject kvs) = (kvs = [])"
| "tj_empty JNull = True"
| "tj_empty _ = False"

definition tj_merge :: "json \<Rightarrow> json \<Rightarrow> json" where
  "tj_merge j p = (case (j, p) of
     (JObject kvs, JObject ps) \<Rightarrow> JObject (foldl (\<lambda>a (k, v). assoc_set k v a) kvs ps)
   | _ \<Rightarrow> p)"

definition table_json :: "(string \<times> json) list \<Rightarrow> json json_api" where
  "table_json tbl = \<lparr>
     j_null = JNull, j_bool = JBool, j_int = JInt, j_double = JDouble, j_string = JString,
     j_array = JArray, j_object = JObject,
     j_parse = map_of tbl, j_read = map_of tbl, j_dump = map_of (map (\<lambda>(t, j). (j, t)) tbl),
     j_pretty = (\<lambda>_. map_of (map (\<lambda>(t, j). (j, t)) tbl)),
     j_contains = (\<lambda>j k. k \<in> set (map fst (tj_items j))),
     j_index = tj_index, j_nth = tj_nth, j_set = tj_set,
     j_elems = tj_elems, j_items = tj_items, j_empty = tj_empty,
     j_is_null = (\<lambda>j. j = JNull), j_is_object = (\<lambda>j. case j of JObject _ \<Rightarrow> True | _ \<Rightarrow> False),
     j_is_string = (\<lambda>j. case j of JString _ \<Rightarrow> True | _ \<Rightarrow> False),
     j_is_integer = (\<lambda>j. case j of JInt _ \<Rightarrow> True | _ \<Rightarrow> False),
     j_is_float = (\<lambda>j. case j of JDouble _ \<Rightarrow> True | _ \<Rightarrow> False),
     j_is_boolean = (\<lambda>j. case j of JBool _ \<Rightarrow> True | _ \<Rightarrow> False),
     j_get_string = tj_string, j_get_int = tj_int, j_get_double = tj_double,
     j_get_bool = tj_bool, j_get_strings = tj_strings,
     j_value_string = tj_value tj_string, j_value_int = tj_value tj_int,
     j_value_double = tj_value tj_double, j_value_bool = tj_value tj_bool,
     j_value_json = tj_value Inr, j_value_strings = tj_value tj_strings,
     j_merge_patch = tj_merge \<rparr>"

lemma table_json_sel [simp]:
  "j_null (table_json tbl) = JNull"
  "j_bool (table_json tbl) = JBool"
  "j_int (table_json tbl) = JInt"
  "j_double (table_json tbl) = JDouble"
  "j_string (table_json tbl) = JString"
  "j_array (table_json tbl) = JArray"
  "j_object (table_json tbl) = JObject"
  "j_parse (table_json tbl) = map_of tbl"
  "j_read (table_json tbl) = map_of tbl"
  "j_dump (table_json tbl) = map_of (map (\<lambda>(t, j). (j, t)) tbl)"
  "j_pretty (table_json tbl) = (\<lambda>_. map_of (map (\<lambda>(t, j). (j, t)) tbl))"
  "j_contains (table_json tbl) = (\<lambda>j k. k \<in> set (map fst (tj_items j)))"
  "j_index (table_json tbl) = tj_index"
  "j_nth (table_json tbl) = tj_nth"
  "j_set (table_json tbl) = tj_set"
  "j_elems (table_json tbl) = tj_elems"
  "j_items (table_json tbl) = tj_items"
  "j_empty (table_json tbl) = tj_empty"
  "j_is_null (table_json tbl) = (\<lambda>j. j = JNull)"
  "j_is_object (table_json tbl) = (\<lambda>j. case j of JObject _ \<Rightarrow> True | _ \<Rightarrow> False)"
  "j_is_string (table_json tbl) = (\<lambda>j. case j of JString _ \<Rightarrow> True | _ \<Rightarrow> False)"
  "j_is_integer (table_json tbl) = (\<lambda>j. case j of JInt _ \<Rightarrow> True | _ \<Rightarrow> False)"
  "j_is_float (table_json tbl) = (\<lambda>j. case j of JDouble _ \<Rightarrow> True | _ \<Rightarrow> False)"
  "j_is_boolean (table_json tbl) = (\<lambda>j. case j of JBool _ \<Rightarrow> True | _ \<Rightarrow> False)"
  "j_get_string (table_json tbl) = tj_string"
  "j_get_int (table_json tbl) = tj_int"
  "j_get_double (table_json tbl) = tj_double"
  "j_get_bool (table_json tbl) = tj_bool"
  "j_get_strings (table_json tbl) = tj_strings"
  "j_value_string (table_json tbl) = tj_value tj_string"
  "j_value_int (table_json tbl) = tj_value tj_int"
  "j_value_double (table_json tbl) = tj_value tj_double"
  "j_value_bool (table_json tbl) = tj_value tj_bool"
  "j_value_json (table_json tbl) = tj_value Inr"
  "j_value_strings (table_json tbl) = tj_value tj_strings"
  "j_merge_patch (table_json tbl) = tj_merge"
  by (simp_all add: table_json_def)

lemma tj_strings_strings: "tj_strings (JArray (map JString ss)) = Inr ss"
  by (induction ss) simp_all

lemma json_laws_table [simp]: "json_laws (table_json tbl)"
  using tj_strings_strings by (simp add: json_laws_def)

end
