(* ===== verification/Results.thy ===== *)
theory Results
  imports JsonApi
begin

text \<open>
  \<open>Result\<close> and \<open>ModuleResult\<close> (src/result): the outcome of a service operation as an HTTP
  status and a message.
\<close>

record cpp_result =
  r_status :: int
  r_message :: string

definition result_ok :: "string \<Rightarrow> cpp_result" where
  "result_ok m = \<lparr>r_status = 200, r_message = m\<rparr>"

definition result_created :: "string \<Rightarrow> cpp_result" where
  "result_created m = \<lparr>r_status = 201, r_message = m\<rparr>"

definition result_badRequest :: "string \<Rightarrow> cpp_result" where
  "result_badRequest m = \<lparr>r_status = 400, r_message = m\<rparr>"

definition result_notFound :: "string \<Rightarrow> cpp_result" where
  "result_notFound m = \<lparr>r_status = 404, r_message = m\<rparr>"

definition result_conflict :: "string \<Rightarrow> cpp_result" where
  "result_conflict m = \<lparr>r_status = 409, r_message = m\<rparr>"

definition result_forbidden :: "string \<Rightarrow> cpp_result" where
  "result_forbidden m = \<lparr>r_status = 403, r_message = m\<rparr>"

definition result_failed :: "string \<Rightarrow> cpp_result" where
  "result_failed m = \<lparr>r_status = 500, r_message = m\<rparr>"

definition isOk :: "cpp_result \<Rightarrow> bool" where
  "isOk r \<longleftrightarrow> 200 \<le> r_status r \<and> r_status r < 300"

definition result_toJson :: "'j json_api \<Rightarrow> cpp_result \<Rightarrow> string outcome" where
  "result_toJson J r =
     dump_exn J (j_object J [(''success'', j_bool J (isOk r)), (''output'', j_string J (r_message r))])"

definition module_alreadyLoaded :: "string \<Rightarrow> cpp_result" where
  "module_alreadyLoaded name =
     \<lparr>r_status = 409, r_message = ''Module '' @ [CHR 0x27] @ name @ [CHR 0x27] @ '' is already loaded''\<rparr>"

definition module_notLoaded :: "string \<Rightarrow> cpp_result" where
  "module_notLoaded name =
     \<lparr>r_status = 409, r_message = ''Module '' @ [CHR 0x27] @ name @ [CHR 0x27] @ '' is not loaded''\<rparr>"

text \<open>A name in single quotes, as most messages of the services print it.\<close>

definition quoted :: "string \<Rightarrow> string" where
  "quoted s = [CHR 0x27] @ s @ [CHR 0x27]"

lemmas result_defs =
  result_ok_def result_created_def result_badRequest_def result_notFound_def
  result_conflict_def result_forbidden_def result_failed_def
  module_alreadyLoaded_def module_notLoaded_def

lemma isOk_simps [simp]:
  "isOk (result_ok m)" "isOk (result_created m)"
  "\<not> isOk (result_badRequest m)" "\<not> isOk (result_notFound m)" "\<not> isOk (result_conflict m)"
  "\<not> isOk (result_forbidden m)" "\<not> isOk (result_failed m)"
  "\<not> isOk (module_alreadyLoaded n)" "\<not> isOk (module_notLoaded n)"
  by (simp_all add: isOk_def result_defs)

end
