(* ===== verification/Event_Bus.thy ===== *)
theory Event_Bus
  imports Results
begin

text \<open>
  \<open>EventBus\<close> (src/event): publish/subscribe with a queue that \<open>dispatchPending\<close> drains.
  Every public method holds the mutex for its whole body, so one call is one atomic step;
  \<open>dispatchPending\<close> calls the listeners without the lock, and they may call back into the
  bus. The code of a listener is the argument \<open>code\<close> of the dispatch functions: it takes the
  event and the pair of the bus and the rest of the world and returns both, changed, with a
  result or an exception. The log lines the bus writes are kept in \<open>bus_log\<close>. \<open>nextId\<close> is an
  \<open>int\<close> counted without a bound (its overflow after two billion subscriptions is undefined
  behaviour in the source and outside the model).
\<close>

section \<open>State\<close>

datatype any = AnyEmpty | AnyString string | AnyPair string string | AnyOther nat

record event =
  ev_name :: string
  ev_data :: any

datatype log_level = LInfo | LWarning | LError | LCritical

record 'c listener =
  l_id :: int
  l_cb :: 'c

text \<open>
  The overload of \<open>subscribe\<close> for result callbacks stores a wrapper that calls the callback
  and logs a warning when its result is not a success.
\<close>

datatype 'c callback = VoidCallback 'c | ResultCallback string 'c

record 'c bus =
  bus_listeners :: "string \<Rightarrow> 'c callback listener list option"
  bus_queue :: "event list"
  bus_next_id :: int
  bus_down :: bool
  bus_log :: "(log_level \<times> string) list"

definition new_bus :: "'c bus" where
  "new_bus = \<lparr>bus_listeners = Map.empty, bus_queue = [], bus_next_id = 1, bus_down = False, bus_log = []\<rparr>"

definition bus_write :: "log_level \<Rightarrow> string \<Rightarrow> 'c bus \<Rightarrow> 'c bus" where
  "bus_write l m b = b\<lparr>bus_log := bus_log b @ [(l, m)]\<rparr>"

definition listeners_of :: "'c bus \<Rightarrow> string \<Rightarrow> 'c callback listener list" where
  "listeners_of b n = (case bus_listeners b n of None \<Rightarrow> [] | Some ls \<Rightarrow> ls)"

section \<open>Operations\<close>

definition bus_subscribe_cb :: "string \<Rightarrow> 'c callback \<Rightarrow> 'c bus \<Rightarrow> int \<times> 'c bus" where
  "bus_subscribe_cb name cb b =
     (if bus_down b then (-1, b)
      else
        let lid = bus_next_id b;
            ls = listeners_of b name @ [\<lparr>l_id = lid, l_cb = cb\<rparr>]
        in (lid,
            bus_write LInfo
              (''Subscribed to event: '' @ name @ '' (ID: '' @ int_to_string lid
               @ '', Total listeners: '' @ nat_to_string (length ls) @ '')'')
              (b\<lparr>bus_next_id := lid + 1, bus_listeners := (bus_listeners b)(name \<mapsto> ls)\<rparr>)))"

definition bus_subscribe :: "string \<Rightarrow> 'c \<Rightarrow> 'c bus \<Rightarrow> int \<times> 'c bus" where
  "bus_subscribe name c b = bus_subscribe_cb name (VoidCallback c) b"

definition bus_subscribe_result :: "string \<Rightarrow> 'c \<Rightarrow> 'c bus \<Rightarrow> int \<times> 'c bus" where
  "bus_subscribe_result name c b = bus_subscribe_cb name (ResultCallback name c) b"

definition bus_unsubscribe :: "string \<Rightarrow> int \<Rightarrow> 'c bus \<Rightarrow> 'c bus" where
  "bus_unsubscribe name lid b =
     (case bus_listeners b name of
        None \<Rightarrow> b
      | Some ls \<Rightarrow>
          let ls' = filter (\<lambda>l. l_id l \<noteq> lid) ls;
              b' = bus_write LInfo (''Unsubscribed from event: '' @ name @ '' (ID: '' @ int_to_string lid @ '')'') b
          in b'\<lparr>bus_listeners := (bus_listeners b)(name := if ls' = [] then None else Some ls')\<rparr>)"

definition bus_publish :: "event \<Rightarrow> 'c bus \<Rightarrow> 'c bus" where
  "bus_publish e b =
     (if \<not> bus_down b
      then bus_write LInfo
             (''Event published: '' @ ev_name e @ '' (Queue size: ''
              @ nat_to_string (length (bus_queue b @ [e])) @ '')'')
             (b\<lparr>bus_queue := bus_queue b @ [e]\<rparr>)
      else bus_write LError (''Event rejected (shutting down): '' @ ev_name e) b)"

definition bus_shutdown :: "'c bus \<Rightarrow> 'c bus" where
  "bus_shutdown b =
     (bus_write LInfo
        (''Shutting down (clearing '' @ nat_to_string (length (bus_queue b)) @ '' queued events)'') b)
     \<lparr>bus_down := True, bus_queue := [], bus_listeners := Map.empty\<rparr>"

definition bus_isActive :: "'c bus \<Rightarrow> bool" where
  "bus_isActive b \<longleftrightarrow> \<not> bus_down b"

subsection \<open>Dispatch\<close>

type_synonym ('c, 'w) code =
  "'c \<Rightarrow> event \<Rightarrow> 'c bus \<times> 'w \<Rightarrow> cpp_result outcome \<times> 'c bus \<times> 'w"

fun invoke :: "('c, 'w) code \<Rightarrow> 'c callback \<Rightarrow> event \<Rightarrow> 'c bus \<times> 'w \<Rightarrow> unit outcome \<times> 'c bus \<times> 'w" where
  "invoke code (VoidCallback c) e s =
     (case code c e s of (r, s') \<Rightarrow> (map_sum id (\<lambda>_. ()) r, s'))"
| "invoke code (ResultCallback name c) e s =
     (case code c e s of
        (Inl x, s') \<Rightarrow> (Inl x, s')
      | (Inr r, (b', w')) \<Rightarrow>
          (Inr (), if isOk r then b'
                   else bus_write LWarning (''Result callback returned non-SUCCESS for event '' @ name) b',
           w'))"

text \<open>
  One callback after the other over the copied vector, \<open>i\<close> being the loop index. An
  exception is logged and the loop goes on.
\<close>

fun run_callbacks :: "('c, 'w) code \<Rightarrow> event \<Rightarrow> nat \<Rightarrow> 'c callback list \<Rightarrow> 'c bus \<times> 'w \<Rightarrow> 'c bus \<times> 'w" where
  "run_callbacks code e i [] s = s"
| "run_callbacks code e i (cb # cbs) s =
     (case invoke code cb e s of (r, (b, w)) \<Rightarrow>
        run_callbacks code e (Suc i) cbs
          ((case r of
              Inr _ \<Rightarrow> b
            | Inl (StdException m) \<Rightarrow>
                bus_write LError (''In listener '' @ nat_to_string (i + 1) @ '' for event '' @ ev_name e @ '': '' @ m) b
            | Inl _ \<Rightarrow>
                bus_write LError (''UNKNOWN ERROR in listener '' @ nat_to_string (i + 1) @ '' for event '' @ ev_name e) b),
           w))"

definition dispatch_event :: "('c, 'w) code \<Rightarrow> event \<Rightarrow> 'c bus \<times> 'w \<Rightarrow> 'c bus \<times> 'w" where
  "dispatch_event code e s =
     (let b = fst s in
      case bus_listeners b (ev_name e) of
        None \<Rightarrow> (bus_write LWarning (''No listeners for event: '' @ ev_name e) b, snd s)
      | Some ls \<Rightarrow>
          run_callbacks code e 0 (map l_cb ls)
            (bus_write LInfo (''Processing event: '' @ ev_name e @ '' ('' @ nat_to_string (length ls) @ '' listener(s))'') b,
             snd s))"

fun dispatch_events :: "('c, 'w) code \<Rightarrow> event list \<Rightarrow> 'c bus \<times> 'w \<Rightarrow> 'c bus \<times> 'w" where
  "dispatch_events code [] s = s"
| "dispatch_events code (e # es) s = dispatch_events code es (dispatch_event code e s)"

definition bus_dispatchPending :: "('c, 'w) code \<Rightarrow> 'c bus \<times> 'w \<Rightarrow> 'c bus \<times> 'w" where
  "bus_dispatchPending code s =
     (let b = fst s in
      if bus_down b then (bus_write LInfo ''Dispatch skipped (shutting down)'' b, snd s)
      else dispatch_events code (bus_queue b) (b\<lparr>bus_queue := []\<rparr>, snd s))"


section \<open>Lemmas\<close>

subsection \<open>What each operation changes\<close>

lemma bus_write_sel [simp]:
  "bus_listeners (bus_write l m b) = bus_listeners b" "bus_queue (bus_write l m b) = bus_queue b"
  "bus_next_id (bus_write l m b) = bus_next_id b" "bus_down (bus_write l m b) = bus_down b"
  by (simp_all add: bus_write_def)

lemma listeners_of_write [simp]: "listeners_of (bus_write l m b) n = listeners_of b n"
  by (simp add: listeners_of_def)

lemma subscribe_sel [bus_simps]:
  "fst (bus_subscribe_cb n cb b) = (if bus_down b then -1 else bus_next_id b)"
  "bus_queue (snd (bus_subscribe_cb n cb b)) = bus_queue b"
  "bus_down (snd (bus_subscribe_cb n cb b)) = bus_down b"
  "bus_next_id (snd (bus_subscribe_cb n cb b)) = (if bus_down b then bus_next_id b else bus_next_id b + 1)"
  "bus_listeners (snd (bus_subscribe_cb n cb b)) =
     (if bus_down b then bus_listeners b
      else (bus_listeners b)(n \<mapsto> listeners_of b n @ [\<lparr>l_id = bus_next_id b, l_cb = cb\<rparr>]))"
  by (simp_all add: bus_subscribe_cb_def Let_def)

lemma unsubscribe_sel [bus_simps]:
  "bus_queue (bus_unsubscribe n i b) = bus_queue b"
  "bus_down (bus_unsubscribe n i b) = bus_down b"
  "bus_next_id (bus_unsubscribe n i b) = bus_next_id b"
  "bus_listeners (bus_unsubscribe n i b) =
     (case bus_listeners b n of None \<Rightarrow> bus_listeners b
      | Some ls \<Rightarrow> (bus_listeners b)(n := if filter (\<lambda>l. l_id l \<noteq> i) ls = [] then None
                                        else Some (filter (\<lambda>l. l_id l \<noteq> i) ls)))"
  by (simp_all add: bus_unsubscribe_def Let_def split: option.split)

lemma publish_sel [bus_simps]:
  "bus_listeners (bus_publish e b) = bus_listeners b"
  "bus_queue (bus_publish e b) = (if bus_down b then bus_queue b else bus_queue b @ [e])"
  "bus_down (bus_publish e b) = bus_down b"
  "bus_next_id (bus_publish e b) = bus_next_id b"
  by (simp_all add: bus_publish_def)

lemma shutdown_sel [bus_simps]:
  "bus_listeners (bus_shutdown b) = Map.empty" "bus_queue (bus_shutdown b) = []"
  "bus_down (bus_shutdown b) = True" "bus_next_id (bus_shutdown b) = bus_next_id b"
  by (simp_all add: bus_shutdown_def)

lemma unsubscribe_listeners_of:
  "listeners_of (bus_unsubscribe n i b) m =
     (if m = n then filter (\<lambda>l. l_id l \<noteq> i) (listeners_of b n) else listeners_of b m)"
  by (auto simp: listeners_of_def unsubscribe_sel split: option.split)

subsection \<open>The publishing side as an interface\<close>

text \<open>
  What a component that only publishes relies on: an active sink appends the event at the
  end of its queue, an inactive one drops it, and publishing never changes which it is.
\<close>

locale event_sink =
  fixes publish :: "event \<Rightarrow> 'b \<Rightarrow> 'b" and pending :: "'b \<Rightarrow> event list" and active :: "'b \<Rightarrow> bool"
  assumes pending_publish: "active b \<Longrightarrow> pending (publish e b) = pending b @ [e]"
    and pending_inactive: "\<not> active b \<Longrightarrow> pending (publish e b) = pending b"
    and active_publish: "active (publish e b) = active b"
begin

lemma active_publishes: "active (fold publish es b) = active b"
  by (induction es arbitrary: b) (simp_all add: active_publish)

lemma pending_publishes:
  "pending (fold publish es b) = (if active b then pending b @ es else pending b)"
  by (induction es arbitrary: b)
    (simp_all add: active_publish pending_publish pending_inactive)

end

interpretation bus_sink: event_sink bus_publish bus_queue bus_isActive
  by unfold_locales (simp_all add: bus_isActive_def publish_sel)

subsection \<open>The invariant\<close>

text \<open>
  No name keeps an empty vector, ids are positive, were handed out before \<open>next_id\<close>, and no
  two live subscriptions share one; a bus that is shut down holds nothing.
\<close>

definition all_ids :: "'c bus \<Rightarrow> string \<Rightarrow> int list" where
  "all_ids b n = map l_id (listeners_of b n)"

definition bus_wf :: "'c bus \<Rightarrow> bool" where
  "bus_wf b \<longleftrightarrow>
     1 \<le> bus_next_id b \<and>
     (\<forall>n. bus_listeners b n \<noteq> Some []) \<and>
     (\<forall>n. distinct (all_ids b n)) \<and>
     (\<forall>n. \<forall>i \<in> set (all_ids b n). 1 \<le> i \<and> i < bus_next_id b) \<and>
     (\<forall>n m. n \<noteq> m \<longrightarrow> set (all_ids b n) \<inter> set (all_ids b m) = {}) \<and>
     (bus_down b \<longrightarrow> bus_queue b = [] \<and> bus_listeners b = Map.empty)"

lemma all_ids_subscribe:
  "all_ids (snd (bus_subscribe_cb n cb b)) m =
     (if m = n \<and> \<not> bus_down b then all_ids b n @ [bus_next_id b] else all_ids b m)"
  by (auto simp: all_ids_def listeners_of_def subscribe_sel)

lemma all_ids_unsubscribe:
  "all_ids (bus_unsubscribe n i b) m = (if m = n then filter (\<lambda>j. j \<noteq> i) (all_ids b n) else all_ids b m)"
  by (simp add: all_ids_def unsubscribe_listeners_of filter_map comp_def)

lemma all_ids_cong: "bus_listeners b = bus_listeners b' \<Longrightarrow> all_ids b = all_ids b'"
  by (simp add: all_ids_def listeners_of_def fun_eq_iff)

lemma bus_wf_new [simp]: "bus_wf new_bus"
  by (simp add: bus_wf_def new_bus_def all_ids_def listeners_of_def)

lemma bus_wf_write [simp]: "bus_wf (bus_write l m b) = bus_wf b"
  by (simp add: bus_wf_def all_ids_def)

lemma bus_wf_subscribe: "bus_wf b \<Longrightarrow> bus_wf (snd (bus_subscribe_cb n cb b))"
  unfolding bus_wf_def
  by (auto simp: all_ids_subscribe subscribe_sel) force+

lemma bus_wf_unsubscribe: "bus_wf b \<Longrightarrow> bus_wf (bus_unsubscribe n i b)"
  unfolding bus_wf_def
  by (auto simp: all_ids_unsubscribe unsubscribe_sel split: option.splits) blast+

lemma bus_wf_publish: "bus_wf b \<Longrightarrow> bus_wf (bus_publish e b)"
  using all_ids_cong [of "bus_publish e b" b]
  by (auto simp: bus_wf_def publish_sel)

lemma bus_wf_shutdown: "bus_wf b \<Longrightarrow> bus_wf (bus_shutdown b)"
  by (simp add: bus_wf_def shutdown_sel all_ids_def listeners_of_def)

lemma bus_wf_down: "bus_wf b \<Longrightarrow> bus_down b \<Longrightarrow> bus_queue b = [] \<and> bus_listeners b = Map.empty"
  by (simp add: bus_wf_def)

lemma bus_wf_log [simp]: "bus_wf (b\<lparr>bus_log := l\<rparr>) = bus_wf b"
  by (simp add: bus_wf_def all_ids_def listeners_of_def)

lemma bus_wf_clear: "bus_wf b \<Longrightarrow> bus_wf (b\<lparr>bus_queue := []\<rparr>)"
  by (simp add: bus_wf_def all_ids_def listeners_of_def)

lemmas bus_wf_intros =
  bus_wf_new bus_wf_subscribe bus_wf_unsubscribe bus_wf_publish bus_wf_shutdown bus_wf_clear


text \<open>Any sequence of calls of the public methods, other than dispatching.\<close>

datatype 'c bus_op =
    OpSubscribe string 'c | OpSubscribeResult string 'c | OpUnsubscribe string int
  | OpPublish event | OpShutdown

fun bus_do :: "'c bus_op \<Rightarrow> 'c bus \<Rightarrow> 'c bus" where
  "bus_do (OpSubscribe n c) b = snd (bus_subscribe n c b)"
| "bus_do (OpSubscribeResult n c) b = snd (bus_subscribe_result n c b)"
| "bus_do (OpUnsubscribe n i) b = bus_unsubscribe n i b"
| "bus_do (OpPublish e) b = bus_publish e b"
| "bus_do OpShutdown b = bus_shutdown b"

lemma bus_wf_do: "bus_wf b \<Longrightarrow> bus_wf (bus_do op b)"
  by (cases op) (simp_all add: bus_wf_intros bus_subscribe_def bus_subscribe_result_def)

lemma bus_wf_do_all: "bus_wf b \<Longrightarrow> bus_wf (fold bus_do ops b)"
  by (induction ops arbitrary: b) (simp_all add: bus_wf_do)

lemma bus_do_down: "bus_down b \<Longrightarrow> bus_down (bus_do op b)"
  by (cases op)
    (simp_all add: bus_subscribe_def bus_subscribe_result_def bus_simps)

lemma bus_do_all_down: "bus_down b \<Longrightarrow> bus_down (fold bus_do ops b)"
  by (induction ops arbitrary: b) (simp_all add: bus_do_down)

subsection \<open>Dispatch\<close>

fun code_of :: "'c callback \<Rightarrow> 'c" where
  "code_of (VoidCallback c) = c"
| "code_of (ResultCallback n c) = c"

lemma invoke_wf:
  assumes "\<And>c e b w. bus_wf b \<Longrightarrow> bus_wf (fst (snd (code c e (b, w))))" and "bus_wf b"
  shows "bus_wf (fst (snd (invoke code cb e (b, w))))"
proof (cases cb)
  case (VoidCallback c)
  with assms(1) [of b c e w] assms(2) show ?thesis by (simp add: case_prod_unfold)
next
  case (ResultCallback n c)
  with assms(1) [of b c e w] assms(2) show ?thesis by (auto split: prod.splits sum.splits)
qed

lemma run_callbacks_wf:
  assumes "\<And>c e b w. bus_wf b \<Longrightarrow> bus_wf (fst (snd (code c e (b, w))))"
  shows "bus_wf (fst s) \<Longrightarrow> bus_wf (fst (run_callbacks code e i cbs s))"
proof (induction cbs arbitrary: i s)
  case (Cons cb cbs)
  obtain r b w where inv: "invoke code cb e s = (r, b, w)" by (cases "invoke code cb e s") auto
  from invoke_wf [of code "fst s" cb e "snd s"] assms Cons.prems inv have "bus_wf b" by simp
  with inv show ?case by (auto intro!: Cons.IH split: sum.split exn.split)
qed simp

lemma dispatch_event_wf:
  assumes "\<And>c e b w. bus_wf b \<Longrightarrow> bus_wf (fst (snd (code c e (b, w))))"
  shows "bus_wf (fst s) \<Longrightarrow> bus_wf (fst (dispatch_event code e s))"
  by (auto simp: dispatch_event_def Let_def assms intro!: run_callbacks_wf split: option.split)

lemma dispatch_events_wf:
  assumes "\<And>c e b w. bus_wf b \<Longrightarrow> bus_wf (fst (snd (code c e (b, w))))"
  shows "bus_wf (fst s) \<Longrightarrow> bus_wf (fst (dispatch_events code es s))"
  by (induction es arbitrary: s) (simp_all add: dispatch_event_wf assms)

lemma dispatchPending_wf:
  assumes "\<And>c e b w. bus_wf b \<Longrightarrow> bus_wf (fst (snd (code c e (b, w))))" and "bus_wf (fst s)"
  shows "bus_wf (fst (bus_dispatchPending code s))"
  using assms dispatch_events_wf [where code = code and s = "((fst s)\<lparr>bus_queue := []\<rparr>, snd s)", OF assms(1)]
  by (simp add: bus_dispatchPending_def Let_def bus_wf_clear)

text \<open>
  A listener's code instrumented with a trace of its calls: \<open>traced code\<close> behaves as
  \<open>code\<close> and appends the callback and the event to the trace.
\<close>

definition traced :: "('c, 'w) code \<Rightarrow> ('c, 'w \<times> ('c \<times> event) list) code" where
  "traced code c e s =
     (case code c e (fst s, fst (snd s)) of (r, b, w) \<Rightarrow> (r, b, (w, snd (snd s) @ [(c, e)])))"

lemma invoke_traced:
  "snd (snd (snd (invoke (traced code) cb e s))) = snd (snd s) @ [(code_of cb, e)]"
  by (cases cb) (auto simp: traced_def split: prod.splits sum.splits)

lemma run_callbacks_traced:
  "snd (snd (run_callbacks (traced code) e i cbs s)) = snd (snd s) @ map (\<lambda>cb. (code_of cb, e)) cbs"
proof (induction cbs arbitrary: i s)
  case (Cons cb cbs)
  obtain r b w where inv: "invoke (traced code) cb e s = (r, b, w)"
    by (cases "invoke (traced code) cb e s") auto
  with invoke_traced [of code cb e s] have "snd w = snd (snd s) @ [(code_of cb, e)]" by simp
  with inv Cons.IH show ?case by simp
qed simp

lemma dispatch_event_traced:
  "snd (snd (dispatch_event (traced code) e s)) =
     snd (snd s) @ map (\<lambda>l. (code_of (l_cb l), e)) (listeners_of (fst s) (ev_name e))"
  by (simp add: dispatch_event_def Let_def run_callbacks_traced listeners_of_def split: option.split)

text \<open>Listeners that publish the events \<open>pub c e\<close> and end with the result \<open>res c e\<close>.\<close>

definition publishing :: "('c \<Rightarrow> event \<Rightarrow> event list) \<Rightarrow> ('c \<Rightarrow> event \<Rightarrow> cpp_result outcome)
    \<Rightarrow> ('c, unit) code" where
  "publishing pub res c e s = (res c e, fold bus_publish (pub c e) (fst s), snd s)"

definition frame_eq :: "'c bus \<Rightarrow> 'c bus \<Rightarrow> bool" where
  "frame_eq b b' \<longleftrightarrow> bus_listeners b = bus_listeners b' \<and> bus_down b = bus_down b'"

lemma publishes_frame: "frame_eq (fold bus_publish es b) b"
  by (induction es arbitrary: b) (simp_all add: frame_eq_def publish_sel)

lemma invoke_publishing:
  assumes "\<not> bus_down (fst s)" and "invoke (traced (publishing pub res)) cb e s = (r, b, w)"
  shows "frame_eq b (fst s) \<and> bus_queue b = bus_queue (fst s) @ pub (code_of cb) e"
  using assms publishes_frame [of "pub (code_of cb) e" "fst s"]
    bus_sink.pending_publishes [of "pub (code_of cb) e" "fst s"]
  by (cases cb) (auto simp: traced_def publishing_def frame_eq_def bus_isActive_def
      split: sum.splits if_splits)

lemma run_callbacks_publishing_both:
  "\<not> bus_down (fst s) \<Longrightarrow>
     frame_eq (fst (run_callbacks (traced (publishing pub res)) e i cbs s)) (fst s) \<and>
     bus_queue (fst (run_callbacks (traced (publishing pub res)) e i cbs s)) =
       bus_queue (fst s) @ concat (map (\<lambda>cb. pub (code_of cb) e) cbs)"
proof (induction cbs arbitrary: i s)
  case (Cons cb cbs)
  obtain r b w where inv: "invoke (traced (publishing pub res)) cb e s = (r, b, w)"
    by (cases "invoke (traced (publishing pub res)) cb e s") auto
  note 1 = invoke_publishing [OF Cons.prems inv]
  {
    fix b' :: "'a bus"
    assume b': "frame_eq b' b" "bus_queue b' = bus_queue b"
    with 1 Cons.prems have "\<not> bus_down (fst (b', w))" by (simp add: frame_eq_def)
    from Cons.IH [OF this, of "Suc i"] 1 b'
    have "frame_eq (fst (run_callbacks (traced (publishing pub res)) e (Suc i) cbs (b', w))) (fst s) \<and>
      bus_queue (fst (run_callbacks (traced (publishing pub res)) e (Suc i) cbs (b', w))) =
        bus_queue (fst s) @ concat (map (\<lambda>cb. pub (code_of cb) e) (cb # cbs))"
      by (simp add: frame_eq_def)
  }
  note step = this
  show ?case
    unfolding run_callbacks.simps inv prod.case
    by (rule step) (auto simp: frame_eq_def split: sum.split exn.split)
qed (simp add: frame_eq_def)

lemmas run_callbacks_publishing =
  run_callbacks_publishing_both [THEN conjunct1] run_callbacks_publishing_both [THEN conjunct2]

lemma dispatch_event_publishing:
  assumes "\<not> bus_down (fst s)"
  shows "frame_eq (fst (dispatch_event (traced (publishing pub res)) e s)) (fst s)"
    and "bus_queue (fst (dispatch_event (traced (publishing pub res)) e s)) =
           bus_queue (fst s) @ concat (map (\<lambda>l. pub (code_of (l_cb l)) e) (listeners_of (fst s) (ev_name e)))"
proof -
  note r = run_callbacks_publishing [of "(bus_write l m (fst s), snd s)" for l m]
  show "frame_eq (fst (dispatch_event (traced (publishing pub res)) e s)) (fst s)"
    using assms r(1) by (auto simp: dispatch_event_def Let_def frame_eq_def split: option.split)
  show "bus_queue (fst (dispatch_event (traced (publishing pub res)) e s)) =
          bus_queue (fst s) @ concat (map (\<lambda>l. pub (code_of (l_cb l)) e) (listeners_of (fst s) (ev_name e)))"
    using assms r(2)
    by (auto simp: dispatch_event_def Let_def listeners_of_def comp_def split: option.split)
qed

definition deliveries :: "'c bus \<Rightarrow> event list \<Rightarrow> ('c \<times> event) list" where
  "deliveries b es = concat (map (\<lambda>e. map (\<lambda>l. (code_of (l_cb l), e)) (listeners_of b (ev_name e))) es)"

lemma deliveries_cong: "frame_eq b b' \<Longrightarrow> deliveries b = deliveries b'"
  by (simp add: deliveries_def listeners_of_def frame_eq_def fun_eq_iff)

lemma dispatch_events_publishing:
  assumes "\<not> bus_down (fst s)"
  shows "frame_eq (fst (dispatch_events (traced (publishing pub res)) es s)) (fst s)
     \<and> snd (snd (dispatch_events (traced (publishing pub res)) es s)) =
           snd (snd s) @ deliveries (fst s) es
     \<and> bus_queue (fst (dispatch_events (traced (publishing pub res)) es s)) =
           bus_queue (fst s) @ concat (map (\<lambda>(c, e). pub c e) (deliveries (fst s) es))"
  using assms
proof (induction es arbitrary: s)
  case (Cons e es)
  let ?t = "dispatch_event (traced (publishing pub res)) e s"
  note ev = dispatch_event_publishing [OF Cons.prems, of pub res e]
  have down: "\<not> bus_down (fst ?t)" using ev(1) Cons.prems by (simp add: frame_eq_def)
  note d = deliveries_cong [OF ev(1)]
  show ?case
    using Cons.IH [OF down] ev(1,2) dispatch_event_traced [of "publishing pub res" e s]
    by (simp add: d frame_eq_def deliveries_def comp_def)
qed (simp add: frame_eq_def deliveries_def)

lemma dispatchPending_publishing:
  assumes "\<not> bus_down b"
  shows "frame_eq (fst (bus_dispatchPending (traced (publishing pub res)) (b, w))) b
     \<and> snd (snd (bus_dispatchPending (traced (publishing pub res)) (b, w))) =
           snd w @ deliveries b (bus_queue b)
     \<and> bus_queue (fst (bus_dispatchPending (traced (publishing pub res)) (b, w))) =
           concat (map (\<lambda>(c, e). pub c e) (deliveries b (bus_queue b)))"
proof -
  have "frame_eq (b\<lparr>bus_queue := []\<rparr>) b" by (simp add: frame_eq_def)
  from deliveries_cong [OF this]
    dispatch_events_publishing [of "(b\<lparr>bus_queue := []\<rparr>, w)" pub res "bus_queue b"] assms
  show ?thesis by (simp add: bus_dispatchPending_def Let_def frame_eq_def)
qed

section \<open>Properties\<close>

text \<open>
  Listeners that are themselves programs over the bus: when called they carry out the public
  operations \<open>script c e\<close>, subscribing, unsubscribing or shutting down in the middle of a
  dispatch, and end with \<open>res c e\<close>.
\<close>

definition scripted :: "('c \<Rightarrow> event \<Rightarrow> 'c bus_op list) \<Rightarrow> ('c \<Rightarrow> event \<Rightarrow> cpp_result outcome)
    \<Rightarrow> ('c, 'w) code" where
  "scripted script res c e s = (res c e, fold bus_do (script c e) (fst s), snd s)"

datatype 'c bus_call = Call "'c bus_op" | Dispatch

fun bus_run_call :: "('c, 'w) code \<Rightarrow> 'c bus_call \<Rightarrow> 'c bus \<times> 'w \<Rightarrow> 'c bus \<times> 'w" where
  "bus_run_call code (Call op) s = (bus_do op (fst s), snd s)"
| "bus_run_call code Dispatch s = bus_dispatchPending code s"

lemma bus_run_call_wf:
  "bus_wf (fst s) \<Longrightarrow> bus_wf (fst (bus_run_call (scripted script res) call s))"
  by (cases call) (simp_all add: bus_wf_do dispatchPending_wf scripted_def bus_wf_do_all)

lemma bus_run_calls_wf:
  "bus_wf (fst s) \<Longrightarrow> bus_wf (fst (fold (bus_run_call (scripted script res)) calls s))"
  by (induction calls arbitrary: s) (simp_all add: bus_run_call_wf)

text \<open>
  C14: any sequence of calls of the bus, dispatches included and with listeners that call back
  into the bus while they run, keeps the invariant: subscription ids are positive, below the
  next id and unique over all event names, no event name keeps an empty vector of listeners,
  and a bus that was shut down has neither listeners nor queued events.
\<close>

theorem bus_operations_keep_invariant:
  "bus_wf (fst (fold (bus_run_call (scripted script res)) calls (new_bus, w)))"
  by (rule bus_run_calls_wf) simp

text \<open>
  C1: \<open>dispatchPending\<close> on an active bus delivers every queued event, in the order of
  publication, to every listener of its name, in the order of subscription, whether or not
  the listeners throw or return a failed result; what they publish meanwhile is queued in the
  order it was published and waits for the next call.
\<close>

theorem dispatch_delivers_in_order_and_defers:
  assumes "\<not> bus_down b"
  shows "case bus_dispatchPending (traced (publishing pub res)) (b, ((), [])) of
     (b', (_, tr)) \<Rightarrow>
       tr = concat (map (\<lambda>e. map (\<lambda>l. (code_of (l_cb l), e)) (listeners_of b (ev_name e))) (bus_queue b)) \<and>
       bus_queue b' = concat (map (\<lambda>(c, e). pub c e) tr) \<and>
       bus_listeners b' = bus_listeners b"
  using dispatchPending_publishing [OF assms, of pub res "((), [])"]
  by (auto simp: frame_eq_def deliveries_def split: prod.split)

definition demo_bus :: "nat bus" where
  "demo_bus = bus_publish \<lparr>ev_name = ''b'', ev_data = AnyEmpty\<rparr>
     (bus_publish \<lparr>ev_name = ''a'', ev_data = AnyEmpty\<rparr>
     (snd (bus_subscribe_result ''a'' 2 (snd (bus_subscribe ''a'' 1 new_bus)))))"

lemma demo_bus_up: "\<not> bus_down demo_bus"
  by (simp add: demo_bus_def bus_subscribe_def bus_subscribe_result_def bus_simps new_bus_def)

lemma dispatch_delivers_in_order_and_defers_witness:
  "\<not> bus_down demo_bus \<and>
   (case bus_dispatchPending (traced (publishing (\<lambda>c e. [e]) (\<lambda>c e. Inl OtherException)))
        (demo_bus, ((), [])) of
     (b', (_, tr)) \<Rightarrow>
       tr = concat (map (\<lambda>e. map (\<lambda>l. (code_of (l_cb l), e)) (listeners_of demo_bus (ev_name e))) (bus_queue demo_bus)) \<and>
       bus_queue b' = concat (map (\<lambda>(c, e). [e]) tr) \<and>
       bus_listeners b' = bus_listeners demo_bus)"
  using dispatch_delivers_in_order_and_defers [OF demo_bus_up, of "\<lambda>c e. [e]" "\<lambda>c e. Inl OtherException"]
    demo_bus_up by blast

text \<open>
  C39: the callbacks of an event are copied before the first of them runs. Whatever they do to
  the bus (unsubscribe each other, subscribe, shut the bus down) and whatever they throw, the
  listeners called for the event are exactly those subscribed when its processing began.
\<close>

theorem dispatch_uses_a_snapshot:
  "snd (snd (dispatch_event (traced code) e (b, (w, [])))) =
     map (\<lambda>l. (code_of (l_cb l), e)) (listeners_of b (ev_name e))"
  by (simp add: dispatch_event_traced)

text \<open>
  A shutdown is final. Whatever is called on the bus afterwards, it stays shut down with
  an empty queue and no listeners, \<open>isActive\<close> is false, \<open>subscribe\<close> returns -1 and a dispatch calls nobody.
\<close>

theorem shutdown_is_final:
  "let b = fold bus_do later (bus_shutdown (fold bus_do earlier new_bus))
   in \<not> bus_isActive b \<and> bus_queue b = [] \<and> bus_listeners b = Map.empty \<and>
      fst (bus_subscribe n c b) = -1 \<and>
      snd (snd (bus_dispatchPending (traced code) (b, (w, [])))) = []"
proof -
  let ?b = "fold bus_do later (bus_shutdown (fold bus_do earlier new_bus))"
  have "bus_down ?b" by (simp add: bus_do_all_down shutdown_sel)
  moreover have "bus_wf ?b" by (simp add: bus_wf_do_all bus_wf_intros)
  ultimately show ?thesis
    by (simp add: bus_isActive_def bus_wf_down bus_subscribe_def subscribe_sel
        bus_dispatchPending_def Let_def)
qed

end
