(* ===== verification/Bus_Threads.thy ===== *)
theory Bus_Threads
  imports Event_Bus
begin

text \<open>
  \<open>EventBus::dispatchPending\<close> (src/event/EventBus.cpp) as other threads see it. The mutex is
  taken for the swap of the queue and once per event for the copy of its callbacks, and it is
  free in between, so publishers, subscribers and a shutdown of other threads (or of the
  listeners themselves) interleave with the dispatching thread at every point. The dispatcher
  is a small state machine; one step is one critical section or one callback.
\<close>

datatype 'c dispatcher =
    Idle
  | Draining "event list"
  | Calling event "'c callback list" "event list"

record 'c bus_sys =
  sys_bus :: "'c bus"
  sys_disp :: "'c dispatcher"

datatype 'c act =
    Accepted event | Rejected event | Dropped "event list" | Listening
  | Started | Processed event | Delivered 'c event | Internal

fun in_flight :: "'c dispatcher \<Rightarrow> event list" where
  "in_flight Idle = []"
| "in_flight (Draining es) = es"
| "in_flight (Calling e cbs es) = es"

definition init_sys :: "'c bus_sys" where
  "init_sys = \<lparr>sys_bus = new_bus, sys_disp = Idle\<rparr>"

text \<open>
  \<open>Processed e\<close> marks the critical section that looks \<open>e\<close> up and copies its callbacks;
  \<open>Delivered c e\<close> one callback running. A thrown exception only adds a line to the log,
  which is why the bus after a callback is any bus with the same fields apart from the log:
  \<open>logs b b'\<close>.
\<close>

definition same_but_log :: "'c bus \<Rightarrow> 'c bus \<Rightarrow> bool" where
  "same_but_log b b' \<longleftrightarrow> (\<exists>l. b' = b\<lparr>bus_log := l\<rparr>)"

inductive bus_step :: "'c bus_sys \<Rightarrow> 'c act \<Rightarrow> 'c bus_sys \<Rightarrow> bool" where
  publish: "\<not> bus_down (sys_bus s) \<Longrightarrow>
     bus_step s (Accepted e) (s\<lparr>sys_bus := bus_publish e (sys_bus s)\<rparr>)"
| reject: "bus_down (sys_bus s) \<Longrightarrow>
     bus_step s (Rejected e) (s\<lparr>sys_bus := bus_publish e (sys_bus s)\<rparr>)"
| shutdown: "bus_step s (Dropped (bus_queue (sys_bus s))) (s\<lparr>sys_bus := bus_shutdown (sys_bus s)\<rparr>)"
| subscribe: "bus_step s Listening (s\<lparr>sys_bus := snd (bus_subscribe_cb n cb (sys_bus s))\<rparr>)"
| unsubscribe: "bus_step s Listening (s\<lparr>sys_bus := bus_unsubscribe n i (sys_bus s)\<rparr>)"
| skip: "sys_disp s = Idle \<Longrightarrow> bus_down (sys_bus s) \<Longrightarrow>
     bus_step s Internal (s\<lparr>sys_bus := bus_write LInfo ''Dispatch skipped (shutting down)'' (sys_bus s)\<rparr>)"
| swap: "sys_disp s = Idle \<Longrightarrow> \<not> bus_down (sys_bus s) \<Longrightarrow>
     bus_step s Started (s\<lparr>sys_bus := (sys_bus s)\<lparr>bus_queue := []\<rparr>,
                          sys_disp := Draining (bus_queue (sys_bus s))\<rparr>)"
| lookup_none: "sys_disp s = Draining (e # es) \<Longrightarrow> bus_listeners (sys_bus s) (ev_name e) = None \<Longrightarrow>
     same_but_log (sys_bus s) b \<Longrightarrow>
     bus_step s (Processed e) (s\<lparr>sys_bus := b, sys_disp := Draining es\<rparr>)"
| lookup_some: "sys_disp s = Draining (e # es) \<Longrightarrow> bus_listeners (sys_bus s) (ev_name e) = Some ls \<Longrightarrow>
     same_but_log (sys_bus s) b \<Longrightarrow>
     bus_step s (Processed e) (s\<lparr>sys_bus := b, sys_disp := Calling e (map l_cb ls) es\<rparr>)"
| call: "sys_disp s = Calling e (cb # cbs) es \<Longrightarrow> same_but_log (sys_bus s) b \<Longrightarrow>
     bus_step s (Delivered (code_of cb) e) (s\<lparr>sys_bus := b, sys_disp := Calling e cbs es\<rparr>)"
| next_event: "sys_disp s = Calling e [] es \<Longrightarrow> bus_step s Internal (s\<lparr>sys_disp := Draining es\<rparr>)"
| finish: "sys_disp s = Draining [] \<Longrightarrow> bus_step s Internal (s\<lparr>sys_disp := Idle\<rparr>)"

inductive bus_run :: "'c bus_sys \<Rightarrow> 'c act list \<Rightarrow> 'c bus_sys \<Rightarrow> bool" where
  bus_run_nil: "bus_run s [] s"
| bus_run_snoc: "bus_run s tr t \<Longrightarrow> bus_step t a u \<Longrightarrow> bus_run s (tr @ [a]) u"

inductive_cases bus_step_accepted: "bus_step s (Accepted e) t"
inductive_cases bus_step_delivered: "bus_step s (Delivered c e) t"
inductive_cases bus_step_dropped: "bus_step s (Dropped es) t"

fun accepted :: "'c act list \<Rightarrow> event list" where
  "accepted [] = []"
| "accepted (Accepted e # tr) = e # accepted tr"
| "accepted (_ # tr) = accepted tr"

fun processed :: "'c act list \<Rightarrow> event list" where
  "processed [] = []"
| "processed (Processed e # tr) = e # processed tr"
| "processed (_ # tr) = processed tr"

fun dropped :: "'c act list \<Rightarrow> event list" where
  "dropped [] = []"
| "dropped (Dropped es # tr) = es @ dropped tr"
| "dropped (_ # tr) = dropped tr"

lemma accepted_append [simp]: "accepted (tr @ tr') = accepted tr @ accepted tr'"
  by (induction tr rule: accepted.induct) simp_all

lemma processed_append [simp]: "processed (tr @ tr') = processed tr @ processed tr'"
  by (induction tr rule: processed.induct) simp_all

lemma dropped_append [simp]: "dropped (tr @ tr') = dropped tr @ dropped tr'"
  by (induction tr rule: dropped.induct) simp_all

text \<open>
  The inductive invariant: what was accepted is, in this order, what was processed, what the
  dispatcher holds, what is queued and what a shutdown dropped; and nothing is queued or was
  dropped on the wrong side of the shutdown.
\<close>

definition bus_sys_inv :: "'c act list \<Rightarrow> 'c bus_sys \<Rightarrow> bool" where
  "bus_sys_inv tr s \<longleftrightarrow>
     accepted tr = processed tr @ in_flight (sys_disp s) @ bus_queue (sys_bus s) @ dropped tr \<and>
     (\<not> bus_down (sys_bus s) \<longrightarrow> dropped tr = []) \<and>
     bus_wf (sys_bus s)"

lemma same_but_log_sel:
  "same_but_log b b' \<Longrightarrow> bus_queue b' = bus_queue b \<and> bus_down b' = bus_down b
     \<and> bus_listeners b' = bus_listeners b \<and> (bus_wf b' = bus_wf b)"
  by (auto simp: same_but_log_def)

lemma bus_step_inv: "bus_step s a t \<Longrightarrow> bus_sys_inv tr s \<Longrightarrow> bus_sys_inv (tr @ [a]) t"
proof (induction rule: bus_step.induct)
  case (publish s e)
  then show ?case by (auto simp: bus_sys_inv_def publish_sel bus_wf_publish)
next
  case (reject s e)
  then show ?case by (auto simp: bus_sys_inv_def publish_sel bus_wf_publish)
next
  case (shutdown s)
  then show ?case
    by (cases "bus_down (sys_bus s)")
      (auto simp: bus_sys_inv_def shutdown_sel bus_wf_shutdown dest: bus_wf_down)
next
  case (subscribe s n cb)
  then show ?case by (auto simp: bus_sys_inv_def subscribe_sel bus_wf_subscribe)
next
  case (unsubscribe s n i)
  then show ?case by (auto simp: bus_sys_inv_def unsubscribe_sel bus_wf_unsubscribe)
next
  case (swap s)
  then show ?case by (auto simp: bus_sys_inv_def bus_wf_clear)
qed (auto simp: bus_sys_inv_def dest!: same_but_log_sel)

lemma bus_run_inv: "bus_run init_sys tr s \<Longrightarrow> bus_sys_inv tr s"
proof (induction "init_sys :: 'a bus_sys" tr s rule: bus_run.induct)
  case bus_run_nil
  then show ?case by (simp add: bus_sys_inv_def init_sys_def new_bus_def bus_wf_new [unfolded new_bus_def])
qed (rule bus_step_inv)

text \<open>After a shutdown the only callbacks still to run are those already copied.\<close>

lemma bus_run_down:
  "bus_run s tr t \<Longrightarrow> bus_wf (sys_bus s) \<Longrightarrow> bus_down (sys_bus s) \<Longrightarrow>
     bus_wf (sys_bus t) \<and> bus_down (sys_bus t) \<and> accepted tr = []"
proof (induction rule: bus_run.induct)
  case (bus_run_snoc s tr t a u)
  then have "bus_wf (sys_bus t)" "bus_down (sys_bus t)" "accepted tr = []" by simp_all
  with bus_run_snoc.hyps(2) show ?case
    by (cases rule: bus_step.cases)
      (auto simp: bus_simps bus_wf_intros dest!: same_but_log_sel)
qed simp

fun delivered :: "'c act list \<Rightarrow> ('c \<times> event) list" where
  "delivered [] = []"
| "delivered (Delivered c e # tr) = (c, e) # delivered tr"
| "delivered (_ # tr) = delivered tr"

lemma delivered_append [simp]: "delivered (tr @ tr') = delivered tr @ delivered tr'"
  by (induction tr rule: delivered.induct) simp_all

fun copied_calls :: "'c dispatcher \<Rightarrow> ('c \<times> event) list" where
  "copied_calls (Calling e cbs es) = map (\<lambda>cb. (code_of cb, e)) cbs"
| "copied_calls _ = []"

lemma bus_run_down_calls:
  "bus_run s tr t \<Longrightarrow> bus_wf (sys_bus s) \<Longrightarrow> bus_down (sys_bus s) \<Longrightarrow>
     delivered tr @ copied_calls (sys_disp t) = copied_calls (sys_disp s)"
proof (induction rule: bus_run.induct)
  case (bus_run_snoc s tr t a u)
  then have IH: "delivered tr @ copied_calls (sys_disp t) = copied_calls (sys_disp s)" by simp
  from bus_run_down [OF bus_run_snoc.hyps(1) bus_run_snoc.prems]
  have "bus_down (sys_bus t)" "bus_listeners (sys_bus t) = Map.empty" by (simp_all add: bus_wf_down)
  with bus_run_snoc.hyps(2) IH show ?case
    by (cases rule: bus_step.cases) auto
qed simp

section \<open>Properties\<close>

text \<open>
  C3: under every interleaving of publishers, subscribers, a shutdown and the dispatching
  thread, the events the bus accepted are, in this order, those already processed, those the
  dispatcher holds, those still queued and those a shutdown discarded. No accepted event is
  lost, duplicated or overtaken, and without a shutdown none is discarded.
\<close>

theorem accepted_events_are_conserved_in_order:
  assumes "bus_run init_sys tr s"
  shows "accepted tr = processed tr @ in_flight (sys_disp s) @ bus_queue (sys_bus s) @ dropped tr \<and>
    (\<not> bus_down (sys_bus s) \<longrightarrow> dropped tr = [])"
  using bus_run_inv [OF assms] by (simp add: bus_sys_inv_def)

definition demo_event :: event where "demo_event = \<lparr>ev_name = ''a'', ev_data = AnyEmpty\<rparr>"

definition demo_sys :: "nat bus_sys" where
  "demo_sys = init_sys\<lparr>sys_bus := bus_publish demo_event (sys_bus init_sys)\<rparr>"

lemma demo_run: "bus_run init_sys [Accepted demo_event] demo_sys"
  using bus_run_snoc [OF bus_run_nil bus_step.publish [of init_sys demo_event]]
  by (simp add: demo_sys_def init_sys_def new_bus_def)

lemma accepted_events_are_conserved_in_order_witness:
  "bus_run init_sys [Accepted demo_event] demo_sys \<and>
   accepted [Accepted demo_event :: nat act] = bus_queue (sys_bus demo_sys)"
  using accepted_events_are_conserved_in_order [OF demo_run] demo_run
  by (simp add: demo_sys_def init_sys_def)

text \<open>
  C26: once a shutdown step has happened no thread gets an event accepted any more, and the
  only callbacks that still run are those the dispatcher had copied for the event it was
  processing, in their order: no event that was waiting is delivered.
\<close>

theorem shutdown_stops_accepting_and_delivering:
  assumes "bus_run init_sys tr s" "bus_step s (Dropped es) t" "bus_run t tr' u"
  shows "accepted tr' = [] \<and> bus_queue (sys_bus u) = [] \<and>
    delivered tr' @ copied_calls (sys_disp u) = copied_calls (sys_disp t)"
proof -
  have "bus_wf (sys_bus s)" using bus_run_inv [OF assms(1)] by (simp add: bus_sys_inv_def)
  with assms(2) have "bus_wf (sys_bus t)" "bus_down (sys_bus t)"
    by (auto elim!: bus_step_dropped simp: bus_wf_shutdown shutdown_sel)
  from bus_run_down [OF assms(3) this] bus_run_down_calls [OF assms(3) this] show ?thesis
    by (simp add: bus_wf_down)
qed

lemma shutdown_stops_accepting_and_delivering_witness:
  "bus_run init_sys [] (init_sys :: nat bus_sys) \<and>
   bus_queue (bus_shutdown (new_bus :: nat bus)) = []"
  using shutdown_stops_accepting_and_delivering
      [OF bus_run_nil bus_step.shutdown bus_run_nil, where ?'a = nat] bus_run_nil
  by (simp add: init_sys_def)

end
