(* ===== verification/Event_Task.thy ===== *)
theory Event_Task
  imports Event_Bus
begin

text \<open>
  \<open>EventTask\<close> (src/task) and \<open>EventTrigger\<close> (src/trigger): a task that announces its
  completion on the bus, and a scoped subscription that runs a task. Lines sent to the web
  log (class \<open>WebLogger\<close>) are returned as a list of level, source and message.
\<close>

type_synonym web_line = "string \<times> string \<times> string"

section \<open>EventTask\<close>

text \<open>\<open>body\<close> is the wrapped task's \<open>execute\<close>; it may use the bus itself.\<close>

definition eventTask_execute ::
  "('c bus \<times> 'w \<Rightarrow> unit outcome \<times> 'c bus \<times> 'w) \<Rightarrow> string \<Rightarrow> 'c bus \<times> 'w \<Rightarrow> ('c bus \<times> 'w) \<times> web_line list" where
  "eventTask_execute body completion s =
     (case body s of
        (Inr _, (b, w)) \<Rightarrow> ((bus_publish \<lparr>ev_name = completion, ev_data = AnyEmpty\<rparr> b, w), [])
      | (Inl (StdException m), s') \<Rightarrow>
          (s', [(''error'', ''EventTask'', ''Task execution failed: '' @ m)])
      | (Inl _, s') \<Rightarrow>
          (s', [(''error'', ''EventTask'', ''Task execution failed with unknown error'')]))"

section \<open>EventTrigger\<close>

text \<open>
  \<open>tr_bus\<close> tells whether the bus pointer is set (there is one bus). The name of a trigger
  that was moved from is a valid but unspecified string in C++; it is never used again
  because the pointer is null, and the model leaves it empty.
\<close>

record 'c trigger =
  tr_bus :: bool
  tr_task :: "'c option"
  tr_event :: string
  tr_id :: int

definition trigger_new :: "string \<Rightarrow> 'c \<Rightarrow> 'c bus \<Rightarrow> 'c trigger \<times> 'c bus" where
  "trigger_new name task b =
     (case bus_subscribe name task b of (i, b') \<Rightarrow>
        (\<lparr>tr_bus = True, tr_task = Some task, tr_event = name, tr_id = i\<rparr>, b'))"

definition trigger_destroy :: "'c trigger \<Rightarrow> 'c bus \<Rightarrow> 'c bus" where
  "trigger_destroy t b =
     (if tr_bus t \<and> tr_id t \<noteq> -1 then bus_unsubscribe (tr_event t) (tr_id t) b else b)"

definition moved_from :: "'c trigger \<Rightarrow> 'c trigger" where
  "moved_from t = t\<lparr>tr_bus := False, tr_task := None, tr_event := [], tr_id := -1\<rparr>"

text \<open>The move constructor: the new trigger and the one moved from.\<close>

definition trigger_move :: "'c trigger \<Rightarrow> 'c trigger \<times> 'c trigger" where
  "trigger_move other =
     (\<lparr>tr_bus = tr_bus other, tr_task = tr_task other, tr_event = tr_event other, tr_id = tr_id other\<rparr>,
      moved_from other)"

text \<open>Move assignment; \<open>same\<close> is the test \<open>this == &other\<close>.\<close>

definition trigger_assign ::
  "bool \<Rightarrow> 'c trigger \<Rightarrow> 'c trigger \<Rightarrow> 'c bus \<Rightarrow> ('c trigger \<times> 'c trigger) \<times> 'c bus" where
  "trigger_assign same t other b =
     (if same then ((t, other), b)
      else ((t\<lparr>tr_bus := tr_bus other, tr_task := tr_task other, tr_event := tr_event other, tr_id := tr_id other\<rparr>,
             moved_from other),
            if tr_bus t \<and> tr_id t \<noteq> -1 then bus_unsubscribe (tr_event t) (tr_id t) b else b))"

section \<open>Lemmas\<close>

lemma fresh_id_not_listening:
  "bus_wf b \<Longrightarrow> filter (\<lambda>l. l_id l \<noteq> bus_next_id b) (listeners_of b n) = listeners_of b n"
  by (rule filter_True) (force simp: bus_wf_def all_ids_def)

lemma unsubscribe_subscribe:
  assumes "bus_wf b" "\<not> bus_down b"
  shows "bus_listeners (bus_unsubscribe n (bus_next_id b) (snd (bus_subscribe_cb n cb b))) = bus_listeners b"
proof -
  have "listeners_of b n = [] \<Longrightarrow> bus_listeners b n = None"
    using assms(1) by (auto simp: listeners_of_def bus_wf_def split: option.splits)
  moreover have "listeners_of b n \<noteq> [] \<Longrightarrow> bus_listeners b n = Some (listeners_of b n)"
    by (auto simp: listeners_of_def split: option.splits)
  ultimately show ?thesis
    using assms by (auto simp: unsubscribe_sel subscribe_sel fresh_id_not_listening fun_eq_iff)
qed

lemma trigger_new_destroy:
  assumes "bus_wf b" "trigger_new n c b = (t, b')"
  shows "bus_listeners (trigger_destroy t b') = bus_listeners b"
proof (cases "bus_down b")
  case True
  with assms(2) show ?thesis
    by (auto simp: trigger_new_def bus_subscribe_def bus_subscribe_cb_def trigger_destroy_def)
next
  case False
  have "1 \<le> bus_next_id b" using assms(1) by (simp add: bus_wf_def)
  with False assms unsubscribe_subscribe [OF assms(1) False, of n "VoidCallback c"] show ?thesis
    by (auto simp: trigger_new_def bus_subscribe_def trigger_destroy_def case_prod_unfold
        subscribe_sel(1))
qed

lemma destroy_moved_from [simp]: "trigger_destroy (moved_from t) b = b"
  by (simp add: trigger_destroy_def moved_from_def)

lemma destroy_trigger_move [simp]: "trigger_destroy (fst (trigger_move t)) b = trigger_destroy t b"
  by (simp add: trigger_destroy_def trigger_move_def)

lemma new_bus_up: "\<not> bus_down new_bus"
  by (simp add: new_bus_def)

lemma listeners_of_subscribe:
  "listeners_of (snd (bus_subscribe_cb n cb b)) m =
     (if m = n \<and> \<not> bus_down b then listeners_of b n @ [\<lparr>l_id = bus_next_id b, l_cb = cb\<rparr>] else listeners_of b m)"
  by (simp add: listeners_of_def subscribe_sel)

lemma trigger_assign_listeners:
  assumes wf: "bus_wf b" and up: "\<not> bus_down b"
    and 1: "trigger_new n1 c1 b = (t1, b1)" and 2: "trigger_new n2 c2 b1 = (t2, b2)"
    and 3: "trigger_assign False t1 t2 b2 = ((t1', t2'), b3)"
  shows "listeners_of b3 n2 = filter (\<lambda>l. l_id l \<noteq> tr_id t1) (listeners_of b2 n2) \<and>
    tr_id t2 \<in> l_id ` set (listeners_of b3 n2) \<and>
    listeners_of (trigger_destroy t1' (trigger_destroy t2' b3)) = listeners_of b"
proof -
  let ?i = "bus_next_id b"
  have i: "1 \<le> ?i" using wf by (simp add: bus_wf_def)
  have b1: "b1 = snd (bus_subscribe_cb n1 (VoidCallback c1) b)"
    and t1: "tr_bus t1" "tr_event t1 = n1" "tr_id t1 = ?i"
    using 1 up by (auto simp: trigger_new_def bus_subscribe_def case_prod_unfold subscribe_sel)
  have up1: "\<not> bus_down b1" and i1: "bus_next_id b1 = ?i + 1"
    using up by (simp_all add: b1 subscribe_sel)
  have b2: "b2 = snd (bus_subscribe_cb n2 (VoidCallback c2) b1)"
    and t2: "tr_bus t2" "tr_event t2 = n2" "tr_id t2 = ?i + 1"
    using 2 up1 i1 by (auto simp: trigger_new_def bus_subscribe_def case_prod_unfold subscribe_sel)
  have b3: "b3 = bus_unsubscribe n1 ?i b2" and t1': "tr_bus t1'" "tr_event t1' = n2" "tr_id t1' = ?i + 1"
    and t2': "\<not> tr_bus t2'"
    using 3 t1 t2 i by (auto simp: trigger_assign_def moved_from_def)
  have old: "filter (\<lambda>l. l_id l \<noteq> k) (listeners_of b m) = listeners_of b m" if "?i \<le> k" for k m
    using wf that by (intro filter_True) (force simp: bus_wf_def all_ids_def)
  have l3: "listeners_of b3 m =
      (if m = n2 then listeners_of b n2 @ [\<lparr>l_id = ?i + 1, l_cb = VoidCallback c2\<rparr>] else listeners_of b m)" for m
    using up up1 i1 old [of ?i]
    by (auto simp: b3 b2 b1 unsubscribe_listeners_of listeners_of_subscribe subscribe_sel)
  have "listeners_of (trigger_destroy t1' (trigger_destroy t2' b3)) m = listeners_of b m" for m
    using t1' t2' i old [of "?i + 1"] by (simp add: trigger_destroy_def unsubscribe_listeners_of l3)
  moreover have "listeners_of b3 n2 = filter (\<lambda>l. l_id l \<noteq> ?i) (listeners_of b2 n2)"
    using old [of ?i] up up1 i1 by (auto simp: l3 b2 b1 listeners_of_subscribe subscribe_sel)
  moreover have "tr_id t2 \<in> l_id ` set (listeners_of b3 n2)" by (simp add: l3 t2(3))
  ultimately show ?thesis using t1(3) by (simp add: fun_eq_iff)
qed

section \<open>Properties\<close>



end
