(* ===== verification/Scheduling.thy ===== *)
theory Scheduling
  imports NexusPrelude
begin

text \<open>
  \<open>Scheduler\<close> (src/scheduler, includes/scheduler): cron-driven tasks. The cron library is
  third-party code: \<open>make_cron\<close> parses an expression (\<open>None\<close> for \<open>bad_cronexpr\<close>) and
  \<open>cron_next c t\<close> is its next match after \<open>t\<close>. The clock reading \<open>now\<close> and the code \<open>exec\<close>
  of a task, which may throw, are arguments as well. Tasks have no access to the scheduler.
\<close>

record ('t, 'k) scheduled =
  st_task :: 't
  st_cron :: 'k
  st_next :: int

definition scheduled_new :: "('k \<Rightarrow> int \<Rightarrow> int) \<Rightarrow> int \<Rightarrow> 't \<Rightarrow> 'k \<Rightarrow> ('t, 'k) scheduled" where
  "scheduled_new cron_next now t c = \<lparr>st_task = t, st_cron = c, st_next = cron_next c now\<rparr>"

definition scheduleTask ::
  "(string \<Rightarrow> 'k option) \<Rightarrow> ('k \<Rightarrow> int \<Rightarrow> int) \<Rightarrow> int \<Rightarrow> 't \<Rightarrow> string
   \<Rightarrow> ('t, 'k) scheduled list \<Rightarrow> bool \<times> ('t, 'k) scheduled list" where
  "scheduleTask make_cron cron_next now task expr tasks =
     (case make_cron expr of
        None \<Rightarrow> (False, tasks)
      | Some c \<Rightarrow> (True, tasks @ [scheduled_new cron_next now task c]))"

text \<open>An exception leaves the loop: the rest of the vector is not visited.\<close>

fun scheduler_tick ::
  "('t \<Rightarrow> 'w \<Rightarrow> unit outcome \<times> 'w) \<Rightarrow> ('k \<Rightarrow> int \<Rightarrow> int) \<Rightarrow> int
   \<Rightarrow> ('t, 'k) scheduled list \<Rightarrow> 'w \<Rightarrow> unit outcome \<times> ('t, 'k) scheduled list \<times> 'w" where
  "scheduler_tick exec cron_next now [] w = (Inr (), [], w)"
| "scheduler_tick exec cron_next now (st # sts) w =
     (if st_next st \<le> now
      then case exec (st_task st) w of
             (Inl e, w') \<Rightarrow> (Inl e, st # sts, w')
           | (Inr _, w') \<Rightarrow>
               (case scheduler_tick exec cron_next now sts w' of (r, sts', w'') \<Rightarrow>
                  (r, st\<lparr>st_next := cron_next (st_cron st) now\<rparr> # sts', w''))
      else case scheduler_tick exec cron_next now sts w of (r, sts', w') \<Rightarrow> (r, st # sts', w'))"

section \<open>Lemmas\<close>

definition due :: "int \<Rightarrow> ('t, 'k) scheduled \<Rightarrow> bool" where
  "due now st \<longleftrightarrow> st_next st \<le> now"

definition rescheduled :: "('k \<Rightarrow> int \<Rightarrow> int) \<Rightarrow> int \<Rightarrow> ('t, 'k) scheduled \<Rightarrow> ('t, 'k) scheduled" where
  "rescheduled cron_next now st =
     (if due now st then st\<lparr>st_next := cron_next (st_cron st) now\<rparr> else st)"

text \<open>Tasks that record that they ran and fail when \<open>bad\<close> says so.\<close>

definition recording :: "('t \<Rightarrow> exn option) \<Rightarrow> 't \<Rightarrow> 't list \<Rightarrow> unit outcome \<times> 't list" where
  "recording bad t w = ((case bad t of None \<Rightarrow> Inr () | Some e \<Rightarrow> Inl e), w @ [t])"

lemma tick_no_failure:
  "(\<And>st. st \<in> set sts \<Longrightarrow> due now st \<Longrightarrow> bad (st_task st) = None) \<Longrightarrow>
     scheduler_tick (recording bad) cron_next now sts w =
       (Inr (), map (rescheduled cron_next now) sts, w @ map st_task (filter (due now) sts))"
  by (induction sts arbitrary: w) (auto simp: recording_def rescheduled_def due_def)

text \<open>A vector splits at its first due task that fails.\<close>

lemma tick_failure:
  assumes "\<And>st. st \<in> set pre \<Longrightarrow> due now st \<Longrightarrow> bad (st_task st) = None"
    and "due now st" and "bad (st_task st) = Some e"
  shows "scheduler_tick (recording bad) cron_next now (pre @ st # post) w =
       (Inl e, map (rescheduled cron_next now) pre @ st # post,
        w @ map st_task (filter (due now) pre) @ [st_task st])"
  using assms(1)
proof (induction pre arbitrary: w)
  case Nil
  with assms(2,3) show ?case by (simp add: recording_def due_def)
next
  case (Cons s pre)
  then show ?case by (auto simp: recording_def rescheduled_def due_def)
qed

lemma not_due_rescheduled:
  "(\<And>c t. t < cron_next c t) \<Longrightarrow> \<not> due now (rescheduled cron_next now st)"
  by (auto simp: rescheduled_def due_def not_le)

lemma tick_length: "length (fst (snd (scheduler_tick exec cron_next now sts w))) = length sts"
  by (induction sts arbitrary: w) (auto simp: case_prod_unfold split: sum.split)

section \<open>Properties\<close>


definition demo_next :: "nat \<Rightarrow> int \<Rightarrow> int" where "demo_next c t = t + 1 + int c"

definition demo_tasks :: "(nat, nat) scheduled list" where
  "demo_tasks = [\<lparr>st_task = 1, st_cron = 0, st_next = 5\<rparr>, \<lparr>st_task = 2, st_cron = 1, st_next = 15\<rparr>]"

lemma demo_next_later: "t < demo_next c t"
  by (simp add: demo_next_def)


text \<open>
  A task that throws ends the tick. The due tasks behind it do not run, it keeps its old
  time and so it is due again, and the exception leaves \<open>tick\<close>: as long as it fails, every
  later tick at any time stops at the same task.
\<close>

theorem failing_task_starves_later_tasks:
  assumes "\<And>c t. t < cron_next c t"
    and "\<And>s. s \<in> set pre \<Longrightarrow> bad (st_task s) = None"
    and "st_next st \<le> now" "bad (st_task st) = Some e" "now \<le> later"
  shows "\<exists>pre' w. scheduler_tick (recording bad) cron_next now (pre @ st # post) [] =
       (Inl e, pre' @ st # post, w @ [st_task st]) \<and> set w \<subseteq> st_task ` set pre \<and>
     (\<exists>pre'' w'. scheduler_tick (recording bad) cron_next later (pre' @ st # post) [] =
       (Inl e, pre'' @ st # post, w' @ [st_task st]) \<and> set w' \<subseteq> st_task ` set pre)"
proof -
  let ?r = "map (rescheduled cron_next now) pre"
  have t: "st_task (rescheduled cron_next now s) = st_task s" for s
    by (simp add: rescheduled_def)
  have 1: "scheduler_tick (recording bad) cron_next now (pre @ st # post) [] =
      (Inl e, ?r @ st # post, map st_task (filter (due now) pre) @ [st_task st])"
    using tick_failure [of pre now bad st e cron_next post "[]"] assms(2-4) by (simp add: due_def)
  have 2: "scheduler_tick (recording bad) cron_next later (?r @ st # post) [] =
      (Inl e, map (rescheduled cron_next later) ?r @ st # post,
       map st_task (filter (due later) ?r) @ [st_task st])"
  proof -
    have "bad (st_task s) = None" if "s \<in> set ?r" for s using that assms(2) by (auto simp: t)
    moreover have "due later st" using assms(3,5) by (simp add: due_def)
    ultimately show ?thesis
      using tick_failure [of ?r later bad st e cron_next post "[]"] assms(4) by simp
  qed
  have "set (map st_task (filter (due later) ?r)) \<subseteq> st_task ` set pre" by (auto simp: t)
  with 1 2 show ?thesis by fastforce
qed

definition demo_failing :: "nat \<Rightarrow> exn option" where
  "demo_failing t = (if t = 1 then Some OtherException else None)"

lemma failing_task_starves_later_tasks_witness:
  "\<exists>pre' w. scheduler_tick (recording demo_failing) demo_next 10 ([] @ hd demo_tasks # tl demo_tasks) [] =
     (Inl OtherException, pre' @ hd demo_tasks # tl demo_tasks, w @ [st_task (hd demo_tasks)])"
proof -
  have "st_next (hd demo_tasks) \<le> 10" "demo_failing (st_task (hd demo_tasks)) = Some OtherException"
    by (simp_all add: demo_tasks_def demo_failing_def)
  from failing_task_starves_later_tasks [where cron_next = demo_next and pre = "[]"
      and bad = demo_failing, OF demo_next_later _ this, of 10 "tl demo_tasks"]
  show ?thesis by auto
qed

end
