(* ===== verification/Logging.thy ===== *)
theory Logging
  imports JsonApi
begin

text \<open>
  \<open>LogBroadcaster\<close> and \<open>WebLogger\<close> (src/logging): a ring buffer of the last 500 entries that
  is streamed to WebSocket clients; a new client first gets the last 100. The frames sent are
  returned as lists of texts; \<open>fmt\<close> stands for \<open>gmtime\<close> with \<open>put_time\<close> and the time in
  milliseconds since the epoch is an argument.
\<close>

record log_entry =
  le_level :: string
  le_source :: string
  le_message :: string
  le_timestamp :: string

definition BUFFER_MAX :: nat where "BUFFER_MAX = 500"
definition BACKFILL_COUNT :: nat where "BACKFILL_COUNT = 100"

definition entryToJson :: "'j json_api \<Rightarrow> log_entry \<Rightarrow> string outcome" where
  "entryToJson J e =
     dump_exn J (j_object J
       [(''level'', j_string J (le_level e)), (''source'', j_string J (le_source e)),
        (''message'', j_string J (le_message e)), (''timestamp'', j_string J (le_timestamp e))])"

definition nowIso :: "(nat \<Rightarrow> string) \<Rightarrow> nat \<Rightarrow> string" where
  "nowIso fmt ms =
     fmt (ms div 1000) @ ''.'' @ pad_left 3 CHR ''0'' (nat_to_string (ms mod 1000)) @ ''Z''"

definition buffer_push :: "'e list \<Rightarrow> 'e \<Rightarrow> 'e list" where
  "buffer_push buf e = (if length buf \<ge> BUFFER_MAX then drop 1 buf else buf) @ [e]"

text \<open>
  \<open>log\<close>: the frame is built first, so an entry that cannot be dumped throws before the
  buffer changes. The result is the new buffer and the frame that is broadcast.
\<close>

definition broadcaster_log ::
  "'j json_api \<Rightarrow> (nat \<Rightarrow> string) \<Rightarrow> nat \<Rightarrow> string \<Rightarrow> string \<Rightarrow> string
   \<Rightarrow> log_entry list \<Rightarrow> (log_entry list \<times> string) outcome" where
  "broadcaster_log J fmt ms level source message buf =
     (let entry = \<lparr>le_level = level, le_source = source, le_message = message,
                   le_timestamp = nowIso fmt ms\<rparr>
      in bind_exn (entryToJson J entry) (\<lambda>frame. Inr (buffer_push buf entry, frame)))"

definition backfill :: "'e list \<Rightarrow> 'e list" where
  "backfill buf =
     (let start = (if length buf > BACKFILL_COUNT then length buf - BACKFILL_COUNT else 0)
      in drop start buf)"

definition onClientConnect :: "'j json_api \<Rightarrow> log_entry list \<Rightarrow> string list outcome" where
  "onClientConnect J buf = map_outcomes (entryToJson J) (backfill buf)"

text \<open>\<open>WebLogger\<close>: the four levels and \<open>emit\<close>.\<close>

definition webLogger_emit ::
  "'j json_api \<Rightarrow> (nat \<Rightarrow> string) \<Rightarrow> nat \<Rightarrow> string \<times> string \<times> string
   \<Rightarrow> log_entry list \<Rightarrow> (log_entry list \<times> string) outcome" where
  "webLogger_emit J fmt ms line buf =
     (case line of (level, source, message) \<Rightarrow> broadcaster_log J fmt ms level source message buf)"

definition webLogger_debug :: "string \<Rightarrow> string \<Rightarrow> string \<times> string \<times> string" where
  "webLogger_debug source msg = (''debug'', source, msg)"

definition webLogger_info :: "string \<Rightarrow> string \<Rightarrow> string \<times> string \<times> string" where
  "webLogger_info source msg = (''info'', source, msg)"

definition webLogger_warn :: "string \<Rightarrow> string \<Rightarrow> string \<times> string \<times> string" where
  "webLogger_warn source msg = (''warn'', source, msg)"

definition webLogger_error :: "string \<Rightarrow> string \<Rightarrow> string \<times> string \<times> string" where
  "webLogger_error source msg = (''error'', source, msg)"

section \<open>Lemmas\<close>

lemma buffer_push_suffix:
  "buffer_push (drop (length es - BUFFER_MAX) es) e = drop (length (es @ [e]) - BUFFER_MAX) (es @ [e])"
proof (cases "BUFFER_MAX \<le> length es")
  case True
  then have "Suc (length es) - BUFFER_MAX = Suc (length es - BUFFER_MAX)" by (rule Suc_diff_le)
  with True show ?thesis by (simp add: buffer_push_def BUFFER_MAX_def)
next
  case False
  then show ?thesis by (simp add: buffer_push_def BUFFER_MAX_def)
qed

lemma buffer_pushes: "foldl buffer_push [] es = drop (length es - BUFFER_MAX) es"
proof (induction es rule: rev_induct)
  case (snoc e es)
  then show ?case by (simp only: foldl_append foldl.simps buffer_push_suffix)
qed simp

lemma length_buffer_push: "length buf \<le> BUFFER_MAX \<Longrightarrow> length (buffer_push buf e) \<le> BUFFER_MAX"
  by (auto simp: buffer_push_def BUFFER_MAX_def)

lemma backfill_pushes:
  "backfill (foldl buffer_push [] es) = drop (length es - BACKFILL_COUNT) es"
  by (simp add: buffer_pushes backfill_def Let_def BUFFER_MAX_def BACKFILL_COUNT_def)

text \<open>A run of \<open>log\<close> calls, each with its own clock reading; a failing call changes nothing.\<close>

fun log_all ::
  "'j json_api \<Rightarrow> (nat \<Rightarrow> string) \<Rightarrow> (nat \<times> string \<times> string \<times> string) list \<Rightarrow> log_entry list
   \<Rightarrow> log_entry list" where
  "log_all J fmt [] buf = buf"
| "log_all J fmt ((ms, line) # ls) buf =
     log_all J fmt ls (case webLogger_emit J fmt ms line buf of Inl _ \<Rightarrow> buf | Inr (buf', _) \<Rightarrow> buf')"

definition entry_of :: "(nat \<Rightarrow> string) \<Rightarrow> nat \<times> string \<times> string \<times> string \<Rightarrow> log_entry" where
  "entry_of fmt c = (case c of (ms, level, source, message) \<Rightarrow>
     \<lparr>le_level = level, le_source = source, le_message = message, le_timestamp = nowIso fmt ms\<rparr>)"

definition dumps :: "'j json_api \<Rightarrow> log_entry \<Rightarrow> bool" where
  "dumps J e \<longleftrightarrow> (\<exists>t. entryToJson J e = Inr t)"

lemma log_all_foldl:
  "log_all J fmt ls buf = foldl buffer_push buf (filter (dumps J) (map (entry_of fmt) ls))"
proof (induction ls arbitrary: buf)
  case (Cons l ls)
  obtain ms level source message where l: "l = (ms, level, source, message)"
    by (cases l) auto
  have "webLogger_emit J fmt ms (level, source, message) buf =
      bind_exn (entryToJson J (entry_of fmt l)) (\<lambda>frame. Inr (buffer_push buf (entry_of fmt l), frame))"
    by (simp add: webLogger_emit_def broadcaster_log_def Let_def entry_of_def l)
  then show ?case
    using Cons.IH by (cases "entryToJson J (entry_of fmt l)") (simp_all add: l dumps_def)
qed simp

section \<open>Properties\<close>

text \<open>
  After any number of log calls the buffer holds the last 500 entries that could be
  written as JSON, oldest first, and a client that connects receives the last 100 of them in
  order.
\<close>

theorem buffer_is_the_last_500_and_backfill_the_last_100:
  "let written = filter (dumps J) (map (entry_of fmt) ls);
       sent = drop (length written - 100) written
   in log_all J fmt ls [] = drop (length written - 500) written \<and>
      onClientConnect J (log_all J fmt ls []) = map_outcomes (entryToJson J) sent \<and>
      (\<exists>frames. map_outcomes (entryToJson J) sent = Inr frames \<and> length frames \<le> 100)"
proof -
  define w where "w = filter (dumps J) (map (entry_of fmt) ls)"
  define e where "e = drop (length w - 100) w"
  have all: "log_all J fmt ls [] = foldl buffer_push [] w" by (simp only: log_all_foldl w_def)
  have 1: "log_all J fmt ls [] = drop (length w - 500) w"
    unfolding all buffer_pushes BUFFER_MAX_def ..
  have 2: "onClientConnect J (log_all J fmt ls []) = map_outcomes (entryToJson J) e"
    unfolding all onClientConnect_def backfill_pushes BACKFILL_COUNT_def e_def ..
  have "\<forall>x \<in> set w. dumps J x" by (simp add: w_def)
  then have "\<forall>x \<in> set e. dumps J x" by (auto simp: e_def dest: in_set_dropD)
  then have "map_outcomes (entryToJson J) e = Inr (map (\<lambda>x. projr (entryToJson J x)) e)"
    by (intro map_outcomes_Inr) (metis dumps_def sum.sel(2))
  moreover have "length (map (\<lambda>x. projr (entryToJson J x)) e) \<le> 100" by (simp add: e_def)
  ultimately have 3: "\<exists>frames. map_outcomes (entryToJson J) e = Inr frames \<and> length frames \<le> 100"
    by blast
  show ?thesis
    unfolding Let_def w_def [symmetric] e_def [symmetric] by (intro conjI 1 2 3)
qed

end
