(* ===== verification/WsCrypto.thy ===== *)
theory WsCrypto
  imports NexusPrelude
begin

text \<open>
  The SHA-1 and Base64 routines of src/server/WsServer.cpp, on \<open>uint32_t\<close> as \<open>32 word\<close>, with
  the FIPS 180-4 formulation of SHA-1 and a Base64 decoder as references.
\<close>

unbundle bit_operations_syntax

section \<open>SHA-1\<close>

definition rotl :: "u32 \<Rightarrow> nat \<Rightarrow> u32" where
  "rotl v n = push_bit n v OR drop_bit (32 - n) v"

lemma pad_left_mod: "k < 64 \<Longrightarrow> (120 - k) mod 64 = (if k \<le> 56 then 56 - k else 120 - (k::nat))"
  by (auto simp: le_mod_geq)

lemma pad_count:
  assumes "k mod 64 \<noteq> 56"
  shows "(120 - k mod 64) mod 64 = Suc ((120 - Suc k mod 64) mod (64::nat))"
proof -
  have "k mod 64 < 64" "Suc k mod 64 < 64" by simp_all
  with assms show ?thesis
    by (simp only: pad_left_mod) (auto simp: mod_Suc)
qed

text \<open>\<open>while (m.size() % 64 != 56) m.push_back(0)\<close>\<close>

function pad56 :: "byte list \<Rightarrow> byte list" where
  "pad56 m = (if length m mod 64 \<noteq> 56 then pad56 (m @ [0]) else m)"
  by pat_completeness auto
termination
  by (relation "measure (\<lambda>m. (120 - length m mod 64) mod 64)") (simp_all add: pad_count)

declare pad56.simps [simp del]

definition sha1_pad :: "byte list \<Rightarrow> byte list" where
  "sha1_pad d = pad56 (d @ [0x80]) @ be_bytes 8 (length d * 8 mod 2 ^ 64)"

definition word_at :: "byte list \<Rightarrow> nat \<Rightarrow> u32" where
  "word_at m k = push_bit 24 (ucast (m ! k)) OR push_bit 16 (ucast (m ! (k + 1)))
     OR push_bit 8 (ucast (m ! (k + 2))) OR ucast (m ! (k + 3))"

text \<open>The message schedule: sixteen words of the block, then one word at a time.\<close>

fun extend_schedule :: "nat \<Rightarrow> u32 list \<Rightarrow> u32 list" where
  "extend_schedule 0 w = w"
| "extend_schedule (Suc n) w =
     (let j = length w in
      extend_schedule n (w @ [rotl (w ! (j - 3) XOR w ! (j - 8) XOR w ! (j - 14) XOR w ! (j - 16)) 1]))"

definition sha1_schedule :: "byte list \<Rightarrow> u32 list" where
  "sha1_schedule m = extend_schedule 64 (map (\<lambda>j. word_at m (j * 4)) [0..<16])"

type_synonym sha_state = "u32 \<times> u32 \<times> u32 \<times> u32 \<times> u32"

definition sha1_fk :: "nat \<Rightarrow> u32 \<Rightarrow> u32 \<Rightarrow> u32 \<Rightarrow> u32 \<times> u32" where
  "sha1_fk j b c d =
     (if j < 20 then ((b AND c) OR (NOT b AND d), 0x5A827999)
      else if j < 40 then (b XOR c XOR d, 0x6ED9EBA1)
      else if j < 60 then ((b AND c) OR (b AND d) OR (c AND d), 0x8F1BBCDC)
      else (b XOR c XOR d, 0xCA62C1D6))"

definition sha1_round :: "u32 list \<Rightarrow> sha_state \<Rightarrow> nat \<Rightarrow> sha_state" where
  "sha1_round w s j =
     (case s of (a, b, c, d, e) \<Rightarrow>
        case sha1_fk j b c d of (f, k) \<Rightarrow>
          (rotl a 5 + f + e + k + w ! j, a, rotl b 30, c, d))"

definition sha1_block :: "byte list \<Rightarrow> sha_state \<Rightarrow> sha_state" where
  "sha1_block m h =
     (case (h, foldl (sha1_round (sha1_schedule m)) h [0..<80]) of
        ((h0, h1, h2, h3, h4), (a, b, c, d, e)) \<Rightarrow> (h0 + a, h1 + b, h2 + c, h3 + d, h4 + e))"

function sha1_blocks :: "byte list \<Rightarrow> sha_state \<Rightarrow> sha_state" where
  "sha1_blocks m h = (if m = [] then h else sha1_blocks (drop 64 m) (sha1_block (take 64 m) h))"
  by pat_completeness auto
termination
  by (relation "measure (\<lambda>(m, h). length m)") auto

declare sha1_blocks.simps [simp del]

definition sha1_init :: sha_state where
  "sha1_init = (0x67452301, 0xEFCDAB89, 0x98BADCFE, 0x10325476, 0xC3D2E1F0)"

definition u32_bytes :: "u32 \<Rightarrow> byte list" where
  "u32_bytes h = map (\<lambda>j. ucast (drop_bit (j * 8) h)) [3, 2, 1, 0]"

definition sha1 :: "byte list \<Rightarrow> byte list" where
  "sha1 d =
     (case sha1_blocks (sha1_pad d) sha1_init of (h0, h1, h2, h3, h4) \<Rightarrow>
        concat (map u32_bytes [h0, h1, h2, h3, h4]))"

lemma length_sha1: "length (sha1 d) = 20"
  by (simp add: sha1_def u32_bytes_def split: prod.split)

lemma pad56_mod: "length (pad56 m) mod 64 = 56"
proof (induction m rule: pad56.induct)
  case (1 m)
  then show ?case by (subst pad56.simps) simp
qed

lemma pad56_prefix: "\<exists>n<64. pad56 m = m @ replicate n 0"
proof -
  have "pad56 m = m @ replicate ((120 - length m mod 64) mod 64) 0"
  proof (induction m rule: pad56.induct)
    case (1 m)
    show ?case
    proof (cases "length m mod 64 = 56")
      case True
      then show ?thesis by (subst pad56.simps) simp
    next
      case False
      with 1 [OF False] pad_count [OF False] show ?thesis by (subst pad56.simps) simp
    qed
  qed
  then show ?thesis by (metis mod_less_divisor zero_less_numeral)
qed

lemma length_sha1_pad: "length (sha1_pad d) mod 64 = 0"
  using pad56_mod [of "d @ [0x80]"] by (simp add: sha1_pad_def mod_add_left_eq [symmetric])


subsection \<open>The standard's formulation\<close>

text \<open>
  FIPS 180-4, section 6.1: the message schedule as a recurrence over a function of sixteen
  words, \<open>Ch\<close>, \<open>Parity\<close> and \<open>Maj\<close> with exclusive or, and the working variables after
  \<open>t\<close> rounds as a recurrence on \<open>t\<close>.
\<close>

fun fips_W :: "(nat \<Rightarrow> u32) \<Rightarrow> nat \<Rightarrow> u32" where
  "fips_W M t =
     (if t < 16 then M t
      else rotl (fips_W M (t - 3) XOR fips_W M (t - 8) XOR fips_W M (t - 14) XOR fips_W M (t - 16)) 1)"

declare fips_W.simps [simp del]

definition fips_f :: "nat \<Rightarrow> u32 \<Rightarrow> u32 \<Rightarrow> u32 \<Rightarrow> u32" where
  "fips_f t x y z =
     (if t \<le> 19 then (x AND y) XOR (NOT x AND z)
      else if 40 \<le> t \<and> t \<le> 59 then (x AND y) XOR (x AND z) XOR (y AND z)
      else x XOR y XOR z)"

definition fips_K :: "nat \<Rightarrow> u32" where
  "fips_K t =
     (if t \<le> 19 then 0x5a827999 else if t \<le> 39 then 0x6ed9eba1
      else if t \<le> 59 then 0x8f1bbcdc else 0xca62c1d6)"

fun fips_vars :: "(nat \<Rightarrow> u32) \<Rightarrow> sha_state \<Rightarrow> nat \<Rightarrow> sha_state" where
  "fips_vars M h 0 = h"
| "fips_vars M h (Suc t) =
     (case fips_vars M h t of (a, b, c, d, e) \<Rightarrow>
        (rotl a 5 + fips_f t b c d + e + fips_K t + fips_W M t, a, rotl b 30, c, d))"

lemma length_extend_schedule: "length (extend_schedule n w) = length w + n"
  by (induction n arbitrary: w) (simp_all add: Let_def)

lemma extend_schedule_fips:
  "16 \<le> length w \<Longrightarrow> w = map (fips_W M) [0..<length w] \<Longrightarrow>
     extend_schedule n w = map (fips_W M) [0..<length w + n]"
proof (induction n arbitrary: w)
  case (Suc n)
  let ?j = "length w"
  let ?x = "rotl (w ! (?j - 3) XOR w ! (?j - 8) XOR w ! (?j - 14) XOR w ! (?j - 16)) 1"
  have nth: "k < ?j \<Longrightarrow> w ! k = fips_W M k" for k
    by (subst Suc.prems(2)) simp
  have x: "?x = fips_W M ?j"
    using Suc.prems(1) by (subst fips_W.simps) (simp add: nth)
  have "w @ [?x] = map (fips_W M) [0..<length (w @ [?x])]"
    using Suc.prems(2) x by simp
  from Suc.IH [OF _ this] Suc.prems(1) show ?case
    by (simp add: Let_def)
qed simp

lemma sha1_schedule_fips: "sha1_schedule m = map (fips_W (\<lambda>j. word_at m (j * 4))) [0..<80]"
proof -
  let ?w = "map (\<lambda>j. word_at m (j * 4)) [0..<16]"
  have "?w = map (fips_W (\<lambda>j. word_at m (j * 4))) [0..<length ?w]"
    by (rule nth_equalityI) (simp_all add: fips_W.simps)
  from extend_schedule_fips [OF _ this, of 64] show ?thesis
    by (simp add: sha1_schedule_def)
qed

lemma choice_xor: "(x AND y) OR (NOT x AND z) = (x AND y) XOR (NOT x AND (z :: u32))"
  by (rule bit_word_eqI) (auto simp: bit_simps)

lemma majority_xor:
  "(x AND y) OR (x AND z) OR (y AND z) = (x AND y) XOR (x AND z) XOR (y AND (z :: u32))"
  by (rule bit_word_eqI) (auto simp: bit_simps)

lemma sha1_fk_fips: "sha1_fk j b c d = (fips_f j b c d, fips_K j)"
  by (simp add: sha1_fk_def fips_f_def fips_K_def choice_xor majority_xor)

lemma sha1_rounds_fips:
  "n \<le> 80 \<Longrightarrow> foldl (sha1_round (sha1_schedule m)) h [0..<n] = fips_vars (\<lambda>j. word_at m (j * 4)) h n"
proof (induction n)
  case (Suc n)
  then have "sha1_schedule m ! n = fips_W (\<lambda>j. word_at m (j * 4)) n"
    by (simp add: sha1_schedule_fips)
  with Suc show ?case
    by (simp add: sha1_round_def sha1_fk_fips split: prod.split)
qed simp

definition fips_block :: "byte list \<Rightarrow> sha_state \<Rightarrow> sha_state" where
  "fips_block m h =
     (case (h, fips_vars (\<lambda>j. word_at m (j * 4)) h 80) of
        ((h0, h1, h2, h3, h4), (a, b, c, d, e)) \<Rightarrow> (h0 + a, h1 + b, h2 + c, h3 + d, h4 + e))"

lemma sha1_block_fips: "sha1_block m h = fips_block m h"
  by (simp only: sha1_block_def fips_block_def sha1_rounds_fips order_refl)

text \<open>
  The padded message of the standard is the message, a one bit, the least number of zero bits
  that leaves room for the 64-bit length, and the length in bits; the hash folds the
  compression function over its blocks of 64 bytes.
\<close>

definition fips_pad :: "byte list \<Rightarrow> byte list" where
  "fips_pad d = d @ [0x80] @ replicate ((119 - length d mod 64) mod 64) 0 @ be_bytes 8 (8 * length d)"

fun blocks64 :: "nat \<Rightarrow> byte list \<Rightarrow> byte list list" where
  "blocks64 0 m = []"
| "blocks64 (Suc n) m = take 64 m # blocks64 n (drop 64 m)"

definition fips_sha1 :: "byte list \<Rightarrow> byte list" where
  "fips_sha1 d =
     (case fold fips_block (blocks64 (length (fips_pad d) div 64) (fips_pad d)) sha1_init of
        (h0, h1, h2, h3, h4) \<Rightarrow> concat (map u32_bytes [h0, h1, h2, h3, h4]))"

lemma pad56_eq: "pad56 m = m @ replicate ((120 - length m mod 64) mod 64) 0"
proof (induction m rule: pad56.induct)
  case (1 m)
  show ?case
  proof (cases "length m mod 64 = 56")
    case True
    then show ?thesis by (subst pad56.simps) simp
  next
    case False
    with 1 [OF False] pad_count [OF False] show ?thesis by (subst pad56.simps) simp
  qed
qed

lemma be_bytes_mod: "k \<le> n \<Longrightarrow> be_bytes k (v mod 256 ^ n) = be_bytes k v"
proof (induction k)
  case (Suc k)
  then obtain j where n: "n = k + Suc j" by (metis less_iff_Suc_add Suc_le_eq add_Suc_right)
  have "v mod 256 ^ n = 256 ^ k * (v div 256 ^ k mod 256 ^ Suc j) + v mod 256 ^ k"
    using mod_mult2_eq [of v "256 ^ k" "256 ^ Suc j"] by (simp only: n power_add)
  then have "v mod 256 ^ n div 256 ^ k = v div 256 ^ k mod 256 ^ Suc j"
    by (simp del: power_Suc)
  moreover have "v div 256 ^ k mod 256 ^ Suc j mod 256 = v div 256 ^ k mod 256"
    by (rule mod_mod_cancel) simp
  ultimately have "v mod 256 ^ n div 256 ^ k mod 256 = v div 256 ^ k mod 256" by simp
  then have "(of_nat (v mod 256 ^ n div 256 ^ k) :: byte) = of_nat (v div 256 ^ k)"
    by (simp add: word_unat_eq_iff unat_of_nat)
  with Suc show ?case by simp
qed simp

lemma sha1_pad_fips: "sha1_pad d = fips_pad d"
proof -
  have "(120 - Suc (length d) mod 64) mod 64 = (119 - length d mod 64) mod 64"
    by (auto simp: mod_Suc)
  moreover have "be_bytes 8 (length d * 8 mod 2 ^ 64) = be_bytes 8 (8 * length d)"
    using be_bytes_mod [of 8 8 "8 * length d"] by (simp add: mult.commute)
  ultimately show ?thesis by (simp add: sha1_pad_def fips_pad_def pad56_eq)
qed

lemma sha1_blocks_fold:
  "length m = 64 * n \<Longrightarrow> sha1_blocks m h = fold sha1_block (blocks64 n m) h"
proof (induction n arbitrary: m h)
  case 0
  then show ?case by (simp add: sha1_blocks.simps)
next
  case (Suc n)
  then have "m \<noteq> []" "length (drop 64 m) = 64 * n" by auto
  with Suc.IH show ?case by (subst sha1_blocks.simps) simp
qed

lemma sha1_fips: "sha1 d = fips_sha1 d"
proof -
  obtain n where n: "length (fips_pad d) = 64 * n"
    using length_sha1_pad [of d] by (auto simp: sha1_pad_fips)
  have "sha1_block = fips_block" by (simp add: fun_eq_iff sha1_block_fips)
  with sha1_blocks_fold [OF n] show ?thesis
    by (simp add: sha1_def fips_sha1_def sha1_pad_fips n)
qed

section \<open>Base64\<close>

definition b64_table :: string where
  "b64_table = ''ABCDEFGHIJKLMNOPQRSTUVWXYZabcdefghijklmnopqrstuvwxyz0123456789+/''"

definition b64_char :: "u32 \<Rightarrow> nat \<Rightarrow> char" where
  "b64_char v k = b64_table ! unat (drop_bit k v AND 63)"

text \<open>One pass of the loop per three bytes; the last group may have one or two.\<close>

fun base64Encode :: "byte list \<Rightarrow> string" where
  "base64Encode [] = []"
| "base64Encode [a] =
     (let v = push_bit 16 (ucast a) in [b64_char v 18, b64_char v 12, CHR ''='', CHR ''=''])"
| "base64Encode [a, b] =
     (let v = push_bit 16 (ucast a) OR push_bit 8 (ucast b)
      in [b64_char v 18, b64_char v 12, b64_char v 6, CHR ''=''])"
| "base64Encode (a # b # c # r) =
     (let v = push_bit 16 (ucast a) OR push_bit 8 (ucast b) OR ucast c
      in [b64_char v 18, b64_char v 12, b64_char v 6, b64_char v 0] @ base64Encode r)"

text \<open>The decoder of RFC 4648, as a reference.\<close>

definition b64_digit :: "char \<Rightarrow> byte" where
  "b64_digit c = (case chr_find c b64_table of None \<Rightarrow> 0 | Some i \<Rightarrow> of_nat i)"

fun base64_decode :: "string \<Rightarrow> byte list" where
  "base64_decode (p # q # r # s # t) =
     (let a = push_bit 2 (b64_digit p) OR drop_bit 4 (b64_digit q);
          b = push_bit 4 (b64_digit q) OR drop_bit 2 (b64_digit r);
          c = push_bit 6 (b64_digit r) OR b64_digit s
      in (if r = CHR ''='' then [a] else if s = CHR ''='' then [a, b] else [a, b, c]) @ base64_decode t)"
| "base64_decode _ = []"

lemma b64_index_less: "unat (v AND (63 :: u32)) < 64"
proof -
  have "v AND 63 = take_bit 6 v" by (simp add: take_bit_eq_mask mask_eq_exp_minus_1)
  then have "unat (v AND 63) = take_bit 6 (unat v)" by (simp add: unsigned_take_bit_eq)
  then show ?thesis by (simp add: take_bit_eq_mod)
qed

lemma b64_table_inverse: "i < 64 \<Longrightarrow> chr_find (b64_table ! i) b64_table = Some i"
proof -
  have "\<forall>i<64. chr_find (b64_table ! i) b64_table = Some i"
    by (simp add: b64_table_def numeral_eq_Suc All_less_Suc)
  then show "i < 64 \<Longrightarrow> chr_find (b64_table ! i) b64_table = Some i" by blast
qed

definition sextet :: "u32 \<Rightarrow> nat \<Rightarrow> byte" where
  "sextet v k = ucast (drop_bit k v AND 63)"

lemma b64_digit_char: "b64_digit (b64_char v k) = sextet v k"
proof -
  have "b64_digit (b64_char v k) = of_nat (unat (drop_bit k v AND 63))"
    by (simp add: b64_digit_def b64_char_def b64_table_inverse b64_index_less)
  then show ?thesis by (simp only: of_nat_unat sextet_def)
qed

lemma b64_char_not_pad: "b64_char v k \<noteq> CHR ''=''"
proof -
  have "CHR ''='' \<notin> set b64_table" by (simp add: b64_table_def)
  moreover have "b64_char v k \<in> set b64_table"
  proof -
    have "length b64_table = 64" by (simp add: b64_table_def)
    then show ?thesis unfolding b64_char_def by (metis b64_index_less nth_mem)
  qed
  ultimately show ?thesis by metis
qed

text \<open>The four sextets of a group give back its three bytes.\<close>

lemma b64_group:
  fixes a b c :: byte
  defines "v \<equiv> push_bit 16 (ucast a) OR push_bit 8 (ucast b) OR (ucast c :: u32)"
  shows "push_bit 2 (sextet v 18) OR drop_bit 4 (sextet v 12) = a"
    and "push_bit 4 (sextet v 12) OR drop_bit 2 (sextet v 6) = b"
    and "push_bit 6 (sextet v 6) OR sextet v 0 = c"
proof -
  have small: "n < 8 \<Longrightarrow> n = 0 \<or> n = 1 \<or> n = 2 \<or> n = 3 \<or> n = 4 \<or> n = 5 \<or> n = 6 \<or> n = (7::nat)" for n
    by arith
  have mask: "(63 :: u32) = mask 6" by (simp add: mask_eq_exp_minus_1)
  show "push_bit 2 (sextet v 18) OR drop_bit 4 (sextet v 12) = a"
    by (rule bit_word_eqI) (auto simp: sextet_def v_def mask bit_simps numeral_2_eq_2 [symmetric] numeral_3_eq_3 [symmetric] dest!: small dest: bit_imp_le_length)
  show "push_bit 4 (sextet v 12) OR drop_bit 2 (sextet v 6) = b"
    by (rule bit_word_eqI) (auto simp: sextet_def v_def mask bit_simps dest!: small dest: bit_imp_le_length)
  show "push_bit 6 (sextet v 6) OR sextet v 0 = c"
    by (rule bit_word_eqI) (auto simp: sextet_def v_def mask bit_simps dest!: small dest: bit_imp_le_length)
qed

lemmas b64_group2 = b64_group [where c = 0, simplified]
lemmas b64_group1 = b64_group [where b = 0 and c = 0, simplified]

lemma base64_roundtrip: "base64_decode (base64Encode bs) = bs"
  by (induction bs rule: base64Encode.induct)
    (simp_all add: Let_def b64_digit_char b64_char_not_pad b64_group b64_group1 b64_group2)

lemma length_base64Encode: "length (base64Encode bs) = 4 * ((length bs + 2) div 3)"
proof (induction bs rule: base64Encode.induct)
  case (4 a b c r)
  have "length (a # b # c # r) + 2 = (length r + 2) + 3" by simp
  then have "(length (a # b # c # r) + 2) div 3 = (length r + 2) div 3 + 1" by simp
  with 4 show ?case by (simp add: Let_def)
qed (simp_all add: Let_def)

section \<open>Properties\<close>

text \<open>
  C15: the hand-written \<open>sha1\<close> computes, for every input, the SHA-1 of FIPS 180-4: the same
  padding, message schedule, round functions, constants and big-endian digest of 20 bytes.
\<close>

theorem sha1_is_fips_180_4: "sha1 d = fips_sha1 d \<and> length (sha1 d) = 20"
  by (simp add: sha1_fips length_sha1 del: length_sha1) (simp add: sha1_fips [symmetric] length_sha1)

text \<open>
  \<open>base64Encode\<close> produces standard Base64: its output decodes to the input and has four
  characters for every started group of three bytes, so it is injective.
\<close>

theorem base64Encode_inverts:
  "base64_decode (base64Encode bs) = bs \<and> length (base64Encode bs) = 4 * ((length bs + 2) div 3)"
  by (simp add: base64_roundtrip length_base64Encode)

end
