(* ===== verification/Ws_Frames.thy ===== *)
theory Ws_Frames
  imports WsCrypto
begin

text \<open>
  The WebSocket wire protocol of src/server/WsServer.cpp: the opening handshake, reading and
  writing frames. Payloads stay below 2 GB: beyond that the casts of lengths to \<open>int\<close> in the
  calls of \<open>recv\<close> and \<open>send\<close> are not modelled, and the properties exclude it. \<open>lim\<close> is the largest \<open>std::vector<uint8_t>\<close> the process can allocate
  (\<open>max_size()\<close> or the memory limit): a longer payload makes the constructor throw.
\<close>

section \<open>Handshake\<close>

definition crlf :: string where "crlf = [CHR 0x0D, CHR 0x0A]"

definition ws_key_header :: string where "ws_key_header = ''Sec-WebSocket-Key:''"

definition ws_magic :: string where "ws_magic = ''258EAFA5-E914-47DA-95CA-C5AB0DC85B11''"

definition extract_key :: "string \<Rightarrow> string option" where
  "extract_key req =
     (case str_find ws_key_header req of
        None \<Rightarrow> None
      | Some pos0 \<Rightarrow>
          let pos1 = pos0 + 18;
              pos = pos1 + length (takeWhile (\<lambda>c. c = CHR '' '') (drop pos1 req))
          in case str_find_from crlf req pos of
               None \<Rightarrow> None
             | Some stop \<Rightarrow> Some (take (stop - pos) (drop pos req)))"

definition handshake_response :: "string \<Rightarrow> string" where
  "handshake_response key =
     (let accept = base64Encode (sha1 (bytes_of (key @ ws_magic)))
      in ''HTTP/1.1 101 Switching Protocols'' @ crlf @
         ''Upgrade: websocket'' @ crlf @
         ''Connection: Upgrade'' @ crlf @
         ''Sec-WebSocket-Accept: '' @ accept @ crlf @
         crlf)"

text \<open>
  One \<open>recv\<close> of at most 4095 bytes; \<open>send\<close> is the number of bytes the operating system
  accepts of the response. The result is whether the handshake succeeded, with the bytes
  handed to \<open>send\<close>.
\<close>

definition handshake :: "(byte list \<Rightarrow> int) \<Rightarrow> inbound \<Rightarrow> (bool \<times> byte list) \<times> inbound" where
  "handshake send s =
     (case sock_recv s 4095 of (d, s') \<Rightarrow>
        (if d = [] then ((False, []), s')
         else case extract_key (str_of d) of
                None \<Rightarrow> ((False, []), s')
              | Some key \<Rightarrow>
                  let resp = bytes_of (handshake_response key)
                  in ((send resp = int (length resp), resp), s')))"

section \<open>Frames\<close>

datatype frame_result = FrClosed | FrMessage string | FrThrow

text \<open>\<open>payload[i] ^= mask[i % 4]\<close>\<close>

definition unmask :: "byte list \<Rightarrow> byte list \<Rightarrow> byte list" where
  "unmask mk payload = map (\<lambda>i. payload ! i XOR mk ! (i mod 4)) [0..<length payload]"

text \<open>The payload length: seven bits, or two or eight further bytes.\<close>

definition read_length :: "byte \<Rightarrow> inbound \<Rightarrow> u64 option \<times> inbound" where
  "read_length len7 s =
     (if len7 = 126 then (case recv_all s 2 of (e, s') \<Rightarrow> (map_option be_word e, s'))
      else if len7 = 127 then (case recv_all s 8 of (e, s') \<Rightarrow> (map_option be_word e, s'))
      else (Some (ucast len7), s))"

text \<open>The result of \<open>readFrame\<close>, the bytes it sends (a pong), and the rest of the stream.\<close>

definition readFrame :: "nat \<Rightarrow> inbound \<Rightarrow> frame_result \<times> byte list \<times> inbound" where
  "readFrame lim s =
     (case recv_all s 2 of
        (None, s1) \<Rightarrow> (FrClosed, [], s1)
      | (Some hdr, s1) \<Rightarrow>
          let opcode = hdr ! 0 AND 0x0F;
              masked = (hdr ! 1 AND 0x80 \<noteq> 0)
          in case read_length (hdr ! 1 AND 0x7F) s1 of
               (None, s2) \<Rightarrow> (FrClosed, [], s2)
             | (Some plen, s2) \<Rightarrow>
                 case (if masked then recv_all s2 4 else (Some [0, 0, 0, 0], s2)) of
                   (None, s3) \<Rightarrow> (FrClosed, [], s3)
                 | (Some mk, s3) \<Rightarrow>
                     if lim < unat plen then (FrThrow, [], s3)
                     else case recv_all s3 (unat plen) of
                            (None, s4) \<Rightarrow> (FrClosed, [], s4)
                          | (Some raw, s4) \<Rightarrow>
                              let payload = (if masked then unmask mk raw else raw)
                              in if opcode = 0x8 then (FrClosed, [], s4)
                                 else if opcode = 0x9 then (FrMessage [], [0x8A, 0x00], s4)
                                 else (FrMessage (str_of payload), [], s4))"

definition frame_length :: "nat \<Rightarrow> byte list" where
  "frame_length len =
     (if len < 126 then [of_nat len]
      else if len < 65536 then [126, of_nat (len div 256), of_nat len]
      else 127 # be_bytes 8 len)"

definition frame_bytes :: "string \<Rightarrow> byte list" where
  "frame_bytes payload = 0x81 # frame_length (length payload) @ bytes_of payload"

definition writeFrame :: "(byte list \<Rightarrow> int) \<Rightarrow> string \<Rightarrow> bool" where
  "writeFrame send payload = (send (frame_bytes payload) = int (length (frame_bytes payload)))"

section \<open>Lemmas\<close>

text \<open>
  The frame a client sends according to RFC 6455: the mask bit set, the masking key, and the
  payload combined with it.
\<close>

definition client_frame :: "byte \<Rightarrow> byte list \<Rightarrow> string \<Rightarrow> byte list" where
  "client_frame opc mk payload =
     (0x80 OR opc) #
     (case frame_length (length payload) of l # ls \<Rightarrow> (0x80 OR l) # ls) @ mk @
     unmask mk (bytes_of payload)"

lemma length_unmask [simp]: "length (unmask mk p) = length p"
  by (simp add: unmask_def)

lemma unmask_unmask [simp]: "unmask mk (unmask mk p) = p"
  by (rule nth_equalityI) (simp_all add: unmask_def xor.assoc)

lemma frame_length_cases:
  obtains (short) "n < 126" "frame_length n = [of_nat n]"
  | (medium) "126 \<le> n" "n < 65536" "frame_length n = 126 # be_bytes 2 n"
  | (long) "65536 \<le> n" "frame_length n = 127 # be_bytes 8 n"
proof -
  have "be_bytes 2 n = [of_nat (n div 256), of_nat n]"
    by (simp add: numeral_2_eq_2)
  then show thesis
    by (cases "n < 126"; cases "n < 65536") (auto simp: frame_length_def intro: that)
qed

lemma recv_all_be:
  assumes "live s" "concat s = be_bytes k n @ rest" "n < 256 ^ k" "k \<le> 8"
  obtains s' where "recv_all s k = (Some (be_bytes k n), s')" "concat s' = rest" "live s'"
    "unat (be_word (be_bytes k n)) = n"
proof -
  from recv_all_live_Some [OF assms(1,2)] obtain s'
    where "recv_all s k = (Some (be_bytes k n), s')" "concat s' = rest" "live s'" by auto
  moreover have "unat (be_word (be_bytes k n)) = n"
    using assms(3,4) by (simp add: unat_be_word be_val_be_bytes)
  ultimately show thesis by (rule that)
qed

text \<open>The length field in any of its three forms is read back.\<close>

lemma read_length_frame:
  assumes "live s" "n < 2 ^ 64" "frame_length n = l # ls" "concat s = ls @ rest"
  obtains plen s' where "read_length l s = (Some plen, s')" "unat plen = n"
    "concat s' = rest" "live s'" "l < 128"
proof (cases n rule: frame_length_cases)
  case short
  have u: "unat (of_nat n :: byte) = n" using short(1) by simp
  have "(ucast (of_nat n :: byte) :: u64) = of_nat n"
    using of_nat_unat [of "of_nat n :: byte", where ?'a = "64 word"] unfolding u by simp
  then have "unat (ucast (of_nat n :: byte) :: u64) = n"
    using short(1) by (simp add: unat_of_nat)
  moreover have "(of_nat n :: byte) < 126"
    using u short(1) by (simp add: word_less_nat_alt)
  moreover have "b \<noteq> 126 \<and> b \<noteq> 127 \<and> b < 128" if "b < 126" for b :: byte
    using that by (cases "b = 126"; cases "b = 127") (auto simp: word_less_nat_alt)
  moreover from short assms(3) have "l = of_nat n" "ls = []" by simp_all
  ultimately show ?thesis
    using that [of "ucast (of_nat n :: byte)" s] assms(1,4) by (simp add: read_length_def)
next
  case medium
  from medium assms(3) have e: "l = 126" "ls = be_bytes 2 n" by simp_all
  have "n < 256 ^ 2" using medium assms(2) by simp
  obtain s'
    where s': "recv_all s 2 = (Some (be_bytes 2 n), s')" "concat s' = rest" "live s'"
      "unat (be_word (be_bytes 2 n)) = n"
    by (rule recv_all_be [OF assms(1) assms(4) [unfolded e(2)] \<open>n < 256 ^ 2\<close>]) simp_all
  then have "read_length l s = (Some (be_word (be_bytes 2 n)), s')"
    by (simp add: read_length_def e(1))
  from that [OF this s'(4,2,3)] show ?thesis unfolding e(1) by simp
next
  case long
  from long assms(3) have e: "l = 127" "ls = be_bytes 8 n" by simp_all
  have "n < 256 ^ 8" using long assms(2) by simp
  obtain s'
    where s': "recv_all s 8 = (Some (be_bytes 8 n), s')" "concat s' = rest" "live s'"
      "unat (be_word (be_bytes 8 n)) = n"
    by (rule recv_all_be [OF assms(1) assms(4) [unfolded e(2)] \<open>n < 256 ^ 8\<close>]) simp_all
  then have "read_length l s = (Some (be_word (be_bytes 8 n)), s')"
    by (simp add: read_length_def e(1))
  from that [OF this s'(4,2,3)] show ?thesis unfolding e(1) by simp
qed

lemma frame_length_Cons: "\<exists>l ls. frame_length n = l # ls"
  by (simp add: frame_length_def)

lemma low_length_bits:
  assumes "(l :: byte) < 128"
  shows "l AND 0x80 = 0" "l AND 0x7F = l" "(0x80 OR l) AND 0x80 \<noteq> 0" "(0x80 OR l) AND 0x7F = l"
proof -
  have "take_bit 7 (unat l) = unat l"
    using assms by (simp add: word_less_nat_alt take_bit_eq_mod)
  then have t: "take_bit 7 l = l"
    by (metis unsigned_take_bit_eq word_unat_eq_iff)
  then have hi: "\<not> bit l 7" by (metis bit_take_bit_iff less_irrefl)
  have c: "(0x80 :: byte) = push_bit 7 1" "(0x7F :: byte) = mask 7"
    by (simp_all add: mask_eq_exp_minus_1)
  show hi0: "l AND 0x80 = 0"
  proof (rule bit_eqI)
    fix n
    have "bit (2 ^ 7 :: byte) n \<Longrightarrow> n = 7" unfolding bit_exp_iff by simp
    then have "bit (0x80 :: byte) n \<Longrightarrow> n = 7" by simp
    with hi show "bit (l AND 0x80) n \<longleftrightarrow> bit (0 :: byte) n"
      by (auto simp only: bit_and_iff bit_0_eq bot_apply bot_bool_def)
  qed
  show lo: "l AND 0x7F = l"
    using t by (simp only: c(2) take_bit_eq_mask)
  have "(0x80 OR l) AND 0x80 = (0x80 AND 0x80) OR (l AND 0x80)" by (rule word_ao_dist)
  also have "\<dots> = 0x80" unfolding hi0 by simp
  finally show "(0x80 OR l) AND 0x80 \<noteq> 0" by simp
  have "(0x80 OR l) AND 0x7F = (0x80 AND 0x7F) OR (l AND 0x7F)" by (rule word_ao_dist)
  also have "\<dots> = l" unfolding lo by simp
  finally show "(0x80 OR l) AND 0x7F = l" .
qed

text \<open>An unmasked text frame, as the server writes it.\<close>

lemma readFrame_server:
  assumes "live s" "concat s = frame_bytes p @ rest" "length p \<le> lim" "length p < 2 ^ 64"
  shows "\<exists>s'. readFrame lim s = (FrMessage p, [], s') \<and> concat s' = rest \<and> live s'"
proof -
  obtain l ls where l: "frame_length (length p) = l # ls" using frame_length_Cons by blast
  have "concat s = [0x81, l] @ (ls @ bytes_of p @ rest)"
    using assms(2) by (simp add: frame_bytes_def l)
  from recv_all_live_Some [OF assms(1) this] obtain s1 where
    s1: "recv_all s 2 = (Some [0x81, l], s1)" "concat s1 = ls @ (bytes_of p @ rest)" "live s1"
    by (auto simp: numeral_2_eq_2)
  from read_length_frame [OF s1(3) assms(4) l s1(2)] obtain plen s2 where
    s2: "read_length l s1 = (Some plen, s2)" "unat plen = length p"
      "concat s2 = bytes_of p @ rest" "live s2" "l < 128" by blast
  from recv_all_live_Some [OF s2(4,3)] obtain s3 where
    s3: "recv_all s2 (length p) = (Some (bytes_of p), s3)" "concat s3 = rest" "live s3" by auto
  from s1 s2 s3 assms(3) show ?thesis
    by (simp add: readFrame_def low_length_bits Let_def)
qed

text \<open>A masked frame of a client: data, ping and close.\<close>

lemma readFrame_client:
  assumes "live s" "concat s = client_frame opc mk p @ rest" "length mk = 4"
    and "length p \<le> lim" "length p < 2 ^ 64" "opc < 8"
  shows "\<exists>s'. readFrame lim s = (FrMessage p, [], s') \<and> concat s' = rest \<and> live s'"
proof -
  obtain l ls where l: "frame_length (length p) = l # ls" using frame_length_Cons by blast
  have "concat s = [0x80 OR opc, 0x80 OR l] @ (ls @ mk @ unmask mk (bytes_of p) @ rest)"
    using assms(2) by (simp add: client_frame_def l)
  from recv_all_live_Some [OF assms(1) this] obtain s1 where
    s1: "recv_all s 2 = (Some [0x80 OR opc, 0x80 OR l], s1)"
      "concat s1 = ls @ (mk @ unmask mk (bytes_of p) @ rest)" "live s1"
    by (auto simp: numeral_2_eq_2)
  from read_length_frame [OF s1(3) assms(5) l s1(2)] obtain plen s2 where
    s2: "read_length l s1 = (Some plen, s2)" "unat plen = length p"
      "concat s2 = mk @ (unmask mk (bytes_of p) @ rest)" "live s2" "l < 128" by blast
  from recv_all_live_Some [OF s2(4,3)] assms(3) obtain s3 where
    s3: "recv_all s2 4 = (Some mk, s3)" "concat s3 = unmask mk (bytes_of p) @ rest" "live s3" by auto
  from recv_all_live_Some [OF s3(3,2)] obtain s4 where
    s4: "recv_all s3 (length p) = (Some (unmask mk (bytes_of p)), s4)" "concat s4 = rest" "live s4"
    by auto
  have "(0x80 OR opc) AND 0x0F = opc"
  proof -
    have "take_bit 4 (unat opc) = unat opc"
      using assms(6) by (simp add: word_less_nat_alt take_bit_eq_mod)
    then have t: "take_bit 4 opc = opc"
      by (metis unsigned_take_bit_eq word_unat_eq_iff)
    have "(0x80 :: byte) AND 0x0F = 0" "(0x0F :: byte) = mask 4"
      by (simp_all add: mask_eq_exp_minus_1)
    with t show ?thesis by (simp add: word_ao_dist take_bit_eq_mask)
  qed
  moreover have "opc \<noteq> 8" "opc \<noteq> 9" using assms(6) by auto
  ultimately show ?thesis using s1 s2 s3 s4 assms(4)
    by (simp add: readFrame_def low_length_bits Let_def)
qed

definition ws_decode :: "nat \<Rightarrow> inbound \<Rightarrow> string option \<times> inbound" where
  "ws_decode lim s =
     (case readFrame lim s of (FrMessage m, _, s') \<Rightarrow> (Some m, s') | (_, _, s') \<Rightarrow> (None, s'))"

interpretation server_frames: stream_codec frame_bytes "ws_decode lim"
  "\<lambda>p. length p \<le> lim \<and> length p < 2 ^ 64" for lim
proof
  fix x s rest
  assume "length x \<le> lim \<and> length x < 2 ^ 64" "live s" "concat s = frame_bytes x @ rest"
  with readFrame_server [of s x rest lim]
  show "\<exists>s'. ws_decode lim s = (Some x, s') \<and> concat s' = rest \<and> live s'"
    by (auto simp: ws_decode_def)
qed

interpretation client_frames: stream_codec "client_frame 1 mk" "ws_decode lim"
  "\<lambda>p. length mk = 4 \<and> length p \<le> lim \<and> length p < 2 ^ 64" for mk lim
proof
  fix x s rest
  assume "length mk = 4 \<and> length x \<le> lim \<and> length x < 2 ^ 64" "live s"
    "concat s = client_frame 1 mk x @ rest"
  with readFrame_client [of s 1 mk x rest lim]
  show "\<exists>s'. ws_decode lim s = (Some x, s') \<and> concat s' = rest \<and> live s'"
    by (auto simp: ws_decode_def word_less_nat_alt)
qed

text \<open>A header that announces more than can be allocated makes the reader throw.\<close>

lemma readFrame_oversized:
  assumes "live s" "concat s = [0x81, 127] @ be_bytes 8 n @ rest" "n < 2 ^ 64" "lim < n"
  shows "fst (readFrame lim s) = FrThrow"
proof -
  from recv_all_live_Some [OF assms(1,2)] obtain s1 where
    s1: "recv_all s 2 = (Some [0x81, 127], s1)" "concat s1 = be_bytes 8 n @ rest" "live s1"
    by (auto simp: numeral_2_eq_2)
  from recv_all_be [OF s1(3,2)] assms(3) obtain s2 where
    s2: "recv_all s1 8 = (Some (be_bytes 8 n), s2)" "unat (be_word (be_bytes 8 n)) = n" by auto
  from s1 s2 assms(4) show ?thesis
    by (simp add: readFrame_def read_length_def Let_def)
qed

subsection \<open>The handshake\<close>

lemma extract_key_request:
  assumes "str_find ws_key_header req = Some (length pre)"
    and "req = pre @ ws_key_header @ spaces @ key @ crlf @ rest"
    and "\<forall>c \<in> set spaces. c = CHR '' ''" "key \<noteq> []" "hd key \<noteq> CHR '' ''" "CHR 0x0D \<notin> set key"
  shows "extract_key req = Some key"
proof -
  have hl: "length ws_key_header = 18" by (simp add: ws_key_header_def)
  have d1: "drop (length pre + 18) req = spaces @ key @ crlf @ rest"
    using assms(2) hl by simp
  have tw: "takeWhile (\<lambda>c. c = CHR '' '') (spaces @ key @ crlf @ rest) = spaces"
    using assms(3-5) by (cases key) (simp_all add: takeWhile_append2)
  have d2: "drop (length pre + 18 + length spaces) req = key @ crlf @ rest"
    using assms(2) hl by simp
  have f: "str_find crlf (key @ crlf @ rest) = Some (length key)" if "CHR 0x0D \<notin> set key" for key
    using that by (induction key) (auto simp: crlf_def)
  have "length pre + 18 + length spaces \<le> length req"
    using assms(2) hl by simp
  then have "str_find_from crlf req (length pre + 18 + length spaces)
      = Some (length pre + 18 + length spaces + length key)"
    using f [OF assms(6)] d2 by (simp add: str_find_from_def)
  with assms(1) d1 d2 tw show ?thesis
    by (simp add: extract_key_def Let_def)
qed

section \<open>Properties\<close>


definition demo_stream :: "byte list" where
  "demo_stream = concat (map (client_frame 1 [1, 2, 3, 4]) [''hi'', ''x''])"

definition demo_chunks :: inbound where
  "demo_chunks = (if demo_stream = [] then [] else [take 1 demo_stream] @ map (\<lambda>b. [b]) (drop 1 demo_stream))"

lemma demo_chunks: "live demo_chunks" "concat demo_chunks = demo_stream"
proof -
  have "concat (map (\<lambda>b. [b]) bs) = bs" for bs :: "byte list" by (induction bs) simp_all
  then show "concat demo_chunks = demo_stream" by (simp add: demo_chunks_def)
  show "live demo_chunks" by (auto simp: demo_chunks_def live_def)
qed


text \<open>
  What \<open>writeFrame\<close> puts on the wire is uniquely decodable: no frame is a prefix of
  another message's frames, and \<open>readFrame\<close> of the peer (the same format, unmasked) returns
  the payload for each of the three length forms.
\<close>

theorem server_frames_are_uniquely_decodable:
  assumes "length p < 2 ^ 31" "length q < 2 ^ 31" "frame_bytes p @ r = frame_bytes q @ r'"
  shows "p = q \<and> r = r'"
  by (rule server_frames.prefix_free [where lim = "max (length p) (length q)"]) (use assms in simp_all)

lemma server_frames_are_uniquely_decodable_witness:
  "frame_bytes ''hello'' @ [1] = frame_bytes ''hello'' @ [1] \<and> ''hello'' = ''hello''"
  using server_frames_are_uniquely_decodable [of "''hello''" "''hello''" "[1]" "[1]"] by simp

text \<open>
  The frame reader trusts the length a client announces: a frame header of ten bytes that
  claims more bytes than can be allocated makes \<open>readFrame\<close> throw before any payload arrives.
  (No caller catches it: the client thread is detached.)
\<close>

theorem oversized_frame_header_throws:
  assumes "live s" "concat s = [0x81, 127] @ be_bytes 8 n @ rest" "n < 2 ^ 64" "lim < n"
  shows "fst (readFrame lim s) = FrThrow"
  using assms by (rule readFrame_oversized)

lemma oversized_frame_header_throws_witness:
  "fst (readFrame (2 ^ 40) [[0x81, 127] @ be_bytes 8 (2 ^ 63)]) = FrThrow"
  by (rule oversized_frame_header_throws [where n = "2 ^ 63" and rest = "[]"]) (simp_all add: live_def)

text \<open>
  C33: the opening handshake answers a request that carries the key header with 101 and the
  Base64 of the SHA-1 of the key followed by the WebSocket GUID, and reports success exactly
  when the whole response was sent.
\<close>

theorem handshake_answers_with_the_accept_key:
  assumes "s = bytes_of req # s0" "req \<noteq> []" "length req \<le> 4095"
    and "req = pre @ ws_key_header @ spaces @ key @ crlf @ more"
    and "str_find ws_key_header req = Some (length pre)"
    and "\<forall>c \<in> set spaces. c = CHR '' ''" "key \<noteq> []" "hd key \<noteq> CHR '' ''" "CHR 0x0D \<notin> set key"
  shows "\<exists>ok resp. handshake send s = ((ok, bytes_of resp), s0) \<and>
    (ok \<longleftrightarrow> send (bytes_of resp) = int (length resp)) \<and>
    prefix (''HTTP/1.1 101 Switching Protocols'' @ crlf) resp \<and>
    suffix (''Sec-WebSocket-Accept: ''
      @ base64Encode (fips_sha1 (bytes_of (key @ ''258EAFA5-E914-47DA-95CA-C5AB0DC85B11'')))
      @ crlf @ crlf) resp"
proof -
  have "extract_key req = Some key"
    using extract_key_request [OF assms(5,4,6-9)] .
  moreover have "bytes_of req \<noteq> []" using assms(2) by (simp add: bytes_of_def)
  ultimately have "handshake send s =
      ((send (bytes_of (handshake_response key)) = int (length (handshake_response key)),
        bytes_of (handshake_response key)), s0)"
    using assms(1,3) by (simp add: handshake_def Let_def)
  moreover have "prefix (''HTTP/1.1 101 Switching Protocols'' @ crlf) (handshake_response key)"
    unfolding handshake_response_def Let_def append_assoc [symmetric] prefix_def by (metis append_assoc)
  moreover have "suffix (''Sec-WebSocket-Accept: ''
      @ base64Encode (fips_sha1 (bytes_of (key @ ''258EAFA5-E914-47DA-95CA-C5AB0DC85B11'')))
      @ crlf @ crlf) (handshake_response key)"
    unfolding handshake_response_def Let_def suffix_def sha1_fips ws_magic_def by (metis append_assoc)
  ultimately show ?thesis by blast
qed

definition demo_request :: string where
  "demo_request = ''GET / HTTP/1.1'' @ crlf @ ''Sec-WebSocket-Key: dGhl'' @ crlf @ crlf"

lemma handshake_answers_with_the_accept_key_witness:
  "\<exists>ok resp. handshake (\<lambda>b. 0) [bytes_of demo_request] = ((ok, bytes_of resp), []) \<and>
    (ok \<longleftrightarrow> (0::int) = int (length resp))"
proof -
  have "\<exists>ok resp. handshake (\<lambda>b. 0) [bytes_of demo_request] = ((ok, bytes_of resp), []) \<and>
    (ok \<longleftrightarrow> (\<lambda>b. 0) (bytes_of resp) = int (length resp)) \<and>
    prefix (''HTTP/1.1 101 Switching Protocols'' @ crlf) resp \<and>
    suffix (''Sec-WebSocket-Accept: ''
      @ base64Encode (fips_sha1 (bytes_of (''dGhl'' @ ''258EAFA5-E914-47DA-95CA-C5AB0DC85B11'')))
      @ crlf @ crlf) resp"
  proof (rule handshake_answers_with_the_accept_key [where req = demo_request
        and pre = "''GET / HTTP/1.1'' @ crlf" and spaces = "'' ''" and more = crlf])
    show "str_find ws_key_header demo_request = Some (length (''GET / HTTP/1.1'' @ crlf))"
      by code_simp
  qed (simp_all add: demo_request_def ws_key_header_def crlf_def)
  then show ?thesis by blast
qed

end
