(* ===== verification/Ws_Server.thy ===== *)
theory Ws_Server
  imports Ws_Frames
begin

text \<open>
  \<open>WsServer\<close> (src/server/WsServer.cpp): the accept thread, one detached thread per client,
  and \<open>stop\<close>, which other threads call. One step of \<open>ws_step\<close> is one critical section, one
  access to the atomic \<open>_running\<close>, one blocking call or one callback; any thread may take the
  next step. A client is in one phase from the moment \<open>accept\<close> returns its socket until its
  thread ends. \<open>accept\<close> may fail at any time, and the loop ends when it does. The callbacks are observed as actions and are assumed to return; an exception
  in a client thread ends the process, as it does in the source, where the thread is detached
  and nothing catches it. A socket is named by a number that stands for one connection.
\<close>

type_synonym conn = nat

datatype phase =
    Taken          \<comment> \<open>\<open>accept\<close> returned, the id is taken, not yet in \<open>_clients\<close>\<close>
  | Inserted       \<comment> \<open>in \<open>_clients\<close>, thread not yet created\<close>
  | Handshaking | Connecting
  | LoopHead | Reading | Leaving
  | Closing        \<comment> \<open>erased and closed, before the test of \<open>_onClose && _running\<close>\<close>
  | Done

datatype accept_state = AccIdle | AccBusy int | AccEnded

datatype stop_state = NotStopped | StopListen | StopClients | StopJoin | Stopped

record ws_sys =
  ws_running :: bool
  ws_listening :: bool
  ws_accept :: accept_state
  ws_stop :: stop_state
  ws_next_id :: int
  ws_clients :: "int \<Rightarrow> conn option"
  ws_threads :: "int \<Rightarrow> (conn \<times> phase) option"
  ws_crashed :: bool

datatype ws_act =
    Accept conn | Tau | OnConnect int | OnMessage int string | OnClose int
  | CloseSock conn | CloseListener | CloseAll "conn set" | Terminate

text \<open>The state right after \<open>start\<close>.\<close>

definition ws_started :: ws_sys where
  "ws_started = \<lparr>ws_running = True, ws_listening = True, ws_accept = AccIdle, ws_stop = NotStopped,
     ws_next_id = 0, ws_clients = Map.empty, ws_threads = Map.empty, ws_crashed = False\<rparr>"

definition set_phase :: "int \<Rightarrow> conn \<Rightarrow> phase \<Rightarrow> ws_sys \<Rightarrow> ws_sys" where
  "set_phase i s p w = w\<lparr>ws_threads := (ws_threads w)(i \<mapsto> (s, p))\<rparr>"

definition insert_client :: "int \<Rightarrow> conn \<Rightarrow> ws_sys \<Rightarrow> ws_sys" where
  "insert_client i s w = w\<lparr>ws_clients := (ws_clients w)(i \<mapsto> s)\<rparr>"

definition erase_client :: "int \<Rightarrow> ws_sys \<Rightarrow> ws_sys" where
  "erase_client i w = w\<lparr>ws_clients := (ws_clients w)(i := None)\<rparr>"

definition at_phase :: "ws_sys \<Rightarrow> int \<Rightarrow> conn \<Rightarrow> phase \<Rightarrow> bool" where
  "at_phase w i s p \<longleftrightarrow> ws_threads w i = Some (s, p) \<and> \<not> ws_crashed w"

text \<open>
  Where \<open>readFrame\<close> returned \<open>r\<close>: the next phase and what is observed, given the value of
  \<open>_running\<close> read afterwards.
\<close>

definition after_frame :: "bool \<Rightarrow> int \<Rightarrow> frame_result \<Rightarrow> phase \<times> ws_act" where
  "after_frame running i r =
     (case r of
        FrClosed \<Rightarrow> (Leaving, Tau)
      | FrThrow \<Rightarrow> (Done, Terminate)
      | FrMessage m \<Rightarrow>
          if \<not> running then (Leaving, Tau)
          else if m \<noteq> [] then (LoopHead, OnMessage i m)
          else (LoopHead, Tau))"

inductive ws_step :: "ws_sys \<Rightarrow> ws_act \<Rightarrow> ws_sys \<Rightarrow> bool" where
  \<comment> \<open>\<open>acceptLoop\<close>\<close>
  accept: "ws_accept w = AccIdle \<Longrightarrow> ws_listening w \<Longrightarrow> \<not> ws_crashed w \<Longrightarrow>
     \<forall>i p. ws_threads w i \<noteq> Some (s, p) \<Longrightarrow>
     ws_step w (Accept s)
       (set_phase (ws_next_id w) s Taken
         (w\<lparr>ws_accept := AccBusy (ws_next_id w), ws_next_id := ws_next_id w + 1\<rparr>))"
| accept_end: "ws_accept w = AccIdle \<Longrightarrow> \<not> ws_crashed w \<Longrightarrow>
     ws_step w Tau (w\<lparr>ws_accept := AccEnded\<rparr>)"
| insert: "ws_accept w = AccBusy i \<Longrightarrow> at_phase w i s Taken \<Longrightarrow>
     ws_step w Tau (set_phase i s Inserted (insert_client i s w))"
| spawn: "ws_accept w = AccBusy i \<Longrightarrow> at_phase w i s Inserted \<Longrightarrow>
     ws_step w Tau (set_phase i s Handshaking (w\<lparr>ws_accept := AccIdle\<rparr>))"
  \<comment> \<open>\<open>clientLoop\<close>\<close>
| handshake_failed: "at_phase w i s Handshaking \<Longrightarrow>
     ws_step w (CloseSock s) (set_phase i s Done (erase_client i w))"
| handshake_ok: "at_phase w i s Handshaking \<Longrightarrow> ws_step w Tau (set_phase i s Connecting w)"
| connect: "at_phase w i s Connecting \<Longrightarrow> ws_step w (OnConnect i) (set_phase i s LoopHead w)"
| loop_head: "at_phase w i s LoopHead \<Longrightarrow>
     ws_step w Tau (set_phase i s (if ws_running w then Reading else Leaving) w)"
| frame: "at_phase w i s Reading \<Longrightarrow> after_frame (ws_running w) i r = (p, a) \<Longrightarrow>
     ws_step w a (set_phase i s p (w\<lparr>ws_crashed := (r = FrThrow)\<rparr>))"
| leave: "at_phase w i s Leaving \<Longrightarrow>
     ws_step w (CloseSock s) (set_phase i s Closing (erase_client i w))"
| close_callback: "at_phase w i s Closing \<Longrightarrow>
     ws_step w (if ws_running w then OnClose i else Tau) (set_phase i s Done w)"
  \<comment> \<open>\<open>stop\<close>\<close>
| stop_begin: "ws_running w \<Longrightarrow> \<not> ws_crashed w \<Longrightarrow>
     ws_step w Tau (w\<lparr>ws_running := False, ws_stop := StopListen\<rparr>)"
| stop_listen: "ws_stop w = StopListen \<Longrightarrow> \<not> ws_crashed w \<Longrightarrow>
     ws_step w CloseListener (w\<lparr>ws_listening := False, ws_stop := StopClients\<rparr>)"
| stop_clients: "ws_stop w = StopClients \<Longrightarrow> \<not> ws_crashed w \<Longrightarrow>
     ws_step w (CloseAll (ran (ws_clients w))) (w\<lparr>ws_clients := Map.empty, ws_stop := StopJoin\<rparr>)"
| stop_join: "ws_stop w = StopJoin \<Longrightarrow> ws_accept w = AccEnded \<Longrightarrow> \<not> ws_crashed w \<Longrightarrow>
     ws_step w Tau (w\<lparr>ws_stop := Stopped\<rparr>)"

inductive ws_run :: "ws_act list \<Rightarrow> ws_sys \<Rightarrow> bool" where
  ws_run_nil: "ws_run [] ws_started"
| ws_run_snoc: "ws_run tr w \<Longrightarrow> ws_step w a w' \<Longrightarrow> ws_run (tr @ [a]) w'"

text \<open>
  \<open>send\<close> and \<open>broadcast\<close>: \<open>write s frame\<close> stands for the state change of \<open>writeFrame\<close> on one
  socket. The order of an \<open>unordered_map\<close> is unspecified, so \<open>broadcast\<close> takes the ids in the
  order \<open>ids\<close> the container enumerates.
\<close>

definition ws_send :: "(conn \<Rightarrow> byte list \<Rightarrow> 'w \<Rightarrow> 'w) \<Rightarrow> (int \<Rightarrow> conn option) \<Rightarrow> int \<Rightarrow> string \<Rightarrow> 'w \<Rightarrow> 'w" where
  "ws_send write clients i msg w =
     (case clients i of None \<Rightarrow> w | Some s \<Rightarrow> write s (frame_bytes msg) w)"

definition ws_broadcast ::
  "(conn \<Rightarrow> byte list \<Rightarrow> 'w \<Rightarrow> 'w) \<Rightarrow> (int \<Rightarrow> conn option) \<Rightarrow> int list \<Rightarrow> string \<Rightarrow> 'w \<Rightarrow> 'w" where
  "ws_broadcast write clients ids msg w =
     fold (\<lambda>s. write s (frame_bytes msg)) (List.map_filter clients ids) w"

section \<open>Invariants\<close>

definition closes_of :: "conn \<Rightarrow> ws_act \<Rightarrow> nat" where
  "closes_of s a = (case a of CloseSock s' \<Rightarrow> of_bool (s = s') | CloseAll S \<Rightarrow> of_bool (s \<in> S) | _ \<Rightarrow> 0)"

definition closes :: "ws_act list \<Rightarrow> conn \<Rightarrow> nat" where
  "closes tr s = sum_list (map (closes_of s) tr)"

lemma closes_simps [simp]:
  "closes [] s = 0" "closes (tr @ tr') s = closes tr s + closes tr' s"
  "closes (a # tr) s = closes_of s a + closes tr s"
  by (simp_all add: closes_def)

datatype callback_act = CbConnect | CbMessage string | CbClose

definition callback_of :: "int \<Rightarrow> ws_act \<Rightarrow> callback_act list" where
  "callback_of i a = (case a of
     OnConnect j \<Rightarrow> if i = j then [CbConnect] else []
   | OnMessage j m \<Rightarrow> if i = j then [CbMessage m] else []
   | OnClose j \<Rightarrow> if i = j then [CbClose] else []
   | _ \<Rightarrow> [])"

definition callbacks :: "int \<Rightarrow> ws_act list \<Rightarrow> callback_act list" where
  "callbacks i tr = concat (map (callback_of i) tr)"

lemma callbacks_simps [simp]:
  "callbacks i [] = []" "callbacks i (tr @ tr') = callbacks i tr @ callbacks i tr'"
  "callbacks i (a # tr) = callback_of i a @ callbacks i tr"
  by (simp_all add: callbacks_def)

text \<open>What a client has seen of the callbacks, per phase of its thread.\<close>

definition session :: "bool \<Rightarrow> callback_act list \<Rightarrow> bool" where
  "session closed cs \<longleftrightarrow>
     (\<exists>ms. [] \<notin> set ms \<and> cs = CbConnect # map CbMessage ms @ (if closed then [CbClose] else []))"

definition phase_callbacks :: "phase \<Rightarrow> callback_act list \<Rightarrow> bool" where
  "phase_callbacks p cs \<longleftrightarrow>
     (case p of
        Done \<Rightarrow> cs = [] \<or> session False cs \<or> session True cs
      | LoopHead \<Rightarrow> session False cs | Reading \<Rightarrow> session False cs
      | Leaving \<Rightarrow> session False cs | Closing \<Rightarrow> session False cs
      | _ \<Rightarrow> cs = [])"

lemma session_open: "session False [CbConnect]"
  by (simp add: session_def)

lemma session_message: "session False cs \<Longrightarrow> m \<noteq> [] \<Longrightarrow> session False (cs @ [CbMessage m])"
  unfolding session_def by (elim exE conjE, rule_tac x = "ms @ [m]" in exI) auto

lemma session_close: "session False cs \<Longrightarrow> session True (cs @ [CbClose])"
  unfolding session_def by auto

definition ws_inv :: "ws_act list \<Rightarrow> ws_sys \<Rightarrow> bool" where
  "ws_inv tr w \<longleftrightarrow>
     (\<forall>i s p. ws_threads w i = Some (s, p) \<longrightarrow> i < ws_next_id w \<and> phase_callbacks p (callbacks i tr)) \<and>
     (\<forall>i. ws_threads w i = None \<longrightarrow> callbacks i tr = []) \<and>
     (\<forall>i j s p q. ws_threads w i = Some (s, p) \<longrightarrow> ws_threads w j = Some (s, q) \<longrightarrow> i = j)"

lemma set_phase_sel [simp]:
  "ws_threads (set_phase i s p w) = (ws_threads w)(i \<mapsto> (s, p))"
  "ws_clients (set_phase i s p w) = ws_clients w" "ws_next_id (set_phase i s p w) = ws_next_id w"
  "ws_running (set_phase i s p w) = ws_running w" "ws_accept (set_phase i s p w) = ws_accept w"
  "ws_stop (set_phase i s p w) = ws_stop w" "ws_crashed (set_phase i s p w) = ws_crashed w"
  "ws_listening (set_phase i s p w) = ws_listening w"
  by (simp_all add: set_phase_def)

lemma client_map_sel [simp]:
  "ws_threads (insert_client i s w) = ws_threads w" "ws_threads (erase_client i w) = ws_threads w"
  "ws_next_id (insert_client i s w) = ws_next_id w" "ws_next_id (erase_client i w) = ws_next_id w"
  "ws_clients (insert_client i s w) = (ws_clients w)(i \<mapsto> s)"
  "ws_clients (erase_client i w) = (ws_clients w)(i := None)"
  by (simp_all add: insert_client_def erase_client_def)

text \<open>
  What one step does to the clients: a new client is \<open>Taken\<close>, one client moves to its next phase,
  or no client moves. Both invariants go through these three cases.
\<close>

fun phase_move :: "int \<Rightarrow> conn \<Rightarrow> phase \<Rightarrow> ws_act \<Rightarrow> phase \<Rightarrow> bool" where
  "phase_move i s Taken a q = (a = Tau \<and> q = Inserted)"
| "phase_move i s Inserted a q = (a = Tau \<and> q = Handshaking)"
| "phase_move i s Handshaking a q = (a = CloseSock s \<and> q = Done \<or> a = Tau \<and> q = Connecting)"
| "phase_move i s Connecting a q = (a = OnConnect i \<and> q = LoopHead)"
| "phase_move i s LoopHead a q = (a = Tau \<and> (q = Reading \<or> q = Leaving))"
| "phase_move i s Reading a q =
     (a = Tau \<and> (q = Leaving \<or> q = LoopHead) \<or> a = Terminate \<and> q = Done \<or>
      q = LoopHead \<and> (\<exists>m. a = OnMessage i m \<and> m \<noteq> []))"
| "phase_move i s Leaving a q = (a = CloseSock s \<and> q = Closing)"
| "phase_move i s Closing a q = ((a = OnClose i \<or> a = Tau) \<and> q = Done)"
| "phase_move i s Done a q = False"

definition owned :: "phase \<Rightarrow> bool" where
  "owned p \<longleftrightarrow> p \<noteq> Taken \<and> p \<noteq> Closing \<and> p \<noteq> Done"

definition client_step :: "ws_sys \<Rightarrow> ws_act \<Rightarrow> ws_sys \<Rightarrow> int \<Rightarrow> conn \<Rightarrow> phase \<Rightarrow> phase \<Rightarrow> bool" where
  "client_step w a w' i s p q \<longleftrightarrow>
     ws_threads w i = Some (s, p) \<and> ws_threads w' = (ws_threads w)(i \<mapsto> (s, q)) \<and>
     ws_next_id w' = ws_next_id w \<and> phase_move i s p a q \<and> (a = Terminate \<longrightarrow> ws_crashed w') \<and>
     (ws_clients w' = (ws_clients w)(i := if owned q then Some s else None) \<or>
      owned p = owned q \<and> ws_clients w' = ws_clients w \<or> a = Terminate)"

lemma after_frame_cases:
  assumes "after_frame running i r = (p, a)"
  shows "phase_move i s Reading a p \<and> (a = Terminate \<longleftrightarrow> r = FrThrow) \<and> (p = Done \<longleftrightarrow> a = Terminate)"
  using assms by (auto simp: after_frame_def split: frame_result.splits if_splits)

lemma ws_step_cases:
  assumes "ws_step w a w'"
  obtains (new) s where "a = Accept s" "\<forall>i p. ws_threads w i \<noteq> Some (s, p)"
      "ws_threads w' = (ws_threads w)(ws_next_id w \<mapsto> (s, Taken))"
      "ws_next_id w' = ws_next_id w + 1" "ws_clients w' = ws_clients w"
    | (client) i s p q where "client_step w a w' i s p q"
    | (other) "a = Tau \<or> a = CloseListener \<or> (\<exists>S. a = CloseAll S)" "ws_threads w' = ws_threads w"
      "ws_next_id w' = ws_next_id w" "(\<forall>S. a \<noteq> CloseAll S) \<longrightarrow> ws_clients w' = ws_clients w"
  using assms
proof (cases rule: ws_step.cases)
  case (frame i s r p)
  with after_frame_cases [OF frame(3), of s] have "client_step w a w' i s Reading p"
    by (auto simp: client_step_def at_phase_def owned_def)
  then show thesis by (rule client)
next
  case (close_callback i s)
  then have "client_step w a w' i s Closing Done"
    by (auto simp: client_step_def at_phase_def owned_def)
  then show thesis by (rule client)
next
  case (loop_head i s)
  then have "client_step w a w' i s LoopHead (if ws_running w then Reading else Leaving)"
    by (auto simp: client_step_def at_phase_def owned_def)
  then show thesis by (rule client)
qed (auto intro!: new client simp: client_step_def at_phase_def owned_def intro: other)

lemma phase_move_callbacks:
  assumes "phase_move i s p a q" "phase_callbacks p cs"
  shows "phase_callbacks q (cs @ callback_of i a)"
  using assms
  by (cases p; auto simp: phase_callbacks_def callback_of_def session_open session_message session_close)

lemma phase_move_others: "phase_move i s p a q \<Longrightarrow> j \<noteq> i \<Longrightarrow> callback_of j a = []"
  by (cases p) (auto simp: callback_of_def)

lemma ws_inv_fresh: "ws_inv tr w \<Longrightarrow> ws_threads w (ws_next_id w) = None"
  unfolding ws_inv_def by (cases "ws_threads w (ws_next_id w)") force+

lemma ws_inv_new:
  assumes "ws_inv tr w" "\<forall>i p. ws_threads w i \<noteq> Some (s, p)"
    and "ws_threads w' = (ws_threads w)(ws_next_id w \<mapsto> (s, Taken))" "ws_next_id w' = ws_next_id w + 1"
  shows "ws_inv (tr @ [Accept s]) w'"
proof -
  have none: "callback_of i (Accept s) = []" for i by (simp add: callback_of_def)
  have "callbacks (ws_next_id w) tr = []"
    using assms(1) ws_inv_fresh [OF assms(1)] unfolding ws_inv_def by blast
  moreover have "i < ws_next_id w + 1" if "ws_threads w i = Some (t, p)" for i t p
    using assms(1) that unfolding ws_inv_def by (meson less_add_one less_trans)
  ultimately show ?thesis
    using assms(1,2) unfolding ws_inv_def assms(3,4)
    by (auto simp: none phase_callbacks_def split: if_splits)
qed

lemma ws_inv_client:
  assumes "ws_inv tr w" "client_step w a w' i s p q"
  shows "ws_inv (tr @ [a]) w'"
proof -
  have st: "ws_threads w i = Some (s, p)" "ws_threads w' = (ws_threads w)(i \<mapsto> (s, q))"
    "ws_next_id w' = ws_next_id w" and mv: "phase_move i s p a q"
    using assms(2) unfolding client_step_def by blast+
  have "phase_callbacks p (callbacks i tr)" using assms(1) st(1) unfolding ws_inv_def by blast
  then have "phase_callbacks q (callbacks i tr @ callback_of i a)" using phase_move_callbacks [OF mv] by blast
  moreover have "callback_of j a = []" if "j \<noteq> i" for j using phase_move_others [OF mv] that by blast
  ultimately show ?thesis
    using assms(1) st unfolding ws_inv_def by (auto split: if_splits; blast)
qed

lemma ws_step_inv:
  assumes "ws_step w a w'" "ws_inv tr w"
  shows "ws_inv (tr @ [a]) w'"
  using assms(1)
proof (cases rule: ws_step_cases)
  case (new s)
  with ws_inv_new [OF assms(2)] show ?thesis by blast
next
  case (client i s p q)
  with ws_inv_client [OF assms(2)] show ?thesis by blast
next
  case other
  with assms(2) show ?thesis by (auto simp: ws_inv_def callback_of_def)
qed

lemma ws_run_inv: "ws_run tr w \<Longrightarrow> ws_inv tr w"
proof (induction rule: ws_run.induct)
  case ws_run_nil
  then show ?case by (simp add: ws_inv_def ws_started_def)
qed (blast intro: ws_step_inv)


subsection \<open>Who closes a socket\<close>

definition stop_closed :: "ws_act list \<Rightarrow> conn set" where
  "stop_closed tr = \<Union> {S. CloseAll S \<in> set tr}"

definition no_closeAll :: "ws_act list \<Rightarrow> bool" where
  "no_closeAll tr \<longleftrightarrow> (\<forall>S. CloseAll S \<notin> set tr)"

definition close_inv :: "ws_act list \<Rightarrow> ws_sys \<Rightarrow> bool" where
  "close_inv tr w \<longleftrightarrow>
     (\<forall>i s p. ws_threads w i = Some (s, p) \<longrightarrow>
        closes tr s = of_bool (p = Closing \<or> p = Done) \<and> (owned p \<longrightarrow> ws_clients w i = Some s) \<and>
        (\<not> owned p \<longrightarrow> ws_clients w i = None)) \<and>
     (\<forall>i. ws_threads w i = None \<longrightarrow> ws_clients w i = None) \<and>
     (\<forall>s. (\<forall>i p. ws_threads w i \<noteq> Some (s, p)) \<longrightarrow> closes tr s = 0)"

lemma phase_move_closes:
  assumes "phase_move i s p a q" "a \<noteq> Terminate"
  shows "closes_of s' a = of_bool (s' = s \<and> (q = Closing \<or> q = Done) \<and> \<not> (p = Closing \<or> p = Done))"
    and "p = Closing \<or> p = Done \<Longrightarrow> q = Closing \<or> q = Done"
  using assms by (cases p; auto simp: closes_of_def)+

lemma close_inv_client:
  assumes "ws_inv tr w" "close_inv tr w" "client_step w a w' i s p q" "a \<noteq> Terminate"
  shows "close_inv (tr @ [a]) w'"
proof -
  note st = assms(3) [unfolded client_step_def]
  have mv: "phase_move i s p a q" using st by blast
  note closes_a = phase_move_closes [OF mv assms(4)]
  have old: "ws_threads w i = Some (s, p)" and new: "ws_threads w' = (ws_threads w)(i \<mapsto> (s, q))"
    using st by blast+
  have own: "closes tr s = of_bool (p = Closing \<or> p = Done) \<and> ws_clients w i = (if owned p then Some s else None)"
    using assms(2) old unfolding close_inv_def by (cases "owned p") auto
  have cl: "ws_clients w' = (ws_clients w)(i := if owned q then Some s else None)"
    using st assms(4) conjunct2 [OF own] by (auto simp: fun_upd_idem simp del: fun_upd_apply)
  have other: "s' \<noteq> s" if "ws_threads w j = Some (s', r)" "j \<noteq> i" for j s' r
    using assms(1) old that unfolding ws_inv_def by blast
  have "closes (tr @ [a]) s' = of_bool (r = Closing \<or> r = Done) \<and>
      ws_clients w' j = (if owned r then Some s' else None)"
    if "ws_threads w' j = Some (s', r)" for j s' r
  proof (cases "j = i")
    case True
    with that new own cl closes_a show ?thesis by auto
  next
    case False
    with that new have "ws_threads w j = Some (s', r)" by simp
    with other [OF this False] assms(2) cl False show ?thesis
      unfolding close_inv_def by (auto simp: closes_a(1))
  qed
  moreover have "closes (tr @ [a]) s' = 0" if n: "\<forall>j r. ws_threads w' j \<noteq> Some (s', r)" for s'
  proof -
    have "s' \<noteq> s" using n [rule_format, of i q] new by auto
    moreover have "\<forall>j r. ws_threads w j \<noteq> Some (s', r)"
      using n new old \<open>s' \<noteq> s\<close> by (metis fst_conv fun_upd_other option.inject)
    ultimately show ?thesis using assms(2) by (simp add: close_inv_def closes_a(1))
  qed
  ultimately show ?thesis
    using assms(2) unfolding close_inv_def new cl by (auto split: if_splits)
qed

lemma close_inv_accept:
  assumes "close_inv tr w" "ws_threads w i = None" "closes tr s = 0"
    and "ws_threads w' = (ws_threads w)(i \<mapsto> (s, Taken))" "ws_clients w' = ws_clients w"
  shows "close_inv (tr @ [Accept s]) w'"
proof -
  have c: "ws_clients w i = None" and z: "closes_of s' (Accept s) = 0" for s'
    using assms(1,2) by (simp_all add: close_inv_def closes_of_def)
  have other: "closes tr s' = 0" if "\<forall>j r. ((ws_threads w)(i \<mapsto> (s, Taken))) j \<noteq> Some (s', r)" for s'
  proof -
    have "ws_threads w j \<noteq> Some (s', r)" for j r
      using that [rule_format, of j r] assms(2) by (cases "j = i") simp_all
    with assms(1) show ?thesis by (simp add: close_inv_def)
  qed
  show ?thesis
    unfolding close_inv_def assms(4,5) closes_simps z
    using assms(1-3) c other by (auto simp: close_inv_def owned_def)
qed

lemma ws_step_close_inv:
  assumes "ws_step w a w'" "\<not> ws_crashed w'" "\<And>S. a \<noteq> CloseAll S" "ws_inv tr w" "close_inv tr w"
  shows "close_inv (tr @ [a]) w'"
  using assms(1)
proof (cases rule: ws_step_cases)
  case (new s)
  then have "closes tr s = 0" using assms(5) unfolding close_inv_def by blast
  with new close_inv_accept [OF assms(5) ws_inv_fresh [OF assms(4)]] show ?thesis by blast
next
  case (client i s p q)
  moreover have "a \<noteq> Terminate" using client assms(2) by (auto simp: client_step_def)
  ultimately show ?thesis by (rule close_inv_client [OF assms(4,5)])
next
  case other
  with assms(3,5) show ?thesis by (auto simp: close_inv_def closes_of_def)
qed

lemma ws_step_crashed: "ws_step w a w' \<Longrightarrow> \<not> ws_crashed w"
  by (induction rule: ws_step.induct) (simp_all add: at_phase_def)

lemma ws_run_close_inv:
  "ws_run tr w \<Longrightarrow> no_closeAll tr \<Longrightarrow> \<not> ws_crashed w \<Longrightarrow> close_inv tr w"
proof (induction rule: ws_run.induct)
  case ws_run_nil
  then show ?case by (simp add: close_inv_def ws_started_def)
next
  case (ws_run_snoc tr w a w')
  from ws_run_snoc.prems(1) have "no_closeAll tr" "\<And>S. a \<noteq> CloseAll S"
    by (auto simp: no_closeAll_def)
  with ws_run_snoc ws_step_crashed ws_run_inv show ?case
    by (intro ws_step_close_inv) auto
qed

section \<open>Properties\<close>

text \<open>
  C9: whatever the interleaving of the accept thread, the client threads and \<open>stop\<close>, each
  client sees one well-formed session: nothing before its handshake has succeeded, then
  \<open>onConnect\<close> once, then its non-empty messages, then at most one \<open>onClose\<close> and nothing after
  it; and no two clients share an id or a connection.
\<close>

theorem each_client_sees_one_session:
  assumes "ws_run tr w"
  shows "(callbacks i tr = [] \<or>
      (\<exists>ms closed. [] \<notin> set ms \<and>
         callbacks i tr = CbConnect # map CbMessage ms @ (if closed then [CbClose] else []))) \<and>
    (ws_threads w i = Some (s, p) \<longrightarrow> ws_threads w j = Some (s, q) \<longrightarrow> i = j)"
proof -
  note inv = ws_run_inv [OF assms, unfolded ws_inv_def]
  have "callbacks i tr = [] \<or> session False (callbacks i tr) \<or> session True (callbacks i tr)"
  proof (cases "ws_threads w i")
    case None
    with inv show ?thesis by blast
  next
    case (Some sp)
    with inv have "phase_callbacks (snd sp) (callbacks i tr)" by (metis prod.collapse)
    then show ?thesis by (cases "snd sp") (auto simp: phase_callbacks_def)
  qed
  then show ?thesis using inv unfolding session_def by blast
qed

text \<open>A run of one client that connects, is stopped while it reads and then leaves.\<close>

definition demo_w :: "nat \<Rightarrow> ws_sys" where
  "demo_w n = foldl (\<lambda>w f. f w) ws_started (take n
     [\<lambda>w. set_phase 0 7 Taken (w\<lparr>ws_accept := AccBusy 0, ws_next_id := 1\<rparr>),
      \<lambda>w. set_phase 0 7 Inserted (insert_client 0 7 w),
      \<lambda>w. set_phase 0 7 Handshaking (w\<lparr>ws_accept := AccIdle\<rparr>),
      set_phase 0 7 Connecting,
      set_phase 0 7 LoopHead,
      set_phase 0 7 Reading,
      \<lambda>w. w\<lparr>ws_running := False, ws_stop := StopListen\<rparr>,
      \<lambda>w. w\<lparr>ws_listening := False, ws_stop := StopClients\<rparr>,
      \<lambda>w. w\<lparr>ws_clients := Map.empty, ws_stop := StopJoin\<rparr>,
      \<lambda>w. set_phase 0 7 Leaving (w\<lparr>ws_crashed := False\<rparr>),
      \<lambda>w. set_phase 0 7 Closing (erase_client 0 w)])"

lemmas demo_w_simps =
  demo_w_def ws_started_def set_phase_def insert_client_def erase_client_def at_phase_def numeral_eq_Suc

lemma demo_run_connected: "ws_run [Accept 7, Tau, Tau, Tau, OnConnect 0] (demo_w 5)"
proof -
  have "ws_step (demo_w 0) (Accept 7) (demo_w 1)"
    using ws_step.accept [of "demo_w 0" 7] by (simp add: demo_w_simps)
  moreover have "ws_step (demo_w 1) Tau (demo_w 2)"
    using ws_step.insert [of "demo_w 1" 0 7] by (simp add: demo_w_simps)
  moreover have "ws_step (demo_w 2) Tau (demo_w 3)"
    using ws_step.spawn [of "demo_w 2" 0 7] by (simp add: demo_w_simps)
  moreover have "ws_step (demo_w 3) Tau (demo_w 4)"
    using ws_step.handshake_ok [of "demo_w 3" 0 7] by (simp add: demo_w_simps)
  moreover have "ws_step (demo_w 4) (OnConnect 0) (demo_w 5)"
    using ws_step.connect [of "demo_w 4" 0 7] by (simp add: demo_w_simps)
  moreover have "ws_run [] (demo_w 0)" by (simp add: demo_w_def ws_run_nil)
  ultimately have "ws_run ((((([] @ [Accept 7]) @ [Tau]) @ [Tau]) @ [Tau]) @ [OnConnect 0]) (demo_w 5)"
    by (blast intro: ws_run_snoc)
  then show ?thesis by simp
qed

lemma each_client_sees_one_session_witness:
  "ws_run [Accept 7, Tau, Tau, Tau, OnConnect 0] (demo_w 5) \<and>
   (\<exists>ms closed. callbacks 0 [Accept 7, Tau, Tau, Tau, OnConnect 0] =
      CbConnect # map CbMessage ms @ (if closed then [CbClose] else []))"
  using each_client_sees_one_session [OF demo_run_connected, of 0] demo_run_connected
  by (auto simp: callback_of_def)

text \<open>
  C25: as long as \<open>stop\<close> has not closed the clients and no client thread has died of an
  exception, the client map holds exactly the clients between their insertion and their
  departure, and a socket has been closed exactly once if its client left and never otherwise:
  no leak and no double close.
\<close>

theorem sockets_are_closed_exactly_once:
  assumes "ws_run tr w" "\<forall>S. CloseAll S \<notin> set tr" "\<not> ws_crashed w" "ws_threads w i = Some (s, p)"
  shows "closes tr s = (if p = Closing \<or> p = Done then 1 else 0) \<and>
    (ws_clients w i = (if p = Taken \<or> p = Closing \<or> p = Done then None else Some s))"
  using ws_run_close_inv [of tr w] assms
  by (auto simp: close_inv_def no_closeAll_def owned_def)

lemma sockets_are_closed_exactly_once_witness:
  "closes [Accept 7, Tau, Tau, Tau, OnConnect 0] 7 = 0 \<and> ws_clients (demo_w 5) 0 = Some 7"
  using sockets_are_closed_exactly_once [OF demo_run_connected, of 0 7 LoopHead]
  by (simp add: demo_w_simps)

text \<open>
  With \<open>stop\<close> the exactly-once discipline is lost. There is a run in which \<open>stop\<close> closes
  the socket of a connected client and the client's thread, which wakes up because of that,
  closes the same socket a second time (by then the descriptor may belong to somebody else).
\<close>

theorem stop_can_close_a_socket_twice:
  "\<exists>tr w s. ws_run tr w \<and> \<not> ws_crashed w \<and> CloseAll {s} \<in> set tr \<and> closes tr s = 2"
proof -
  let ?tr = "[Accept 7, Tau, Tau, Tau, OnConnect 0]"
  have "ws_step (demo_w 5) Tau (demo_w 6)"
    using ws_step.loop_head [of "demo_w 5" 0 7] by (simp add: demo_w_simps)
  moreover have "ws_step (demo_w 6) Tau (demo_w 7)"
    using ws_step.stop_begin [of "demo_w 6"] by (simp add: demo_w_simps)
  moreover have "ws_step (demo_w 7) CloseListener (demo_w 8)"
    using ws_step.stop_listen [of "demo_w 7"] by (simp add: demo_w_simps)
  moreover have "ws_step (demo_w 8) (CloseAll {7}) (demo_w 9)"
    using ws_step.stop_clients [of "demo_w 8"] by (simp add: demo_w_simps)
  moreover have "ws_step (demo_w 9) Tau (demo_w 10)"
    using ws_step.frame [of "demo_w 9" 0 7 FrClosed Leaving Tau]
    by (simp add: demo_w_simps after_frame_def)
  moreover have "ws_step (demo_w 10) (CloseSock 7) (demo_w 11)"
    using ws_step.leave [of "demo_w 10" 0 7] by (simp add: demo_w_simps)
  ultimately have "ws_run ((((((?tr @ [Tau]) @ [Tau]) @ [CloseListener]) @ [CloseAll {7}]) @ [Tau])
      @ [CloseSock 7]) (demo_w 11)"
    using demo_run_connected by (blast intro: ws_run_snoc)
  moreover have "\<not> ws_crashed (demo_w 11)" by (simp add: demo_w_simps)
  ultimately show ?thesis
    by (intro exI [of _ "(((((?tr @ [Tau]) @ [Tau]) @ [CloseListener]) @ [CloseAll {7}]) @ [Tau])
      @ [CloseSock 7]"] exI [of _ "demo_w 11"] exI [of _ 7]) (simp add: closes_of_def)
qed

end
