(* ===== verification/Mqtt.thy ===== *)
theory Mqtt
  imports Event_Bus
begin

text \<open>
  \<open>MQTTClient\<close> (src/mqtt) and \<open>MqttService\<close> (src/services/MqttService.cpp): the packets the
  client builds, the receive loop, the parser that turns a PUBLISH packet into bus events, and
  the two bus handlers of the service. The operating system is an argument: \<open>send\<close> gives the
  number of bytes it accepts of a packet, the inbound stream is the socket model of the prelude
  and the outcomes of \<open>socket\<close> and \<open>connect\<close> are booleans. The output to the console is left
  out. The static packet id is part of the client's state (the program has one client).
\<close>

section \<open>Packets\<close>

type_synonym u16 = "16 word"

record mqtt_client =
  mc_id :: string
  mc_connected :: bool
  mc_running :: bool
  mc_pid :: u16

definition mqtt_new :: "string \<Rightarrow> mqtt_client" where
  "mqtt_new cid = \<lparr>mc_id = cid, mc_connected = False, mc_running = False, mc_pid = 1\<rparr>"

definition mqtt_encodeString :: "string \<Rightarrow> byte list" where
  "mqtt_encodeString s = [of_nat (length s div 256), of_nat (length s)] @ bytes_of s"

definition connect_packet :: "string \<Rightarrow> byte list" where
  "connect_packet cid =
     (let vh = [0x00, 0x04] @ bytes_of ''MQTT'' @ [0x04, 0x02] @ [0x00, 0x3C] @ mqtt_encodeString cid
      in 0x10 # of_nat (length vh) # vh)"

definition subscribe_packet :: "u16 \<Rightarrow> string \<Rightarrow> byte list" where
  "subscribe_packet pid topic =
     (let body = [ucast (drop_bit 8 pid), ucast (pid AND 0xFF)] @ mqtt_encodeString topic @ [0x00]
      in 0x82 # of_nat (length body) # body)"

definition publish_packet :: "string \<Rightarrow> string \<Rightarrow> byte list" where
  "publish_packet topic payload =
     (let body = mqtt_encodeString topic @ bytes_of payload
      in 0x30 # of_nat (length body) # body)"

definition ping_packet :: "byte list" where
  "ping_packet = [0xC0, 0x00]"

definition sendPacket :: "(byte list \<Rightarrow> int) \<Rightarrow> byte list \<Rightarrow> bool" where
  "sendPacket send p = (send p > 0)"

text \<open>The result, the packets handed to \<open>send\<close> and the client.\<close>

definition mqtt_connect ::
  "bool \<Rightarrow> bool \<Rightarrow> mqtt_client \<Rightarrow> bool \<times> byte list list \<times> mqtt_client" where
  "mqtt_connect socket_ok connect_ok c =
     (if \<not> socket_ok then (False, [], c)
      else if \<not> connect_ok then (False, [], c)
      else (True, [connect_packet (mc_id c)], c\<lparr>mc_connected := True, mc_running := True\<rparr>))"

definition mqtt_disconnect :: "mqtt_client \<Rightarrow> byte list list \<times> mqtt_client" where
  "mqtt_disconnect c = ([], c\<lparr>mc_running := False, mc_connected := False\<rparr>)"

definition mqtt_subscribe ::
  "(byte list \<Rightarrow> int) \<Rightarrow> string \<Rightarrow> mqtt_client \<Rightarrow> bool \<times> byte list list \<times> mqtt_client" where
  "mqtt_subscribe send topic c =
     (let pkt = subscribe_packet (mc_pid c) topic
      in (sendPacket send pkt, [pkt], c\<lparr>mc_pid := mc_pid c + 1\<rparr>))"

definition mqtt_publish ::
  "(byte list \<Rightarrow> int) \<Rightarrow> string \<Rightarrow> string \<Rightarrow> mqtt_client \<Rightarrow> bool \<times> byte list list \<times> mqtt_client" where
  "mqtt_publish send topic payload c =
     (let pkt = publish_packet topic payload in (sendPacket send pkt, [pkt], c))"

text \<open>
  One round of the keep-alive loop: \<open>flags\<close> are the values of \<open>running\<close> the loop reads, one
  per second, and the last one decides.
\<close>

fun ping_wait :: "nat \<Rightarrow> bool list \<Rightarrow> bool list" where
  "ping_wait 0 fs = fs"
| "ping_wait (Suc k) (True # fs) = ping_wait k fs"
| "ping_wait (Suc k) (False # fs) = fs"
| "ping_wait (Suc k) [] = []"

definition ping_round :: "bool list \<Rightarrow> byte list list \<times> bool list" where
  "ping_round flags =
     (case flags of
        True # fs \<Rightarrow>
          (case ping_wait 45 fs of
             True # rest \<Rightarrow> ([ping_packet], rest)
           | rest \<Rightarrow> ([], []))
      | _ \<Rightarrow> ([], []))"

section \<open>Receiving\<close>

text \<open>
  \<open>handlePacket\<close>: the events it publishes. Reading \<open>data[i]\<close> past the end is undefined.
\<close>

definition handlePacket :: "byte list \<Rightarrow> event list outcome" where
  "handlePacket data =
     (if data = [] then Inr []
      else if drop_bit 4 (data ! 0) = 3 then
        (if length data \<le> 1 then Inl Undefined
         else if 2 + 2 > length data then Inr []
         else
           let topic_len = unat (data ! 2) * 256 + unat (data ! 3)
           in if 4 + topic_len > length data then Inr []
              else if 4 \<ge> length data then Inl Undefined
              else
                let topic = str_of (take topic_len (drop 4 data));
                    payload = str_of (drop (4 + topic_len) data)
                in Inr [\<lparr>ev_name = ''mqtt:'' @ topic, ev_data = AnyString payload\<rparr>,
                        \<lparr>ev_name = ''mqtt:message'', ev_data = AnyPair topic payload\<rparr>])
      else Inr [])"

text \<open>
  The receive loop on a socket that is never told to stop: every successful \<open>recv\<close> of up to
  1024 bytes is handed to \<open>handlePacket\<close> as if it were one packet. The result is the events
  published until the server closes the connection.
\<close>

lemma sock_recv_shrinks:
  "(d, s') = sock_recv s n \<Longrightarrow> d \<noteq> [] \<Longrightarrow>
     length (concat s') + length s' < length (concat s) + length s"
  by (cases s) (auto split: if_splits)

function receiveLoop :: "inbound \<Rightarrow> event list outcome" where
  "receiveLoop s =
     (case sock_recv s 1024 of (d, s') \<Rightarrow>
        if d = [] then Inr []
        else bind_exn (handlePacket d) (\<lambda>es. bind_exn (receiveLoop s') (\<lambda>es'. Inr (es @ es'))))"
  by pat_completeness auto
termination
  by (relation "measure (\<lambda>s. length (concat s) + length s)")
    (simp_all del: length_concat add: sock_recv_shrinks)

declare receiveLoop.simps [simp del]

text \<open>
  The same loop with everything else that ends or delays it: each round reads \<open>running\<close> and gets
  one result of \<open>recv\<close>. Behind the last round the thread waits.
\<close>

datatype recv_result = Received "byte list" | ClosedByPeer | WouldBlock | RecvFailed

fun receive_rounds :: "(bool \<times> recv_result) list \<Rightarrow> mqtt_client \<Rightarrow> event list outcome \<times> mqtt_client" where
  "receive_rounds [] c = (Inr [], c)"
| "receive_rounds ((run, r) # rs) c =
     (if \<not> run then (Inr [], c)
      else case r of
        Received d \<Rightarrow>
          (case handlePacket d of
             Inl x \<Rightarrow> (Inl x, c)
           | Inr es \<Rightarrow> (case receive_rounds rs c of (r', c') \<Rightarrow> (bind_exn r' (\<lambda>es'. Inr (es @ es')), c')))
      | ClosedByPeer \<Rightarrow> (Inr [], c\<lparr>mc_connected := False\<rparr>)
      | WouldBlock \<Rightarrow> receive_rounds rs c
      | RecvFailed \<Rightarrow> (Inr [], c))"

section \<open>MqttService\<close>

text \<open>
  The handlers of \<open>mqtt:event\<close> and \<open>mqtt:subscribe\<close>: the event to publish, and the topic to
  subscribe to. A payload of another type is ignored.
\<close>

definition on_mqtt_event :: "event \<Rightarrow> event option" where
  "on_mqtt_event e =
     (case ev_data e of
        AnyString str \<Rightarrow>
          Some (case chr_find CHR '' '' str of
                  Some pos \<Rightarrow> \<lparr>ev_name = take pos str, ev_data = AnyString (drop (pos + 1) str)\<rparr>
                | None \<Rightarrow> \<lparr>ev_name = str, ev_data = AnyString []\<rparr>)
      | _ \<Rightarrow> None)"

definition on_mqtt_subscribe :: "event \<Rightarrow> string option" where
  "on_mqtt_subscribe e = (case ev_data e of AnyString topic \<Rightarrow> Some topic | _ \<Rightarrow> None)"

section \<open>Lemmas\<close>

lemma length_encodeString [simp]: "length (mqtt_encodeString s) = length s + 2"
  by (simp add: mqtt_encodeString_def)

lemma topic_length_bytes:
  "n < 65536 \<Longrightarrow> unat (of_nat (n div 256) :: byte) * 256 + unat (of_nat n :: byte) = n"
  by simp

text \<open>
  A PUBLISH packet as the parser sees it, with anything behind it in the same \<open>recv\<close>.
\<close>

lemma handlePacket_publish:
  assumes "topic \<noteq> []" "length topic < 65536"
  shows "handlePacket (publish_packet topic payload @ rest) =
     Inr [\<lparr>ev_name = ''mqtt:'' @ topic, ev_data = AnyString (payload @ str_of rest)\<rparr>,
          \<lparr>ev_name = ''mqtt:message'', ev_data = AnyPair topic (payload @ str_of rest)\<rparr>]"
proof -
  have "(drop_bit 4 0x30 :: byte) = 3" by simp
  moreover have "str_of (bytes_of payload @ rest) = payload @ str_of rest"
    by (simp add: str_of_def bytes_of_def comp_def)
  moreover have "drop (4 + n) (a # b # c # d # xs) = drop n xs" for n and a b c d :: byte and xs
    by (simp add: eval_nat_numeral)
  ultimately show ?thesis
    using assms
    by (simp add: handlePacket_def publish_packet_def mqtt_encodeString_def Let_def
        topic_length_bytes del: unat_byte_of_nat)
qed

text \<open>
  How a receiver that follows MQTT 3.1.1 (section 2.2.3) measures a packet: the remaining
  length is a sequence of up to four bytes of seven bits, least significant first.
\<close>

fun remaining_length :: "nat \<Rightarrow> byte list \<Rightarrow> (nat \<times> nat) option" where
  "remaining_length 0 bs = None"
| "remaining_length (Suc k) [] = None"
| "remaining_length (Suc k) (b # bs) =
     (if unat b < 128 then Some (unat b, 1)
      else case remaining_length k bs of
             None \<Rightarrow> None
           | Some (v, n) \<Rightarrow> Some (unat b - 128 + 128 * v, Suc n))"

definition packet_size :: "byte list \<Rightarrow> nat option" where
  "packet_size p = map_option (\<lambda>(v, n). 1 + n + v) (remaining_length 4 (tl p))"

lemma remaining_length_two:
  assumes "h < 128"
  shows "remaining_length 4 (of_nat n # of_nat h # rest) =
      (if n mod 256 < 128 then Some (n mod 256, 1) else Some (n mod 256 - 128 + 128 * h, 2))"
proof -
  have 4: "(4::nat) = Suc (Suc (Suc (Suc 0)))" by simp
  have "h mod 256 = h" using assms by simp
  then show ?thesis unfolding 4 remaining_length.simps unat_byte_of_nat using assms by simp
qed

lemma mod_256_small: "n mod 256 < 128 \<Longrightarrow> (n mod 256 = n) = (n < (128::nat))"
proof (rule iffI)
  assume "n mod 256 < 128" and e: "n mod 256 = n"
  then show "n < 128" by (simp only: e)
qed simp

lemma mod_256_large: "\<not> n mod 256 < 128 \<Longrightarrow> 128 \<le> (n::nat)"
  by (rule ccontr) simp

text \<open>The number of bytes counted never reaches the length when the first byte continues.\<close>

lemma two_byte_length_short:
  assumes "\<not> b mod 256 < 128" "256 * h + 2 \<le> (b::nat)"
  shows "3 + (b mod 256 - 128 + 128 * h) \<noteq> 2 + b"
proof -
  have m: "b mod 256 < 256" "b mod 256 \<le> b" by simp_all
  with assms show ?thesis by (cases "h = 0") linarith+
qed

lemma publish_packet_size:
  assumes "length topic < 32768"
  shows "packet_size (publish_packet topic payload) = Some (length (publish_packet topic payload))
     \<longleftrightarrow> length topic + length payload + 2 < 128"
proof -
  let ?b = "length topic + 2 + length payload"
  let ?hi = "length topic div 256"
  let ?rest = "of_nat (length topic) # bytes_of topic @ bytes_of payload"
  have p: "publish_packet topic payload = 0x30 # of_nat ?b # of_nat ?hi # ?rest"
    by (simp add: publish_packet_def mqtt_encodeString_def Let_def ac_simps)
  have hi: "?hi < 128" using assms by (simp add: less_mult_imp_div_less)
  have 4: "remaining_length 4 (of_nat ?b # of_nat ?hi # ?rest) =
      (if ?b mod 256 < 128 then Some (?b mod 256, 1) else Some (?b mod 256 - 128 + 128 * ?hi, 2))"
    by (rule remaining_length_two [OF hi])
  have "length topic = 256 * ?hi + length topic mod 256" by simp
  then have big: "256 * ?hi + 2 \<le> ?b" by linarith
  show ?thesis
  proof (cases "?b mod 256 < 128")
    case True
    then have "packet_size (publish_packet topic payload) = Some (2 + ?b mod 256)"
      unfolding packet_size_def p list.sel 4 by simp
    moreover have "?b mod 256 = ?b \<longleftrightarrow> ?b < 128"
      using mod_256_small [OF True] .
    ultimately show ?thesis unfolding p by (auto simp: ac_simps)
  next
    case False
    then have "128 \<le> ?b" by (rule mod_256_large)
    moreover have "packet_size (publish_packet topic payload) = Some (3 + (?b mod 256 - 128 + 128 * ?hi))"
      unfolding packet_size_def p list.sel 4 using False by simp
    moreover note two_byte_length_short [OF False big]
    ultimately show ?thesis unfolding p by (simp add: ac_simps)
  qed
qed

lemma receiveLoop_Nil [simp]: "receiveLoop [] = Inr []"
  by (simp add: receiveLoop.simps)

text \<open>A chunk that fits into the buffer.\<close>

lemma receiveLoop_chunk:
  "c \<noteq> [] \<Longrightarrow> length c \<le> 1024 \<Longrightarrow> receiveLoop (c # cs) =
     bind_exn (handlePacket c) (\<lambda>es. bind_exn (receiveLoop cs) (\<lambda>es'. Inr (es @ es')))"
  by (simp add: receiveLoop.simps [of "c # cs"])

lemma publish_packet_not_Nil [simp]: "publish_packet t p \<noteq> []"
  by (simp add: publish_packet_def Let_def)

definition message_events :: "string \<Rightarrow> string \<Rightarrow> event list" where
  "message_events topic payload =
     [\<lparr>ev_name = ''mqtt:'' @ topic, ev_data = AnyString payload\<rparr>,
      \<lparr>ev_name = ''mqtt:message'', ev_data = AnyPair topic payload\<rparr>]"

section \<open>Properties\<close>

text \<open>
  C40: what \<open>publish\<close> sends, \<open>handlePacket\<close> of the receiver reads back: a PUBLISH packet of any
  payload (also one too long for its length byte) that arrives in one \<open>recv\<close> becomes exactly
  the two bus events, the one named after the topic and the generic one.
\<close>

theorem published_packets_are_parsed_back:
  assumes "topic \<noteq> []" "length topic < 65536"
  shows "mqtt_publish send topic payload c =
      (send (publish_packet topic payload) > 0, [publish_packet topic payload], c) \<and>
    handlePacket (publish_packet topic payload) = Inr (message_events topic payload)"
  using handlePacket_publish [OF assms, of payload "[]"]
  by (simp add: mqtt_publish_def sendPacket_def Let_def message_events_def str_of_def)

lemma published_packets_are_parsed_back_witness:
  "handlePacket (publish_packet ''a/b'' ''on'') = Inr (message_events ''a/b'' ''on'')"
  using published_packets_are_parsed_back [of "''a/b''" "\<lambda>p. 1" "''on''" "mqtt_new ''x''"] by simp

text \<open>
  The length byte. Measured as MQTT 3.1.1 prescribes, a PUBLISH packet has the size its
  header announces exactly when topic and payload together stay below 126 bytes; every larger
  packet is misread by a conforming broker.
\<close>

theorem remaining_length_is_right_iff_short:
  assumes "length topic < 32768"
  shows "packet_size (publish_packet topic payload) = Some (length (publish_packet topic payload))
     \<longleftrightarrow> length topic + length payload < 126"
  using publish_packet_size [OF assms, of payload] by linarith

lemma remaining_length_is_right_iff_short_witness:
  "packet_size (publish_packet ''t'' (replicate 200 CHR ''x''))
     \<noteq> Some (length (publish_packet ''t'' (replicate 200 CHR ''x'')))"
  using remaining_length_is_right_iff_short [of "''t''" "replicate 200 CHR ''x''"] by simp

text \<open>
  The receive loop takes one \<open>recv\<close> for one packet. Two messages that arrive separately
  are both published; the same bytes in one piece publish only the first, with the second
  packet appended to its payload.
\<close>

theorem coalesced_packets_are_merged:
  assumes "t1 \<noteq> []" "t2 \<noteq> []" "length t1 < 65536" "length t2 < 65536"
    and "length (publish_packet t1 p1) + length (publish_packet t2 p2) \<le> 1024"
  shows "receiveLoop [publish_packet t1 p1, publish_packet t2 p2] =
      Inr (message_events t1 p1 @ message_events t2 p2) \<and>
    receiveLoop [publish_packet t1 p1 @ publish_packet t2 p2] =
      Inr (message_events t1 (p1 @ str_of (publish_packet t2 p2)))"
proof -
  have "str_of [] = []" by (simp add: str_of_def)
  with handlePacket_publish [OF assms(1,3), of p1 "[]"] handlePacket_publish [OF assms(2,4), of p2 "[]"]
    handlePacket_publish [OF assms(1,3), of p1 "publish_packet t2 p2"] assms(5)
  show ?thesis by (simp add: receiveLoop_chunk message_events_def)
qed

lemma coalesced_packets_are_merged_witness:
  "receiveLoop [publish_packet ''a'' ''1'' @ publish_packet ''b'' ''2''] =
     Inr (message_events ''a'' (''1'' @ str_of (publish_packet ''b'' ''2'')))"
proof -
  have "length (publish_packet ''a'' ''1'') + length (publish_packet ''b'' ''2'') \<le> 1024"
    by (simp add: publish_packet_def Let_def)
  with coalesced_packets_are_merged [of "''a''" "''b''" "''1''" "''2''"] show ?thesis by simp
qed

text \<open>The two views of the loop: pieces that arrive until the peer closes.\<close>

lemma receive_rounds_chunks:
  assumes "list_all (\<lambda>d. d \<noteq> [] \<and> length d \<le> 1024) ds" "receiveLoop ds = Inr es"
  shows "receive_rounds (map (\<lambda>d. (True, Received d)) ds @ [(True, ClosedByPeer)]) c = (Inr es, c\<lparr>mc_connected := False\<rparr>)"
  using assms
proof (induction ds arbitrary: es)
  case (Cons d ds)
  then obtain es1 es2 where "handlePacket d = Inr es1" "receiveLoop ds = Inr es2" "es = es1 @ es2"
    by (auto simp: receiveLoop_chunk bind_exn_Inr)
  with Cons show ?case by simp
qed simp

text \<open>
  A client whose receive loop has ended on an error still says it is connected, as long as nobody
  disconnects: only the close of the peer is noticed.
\<close>

theorem failed_receive_stays_connected:
  assumes "receive_rounds rs c = (r, c')" "mc_connected c"
  shows "mc_connected c' \<longleftrightarrow> c' = c" and "(True, ClosedByPeer) \<notin> set rs \<Longrightarrow> mc_connected c'"
proof -
  have "(c' = c \<or> c' = c\<lparr>mc_connected := False\<rparr>) \<and> ((True, ClosedByPeer) \<notin> set rs \<longrightarrow> c' = c)"
    using assms(1)
    by (induction rs c arbitrary: r rule: receive_rounds.induct)
      (auto split: if_splits recv_result.splits sum.splits prod.splits)
  with assms(2) show "mc_connected c' \<longleftrightarrow> c' = c" "(True, ClosedByPeer) \<notin> set rs \<Longrightarrow> mc_connected c'" by auto
qed

end
