(* ===== verification/Ws_Service.thy ===== *)
theory Ws_Service
  imports Mqtt Ws_Server
begin

text \<open>
  \<open>WsService\<close> (src/services/WsService.cpp): the bridge between MQTT and the WebSocket clients.
  Clients subscribe with JSON commands; two maps, from clients to topic filters and back,
  are kept in step; an MQTT message is sent to the clients whose filters match. Every handler
  holds the mutex while it touches the maps, so a handler is one step.
\<close>

section \<open>Topic filters\<close>

text \<open>The loop of \<open>topicMatches\<close>; the arguments are what is left of the filter and the topic.\<close>

fun topicMatches :: "string \<Rightarrow> string \<Rightarrow> bool" where
  "topicMatches [] ts = (ts = [])"
| "topicMatches (f # fs) [] = (f = CHR ''/'' \<and> fs \<noteq> [] \<and> hd fs = CHR ''#'')"
| "topicMatches (f # fs) (t # ts) =
     (if f = CHR ''#'' then True
      else if f = CHR ''+'' then topicMatches fs (dropWhile (\<lambda>c. c \<noteq> CHR ''/'') (t # ts))
      else if f = t then topicMatches fs ts
      else False)"

section \<open>The service\<close>

record ws_service =
  clientSubs :: "int \<Rightarrow> string set option"
  filterClients :: "string \<Rightarrow> int set option"

definition ws_service_new :: ws_service where
  "ws_service_new = \<lparr>clientSubs = Map.empty, filterClients = Map.empty\<rparr>"

text \<open>\<open>operator[]\<close> of a map of sets: an absent key is inserted with the empty set.\<close>

definition entry :: "('k \<Rightarrow> 'a set option) \<Rightarrow> 'k \<Rightarrow> 'a set" where
  "entry m k = (case m k of None \<Rightarrow> {} | Some s \<Rightarrow> s)"

definition svc_subscribe :: "int \<Rightarrow> string \<Rightarrow> ws_service \<Rightarrow> ws_service" where
  "svc_subscribe c topic v =
     v\<lparr>clientSubs := (clientSubs v)(c \<mapsto> insert topic (entry (clientSubs v) c)),
       filterClients := (filterClients v)(topic \<mapsto> insert c (entry (filterClients v) topic))\<rparr>"

text \<open>\<open>_filterClients[f].erase(c); if (_filterClients[f].empty()) _filterClients.erase(f);\<close>\<close>

definition drop_client :: "int \<Rightarrow> string \<Rightarrow> (string \<Rightarrow> int set option) \<Rightarrow> string \<Rightarrow> int set option" where
  "drop_client c f m =
     (let s = entry m f - {c} in if s = {} then m(f := None) else m(f \<mapsto> s))"

definition svc_unsubscribe :: "int \<Rightarrow> string \<Rightarrow> ws_service \<Rightarrow> ws_service" where
  "svc_unsubscribe c topic v =
     v\<lparr>clientSubs := (clientSubs v)(c \<mapsto> entry (clientSubs v) c - {topic}),
       filterClients := drop_client c topic (filterClients v)\<rparr>"

text \<open>The filters of the client are visited in the order of the ordered set.\<close>

definition onWsClose :: "int \<Rightarrow> ws_service \<Rightarrow> ws_service" where
  "onWsClose c v =
     (case clientSubs v c of
        None \<Rightarrow> v
      | Some fs \<Rightarrow>
          v\<lparr>clientSubs := (clientSubs v)(c := None),
            filterClients := (\<lambda>f. if f \<in> fs then drop_client c f (filterClients v) f else filterClients v f)\<rparr>)"

text \<open>
  The MQTT client is reached through \<open>MqttService::getClient\<close>, which dereferences a pointer that is
  null before the service has started: \<open>None\<close>. The outcome is an exception where
  \<open>value\<close> of the JSON library throws; the packets sent are returned.
\<close>

type_synonym bridge = "ws_service \<times> mqtt_client option"

definition onWsMessage ::
  "'j json_api \<Rightarrow> (byte list \<Rightarrow> int) \<Rightarrow> int \<Rightarrow> string \<Rightarrow> bridge \<Rightarrow> (byte list list \<times> bridge) outcome" where
  "onWsMessage J send c raw s =
     (case j_parse J raw of
        None \<Rightarrow> Inr ([], s)
      | Some msg \<Rightarrow>
          bind_exn (j_value_string J msg ''type'' []) (\<lambda>ty.
            if ty = ''subscribe'' then
              bind_exn (j_value_string J msg ''topic'' []) (\<lambda>topic.
                if topic = [] then Inr ([], s)
                else case s of
                       (v, None) \<Rightarrow> Inl Undefined
                     | (v, Some m) \<Rightarrow>
                         case mqtt_subscribe send topic m of
                           (_, pkts, m') \<Rightarrow> Inr (pkts, (svc_subscribe c topic v, Some m')))
            else if ty = ''unsubscribe'' then
              bind_exn (j_value_string J msg ''topic'' []) (\<lambda>topic.
                if topic = [] then Inr ([], s)
                else Inr ([], (svc_unsubscribe c topic (fst s), snd s)))
            else if ty = ''publish'' then
              bind_exn (j_value_string J msg ''topic'' []) (\<lambda>topic.
              bind_exn (j_value_string J msg ''payload'' []) (\<lambda>payload.
                if topic = [] then Inr ([], s)
                else case snd s of
                       None \<Rightarrow> Inl Undefined
                     | Some m \<Rightarrow>
                         case mqtt_publish send topic payload m of
                           (_, pkts, m') \<Rightarrow> Inr (pkts, (fst s, Some m'))))
            else Inr ([], s)))"

text \<open>
  The handler of \<open>mqtt:message\<close>: the (client, text) pairs it hands to \<open>WsServer::send\<close>. The
  filters come in the order \<open>fs\<close> in which the unordered map enumerates its keys, the clients
  of one filter in ascending order. \<open>any_cast\<close> throws on any other payload and
  \<open>catch (...)\<close> swallows that as it swallows a failing \<open>dump\<close>.
\<close>

definition bridge_frame :: "'j json_api \<Rightarrow> string \<Rightarrow> string \<Rightarrow> string outcome" where
  "bridge_frame J topic payload =
     bind_exn (j_set J (j_null J) ''type'' (j_string J ''message'')) (\<lambda>a.
     bind_exn (j_set J a ''topic'' (j_string J topic)) (\<lambda>b.
     bind_exn (j_set J b ''payload'' (j_string J payload)) (\<lambda>frame. dump_exn J frame)))"

definition recipients :: "string list \<Rightarrow> ws_service \<Rightarrow> string \<Rightarrow> int list" where
  "recipients fs v topic =
     concat (map (\<lambda>f. if topicMatches f topic then sorted_list_of_set (entry (filterClients v) f) else []) fs)"

definition on_mqtt_message ::
  "'j json_api \<Rightarrow> string list \<Rightarrow> event \<Rightarrow> ws_service \<Rightarrow> (int \<times> string) list" where
  "on_mqtt_message J fs e v =
     (case ev_data e of
        AnyPair topic payload \<Rightarrow>
          (case bridge_frame J topic payload of
             Inl _ \<Rightarrow> []
           | Inr text \<Rightarrow> map (\<lambda>c. (c, text)) (recipients fs v topic))
      | _ \<Rightarrow> [])"

section \<open>The two maps\<close>

text \<open>
  The invariant: a client is listed under a filter exactly when the filter is among its
  subscriptions, all sets are finite, and no filter keeps an empty set.
\<close>

definition subs :: "ws_service \<Rightarrow> int \<Rightarrow> string set" where
  "subs v c = entry (clientSubs v) c"

definition dual :: "ws_service \<Rightarrow> bool" where
  "dual v \<longleftrightarrow>
     (\<forall>f c. c \<in> entry (filterClients v) f \<longleftrightarrow> f \<in> subs v c) \<and>
     (\<forall>f. filterClients v f \<noteq> Some {}) \<and>
     (\<forall>f. finite (entry (filterClients v) f))"

lemma entry_upd [simp]:
  "entry (m(k \<mapsto> s)) k' = (if k' = k then s else entry m k')"
  "entry (m(k := None)) k' = (if k' = k then {} else entry m k')"
  "entry Map.empty k = {}"
  by (simp_all add: entry_def)

lemma entry_drop_client [simp]:
  "entry (drop_client c f m) g = (if g = f then entry m f - {c} else entry m g)"
  by (simp add: drop_client_def Let_def)

lemma drop_client_not_empty: "m g \<noteq> Some {} \<Longrightarrow> drop_client c f m g \<noteq> Some {}"
  by (auto simp: drop_client_def Let_def)

lemma dual_new [simp]: "dual ws_service_new"
  by (simp add: dual_def ws_service_new_def subs_def)

lemma dual_subscribe: "dual v \<Longrightarrow> dual (svc_subscribe c f v)"
  by (auto simp: dual_def subs_def svc_subscribe_def)

lemma dual_unsubscribe: "dual v \<Longrightarrow> dual (svc_unsubscribe c f v)"
  unfolding dual_def
  by (intro conjI allI)
    (auto simp: subs_def svc_unsubscribe_def drop_client_not_empty)

lemma entry_onWsClose:
  "entry (filterClients (onWsClose c v)) f =
     (if f \<in> subs v c then entry (filterClients v) f - {c} else entry (filterClients v) f)"
  "subs (onWsClose c v) c' = (if c' = c then {} else subs v c')"
  by (auto simp: onWsClose_def subs_def entry_def drop_client_def Let_def split: option.split)

lemma dual_onWsClose: "dual v \<Longrightarrow> dual (onWsClose c v)"
proof -
  assume d: "dual v"
  have "filterClients (onWsClose c v) f \<noteq> Some {}" for f
    using d by (auto simp: dual_def onWsClose_def drop_client_def Let_def split: option.splits)
  with d show ?thesis by (auto simp: dual_def entry_onWsClose)
qed

lemma onWsMessage_cases:
  assumes "onWsMessage J send c raw s = Inr (pkts, s')"
  shows "fst s' = fst s \<or> (\<exists>f. fst s' = svc_subscribe c f (fst s)) \<or> (\<exists>f. fst s' = svc_unsubscribe c f (fst s))"
proof (cases "j_parse J raw")
  case None
  with assms show ?thesis by (simp add: onWsMessage_def)
next
  case (Some msg)
  with assms obtain ty where ty: "j_value_string J msg ''type'' [] = Inr ty"
    by (auto simp: onWsMessage_def bind_exn_Inr)
  note eq = assms [unfolded onWsMessage_def Some option.case ty bind_exn_simps]
  obtain v om where s: "s = (v, om)" by (cases s)
  consider "ty = ''subscribe''" | "ty \<noteq> ''subscribe''" "ty = ''unsubscribe''"
    | "ty \<noteq> ''subscribe''" "ty \<noteq> ''unsubscribe''" by blast
  then show ?thesis
  proof cases
    case 1
    from eq [unfolded 1 if_P [OF refl] bind_exn_Inr] show ?thesis
      by (cases om) (auto simp: s mqtt_subscribe_def Let_def split: if_splits)
  next
    case 2
    from eq [unfolded if_not_P [OF 2(1)] if_P [OF 2(2)] bind_exn_Inr] show ?thesis
      by (auto split: if_splits)
  next
    case 3
    from eq [unfolded if_not_P [OF 3(1)] if_not_P [OF 3(2)]] show ?thesis
      by (cases om) (auto simp: s mqtt_publish_def Let_def bind_exn_Inr split: if_splits)
  qed
qed

lemma dual_onWsMessage:
  assumes "dual (fst s)" "onWsMessage J send c raw s = Inr (pkts, s')"
  shows "dual (fst s')"
  using onWsMessage_cases [OF assms(2)] assms(1) by (auto intro: dual_subscribe dual_unsubscribe)

lemma count_list_distinct: "distinct xs \<Longrightarrow> count_list xs x = of_bool (x \<in> set xs)"
  by (induction xs) auto

text \<open>How often one client gets the frame of a message.\<close>

lemma count_recipients:
  assumes "dual v" "distinct fs" "set fs = dom (filterClients v)"
  shows "count_list (recipients fs v topic) c = card {f \<in> subs v c. topicMatches f topic}"
proof -
  have fin: "finite (entry (filterClients v) f)" for f using assms(1) by (simp add: dual_def)
  have one: "count_list (sorted_list_of_set A) c = of_bool (c \<in> A)" if "finite A" for A
    using that distinct_sorted_list_of_set [of A] by (simp add: count_list_distinct)
  have "count_list (recipients fs v topic) c =
      card {f \<in> set fs. topicMatches f topic \<and> c \<in> entry (filterClients v) f}"
    using assms(2)
  proof (induction fs)
    case (Cons f fs)
    let ?P = "\<lambda>f. topicMatches f topic \<and> c \<in> entry (filterClients v) f"
    have "{g \<in> set (f # fs). ?P g} = (if ?P f then insert f {g \<in> set fs. ?P g} else {g \<in> set fs. ?P g})"
      by auto
    moreover have "card (if P then insert f S else S) = of_bool P + card S"
      if "f \<notin> S" "finite S" for P and S :: "string set"
      using that by simp
    moreover have "f \<notin> {g \<in> set fs. ?P g}" "finite {g \<in> set fs. ?P g}" using Cons.prems by simp_all
    ultimately have "card {g \<in> set (f # fs). ?P g} = of_bool (?P f) + card {g \<in> set fs. ?P g}"
      by (simp only:)
    with Cons fin one show ?case by (simp add: recipients_def)
  qed (simp add: recipients_def)
  also have "{f \<in> set fs. topicMatches f topic \<and> c \<in> entry (filterClients v) f}
      = {f \<in> subs v c. topicMatches f topic}"
    using assms(1,3) by (auto simp: dual_def entry_def split: option.splits)
  finally show ?thesis .
qed

section \<open>Topic filters by levels\<close>

text \<open>
  MQTT 3.1.1, section 4.7: filters and topics are sequences of levels separated by slashes;
  \<open>+\<close> stands for any one level, \<open>#\<close> for any number of remaining levels, none included.
\<close>

fun levels :: "string \<Rightarrow> string list" where
  "levels [] = [[]]"
| "levels (c # s) =
     (if c = CHR ''/'' then [] # levels s else (c # hd (levels s)) # tl (levels s))"

fun levels_match :: "string list \<Rightarrow> string list \<Rightarrow> bool" where
  "levels_match [] us = (us = [])"
| "levels_match (g # gs) [] = (g = ''#'' \<and> gs = [])"
| "levels_match (g # gs) (u # us) =
     ((g = ''#'' \<and> gs = []) \<or> ((g = ''+'' \<or> g = u) \<and> levels_match gs us))"

definition literal :: "string \<Rightarrow> bool" where
  "literal g \<longleftrightarrow> CHR ''+'' \<notin> set g \<and> CHR ''#'' \<notin> set g"

text \<open>A valid filter: wildcards occupy whole levels, and \<open>#\<close> only the last one.\<close>

fun valid_filter :: "string list \<Rightarrow> bool" where
  "valid_filter [] = True"
| "valid_filter (g # gs) = ((literal g \<or> g = ''+'' \<or> g = ''#'' \<and> gs = []) \<and> valid_filter gs)"

lemma levels_not_Nil [simp]: "levels s \<noteq> []"
  by (cases s) simp_all

lemma levels_Cons: "c \<noteq> CHR ''/'' \<Longrightarrow> levels s = u # us \<Longrightarrow> levels (c # s) = (c # u) # us"
  by simp

lemma levels_eq_Nil_level: "levels s = [] # us \<longleftrightarrow> (s = [] \<and> us = []) \<or> (\<exists>s'. s = CHR ''/'' # s' \<and> us = levels s')"
  by (cases s) auto

lemma levels_dropWhile:
  "levels (dropWhile (\<lambda>c. c \<noteq> CHR ''/'') s) = [] # tl (levels s)"
  by (induction s) auto

lemma levels_hash: "valid_filter (levels s) \<Longrightarrow> s \<noteq> [] \<and> hd s = CHR ''#'' \<longleftrightarrow> levels s = [''#'']"
proof (cases s)
  case (Cons c s')
  obtain u us where u: "levels s' = u # us" by (cases "levels s'") simp_all
  assume v: "valid_filter (levels s)"
  show ?thesis
  proof
    assume "s \<noteq> [] \<and> hd s = CHR ''#''"
    with Cons u v show "levels s = [''#'']" by (auto simp: literal_def)
  next
    assume "levels s = [''#'']"
    with Cons u show "s \<noteq> [] \<and> hd s = CHR ''#''" by (auto split: if_splits)
  qed
qed simp

definition open_end :: "string \<Rightarrow> bool" where
  "open_end ts \<longleftrightarrow> ts \<noteq> [] \<and> last ts \<noteq> CHR ''/''"

lemma dropWhile_open_end:
  assumes "open_end ts"
  shows "dropWhile (\<lambda>c. c \<noteq> CHR ''/'') ts = [] \<and> tl (levels ts) = [] \<or>
    (\<exists>ts'. dropWhile (\<lambda>c. c \<noteq> CHR ''/'') ts = CHR ''/'' # ts' \<and> tl (levels ts) = levels ts' \<and> open_end ts')"
proof (cases "dropWhile (\<lambda>c. c \<noteq> CHR ''/'') ts")
  case Nil
  then have "tl (levels ts) = []" using levels_dropWhile [of ts, unfolded Nil] by simp
  with Nil show ?thesis by blast
next
  case (Cons c ts')
  have "\<not> hd (dropWhile (\<lambda>c. c \<noteq> CHR ''/'') ts) \<noteq> CHR ''/''"
    by (rule hd_dropWhile) (simp add: Cons del: dropWhile_eq_Nil_conv)
  with Cons have c: "c = CHR ''/''" by simp
  have "tl (levels ts) = levels ts'" using levels_dropWhile [of ts, unfolded Cons c] by simp
  moreover have "ts = takeWhile (\<lambda>c. c \<noteq> CHR ''/'') ts @ c # ts'"
    using takeWhile_dropWhile_id [of "\<lambda>c. c \<noteq> CHR ''/''" ts] by (simp only: Cons)
  then have "last ts = last (c # ts')" by (metis last_appendR list.distinct(1))
  then have "open_end ts'" using assms c by (auto simp: open_end_def split: if_splits)
  ultimately show ?thesis using Cons c by blast
qed

text \<open>
  What the induction over the filter carries: from inside a literal level (the rest of the level
  must be equal, the remaining levels must match) and from the beginning of a level.
\<close>

definition agrees_within :: "string \<Rightarrow> string \<Rightarrow> bool" where
  "agrees_within fs ts \<longleftrightarrow>
     (ts = [] \<or> open_end ts \<longrightarrow> literal (hd (levels fs)) \<longrightarrow> valid_filter (tl (levels fs)) \<longrightarrow>
      topicMatches fs ts = (hd (levels fs) = hd (levels ts) \<and> levels_match (tl (levels fs)) (tl (levels ts))))"

definition agrees_at_level :: "string \<Rightarrow> string \<Rightarrow> bool" where
  "agrees_at_level fs ts \<longleftrightarrow>
     (open_end ts \<longrightarrow> valid_filter (levels fs) \<longrightarrow> topicMatches fs ts = levels_match (levels fs) (levels ts))"

lemma open_end_tl: "open_end (t # ts) \<Longrightarrow> ts = [] \<or> open_end ts"
  by (auto simp: open_end_def split: if_splits)

lemma open_end_slash [simp]: "open_end (CHR ''/'' # ts) \<longleftrightarrow> open_end ts"
  by (simp add: open_end_def)

lemma agrees_within_slash:
  assumes "\<And>ts. agrees_at_level fs ts"
  shows "agrees_within (CHR ''/'' # fs) ts"
  unfolding agrees_within_def
proof (intro impI)
  assume ts: "ts = [] \<or> open_end ts" and "valid_filter (tl (levels (CHR ''/'' # fs)))"
  then have v: "valid_filter (levels fs)" by simp
  show "topicMatches (CHR ''/'' # fs) ts = (hd (levels (CHR ''/'' # fs)) = hd (levels ts) \<and>
      levels_match (tl (levels (CHR ''/'' # fs))) (tl (levels ts)))"
  proof (cases ts)
    case Nil
    have "levels_match (levels fs) [] = (levels fs = [''#''])" by (cases "levels fs") auto
    with levels_hash [OF v] Nil show ?thesis by simp
  next
    case (Cons t ts')
    with assms [of ts'] ts v show ?thesis
      by (cases "t = CHR ''/''") (simp_all add: agrees_at_level_def)
  qed
qed

lemma agrees_within_char:
  assumes "f \<noteq> CHR ''/''" "\<And>ts. agrees_within fs ts"
  shows "agrees_within (f # fs) ts"
  unfolding agrees_within_def
proof (intro impI)
  assume ts: "ts = [] \<or> open_end ts" and "literal (hd (levels (f # fs)))" "valid_filter (tl (levels (f # fs)))"
  with assms(1) have l: "f \<noteq> CHR ''+''" "f \<noteq> CHR ''#''" "literal (hd (levels fs))" "valid_filter (tl (levels fs))"
    by (auto simp: literal_def)
  show "topicMatches (f # fs) ts =
      (hd (levels (f # fs)) = hd (levels ts) \<and> levels_match (tl (levels (f # fs))) (tl (levels ts)))"
  proof (cases ts)
    case Nil
    with assms(1) l show ?thesis by simp
  next
    case (Cons t ts')
    with ts have "ts' = [] \<or> open_end ts'" using open_end_tl by blast
    with assms(2) [of ts'] l(3,4) have IH: "topicMatches fs ts' =
        (hd (levels fs) = hd (levels ts') \<and> levels_match (tl (levels fs)) (tl (levels ts')))"
      by (simp add: agrees_within_def)
    obtain u us g gs where "levels ts' = u # us" "levels fs = g # gs"
      by (cases "levels ts'"; cases "levels fs") simp_all
    with l assms(1) IH Cons show ?thesis by (cases "t = CHR ''/''"; cases "f = t") simp_all
  qed
qed

lemma plus_level:
  assumes "open_end ts" "valid_filter (levels (CHR ''+'' # fs))" "levels fs = [] # gs"
    and "\<And>ts. agrees_within fs ts"
  shows "topicMatches (CHR ''+'' # fs) ts = levels_match gs (tl (levels ts))"
proof -
  have fs: "literal (hd (levels fs))" "valid_filter (tl (levels fs))"
    using assms(2,3) by (simp_all add: literal_def)
  have "topicMatches (CHR ''+'' # fs) ts = topicMatches fs (dropWhile (\<lambda>c. c \<noteq> CHR ''/'') ts)"
    using assms(1) by (cases ts) (simp_all add: open_end_def)
  also have "\<dots> = levels_match gs (tl (levels ts))"
    using dropWhile_open_end [OF assms(1)]
  proof (elim disjE exE conjE)
    assume d: "dropWhile (\<lambda>c. c \<noteq> CHR ''/'') ts = []" "tl (levels ts) = []"
    show ?thesis
      unfolding d using assms(4) [of "[]"] fs assms(3) by (simp add: agrees_within_def)
  next
    fix ts'
    assume "dropWhile (\<lambda>c. c \<noteq> CHR ''/'') ts = CHR ''/'' # ts'" "tl (levels ts) = levels ts'" "open_end ts'"
    then show ?thesis
      using assms(4) [of "CHR ''/'' # ts'"] fs assms(3) by (simp add: agrees_within_def)
  qed
  finally show ?thesis .
qed

lemma agrees_at_level:
  assumes "agrees_within fs ts" "fs \<noteq> [] \<Longrightarrow> \<forall>ts. agrees_within (tl fs) ts"
  shows "agrees_at_level fs ts"
  unfolding agrees_at_level_def
proof (intro impI)
  assume ts: "open_end ts" and v: "valid_filter (levels fs)"
  obtain u us g gs where u: "levels ts = u # us" "levels fs = g # gs"
    by (cases "levels ts"; cases "levels fs") simp_all
  with v consider "literal g" | "g = ''+''" | "g = ''#''" "gs = []" by auto
  then show "topicMatches fs ts = levels_match (levels fs) (levels ts)"
  proof cases
    case 1
    then have "g \<noteq> ''+''" "g \<noteq> ''#''" by (auto simp: literal_def)
    with assms(1) ts v u 1 show ?thesis by (simp add: agrees_within_def)
  next
    case 2
    then obtain fs' where fs: "fs = CHR ''+'' # fs'" "levels fs' = [] # gs"
      using u(2) by (cases fs; cases "levels (tl fs)") (auto split: if_splits)
    with plus_level [of ts fs' gs] ts v assms(2) u 2 show ?thesis by simp
  next
    case 3
    with u have "fs \<noteq> [] \<and> hd fs = CHR ''#''" using levels_hash [of fs] v by simp
    with ts 3 u show ?thesis by (cases fs; cases ts) (simp_all add: open_end_def)
  qed
qed

lemma topicMatches_agrees: "agrees_within fs ts \<and> agrees_at_level fs ts"
proof (induction fs arbitrary: ts)
  case Nil
  have "agrees_within [] ts"
    by (cases ts) (auto simp: agrees_within_def levels_eq_Nil_level)
  then show ?case using agrees_at_level by blast
next
  case (Cons f fs)
  then have "agrees_within (f # fs) ts"
    by (cases "f = CHR ''/''") (simp_all add: agrees_within_slash agrees_within_char)
  with Cons.IH show ?case using agrees_at_level [of "f # fs" ts] by simp
qed

text \<open>Where the loop and the standard part: an empty last level of the topic.\<close>

lemma trailing_slash_is_not_matched:
  "\<not> topicMatches ''a/+'' ''a/'' \<and> levels_match (levels ''a/+'') (levels ''a/'')"
  "\<not> topicMatches ''a/#'' ''a/'' \<and> levels_match (levels ''a/#'') (levels ''a/'')"
  by simp_all

section \<open>Properties\<close>

text \<open>What the WebSocket server reports to the service, one event after the other.\<close>

datatype ws_event = ClientMessage int string | ClientClosed int

fun svc_run ::
  "'j json_api \<Rightarrow> (byte list \<Rightarrow> int) \<Rightarrow> ws_event list \<Rightarrow> bridge \<Rightarrow> bridge outcome" where
  "svc_run J send [] s = Inr s"
| "svc_run J send (ClientMessage c raw # es) s =
     bind_exn (onWsMessage J send c raw s) (\<lambda>(_, s'). svc_run J send es s')"
| "svc_run J send (ClientClosed c # es) s = svc_run J send es (onWsClose c (fst s), snd s)"

lemma svc_run_dual: "svc_run J send es s = Inr s' \<Longrightarrow> dual (fst s) \<Longrightarrow> dual (fst s')"
proof (induction es arbitrary: s)
  case (Cons e es)
  then show ?case
    by (cases e) (auto simp: bind_exn_Inr dual_onWsClose intro: dual_onWsMessage)
qed simp


definition demo_json :: "json json_api" where
  "demo_json = table_json
     [(''S'', JObject [(''type'', JString ''subscribe''), (''topic'', JString ''a/+'')]),
      (''F'', JObject [(''type'', JString ''message''), (''topic'', JString ''a/b''), (''payload'', JString ''x'')])]"

lemma demo_svc_run:
  "svc_run demo_json (\<lambda>p. 1) [ClientMessage 3 ''S''] (ws_service_new, Some (mqtt_new ''n''))
     = Inr (svc_subscribe 3 ''a/+'' ws_service_new, Some ((mqtt_new ''n'')\<lparr>mc_pid := 2\<rparr>))"
  by (simp add: demo_json_def onWsMessage_def mqtt_subscribe_def Let_def mqtt_new_def)


text \<open>
  C16: \<open>topicMatches\<close>, a loop over characters, decides the level-by-level matching of MQTT 3.1.1
  for every valid filter and every topic whose last level is not empty.
\<close>

theorem topicMatches_is_mqtt_matching:
  assumes "valid_filter (levels f)" "topic \<noteq> []" "last topic \<noteq> CHR ''/''"
  shows "topicMatches f topic = levels_match (levels f) (levels topic)"
  using topicMatches_agrees [of f topic] assms by (simp add: agrees_at_level_def open_end_def)

lemma topicMatches_is_mqtt_matching_witness:
  "topicMatches ''home/+/temp/#'' ''home/x/temp'' \<and> levels_match (levels ''home/+/temp/#'') (levels ''home/x/temp'')"
  using topicMatches_is_mqtt_matching [of "''home/+/temp/#''" "''home/x/temp''"]
  by (simp add: literal_def)

text \<open>
  A client that disconnects leaves no trace: it holds no subscription, no filter lists it,
  the subscriptions of every other client are untouched, and it is sent nothing.
\<close>

theorem closing_a_client_removes_it:
  assumes "svc_run J send es (ws_service_new, m) = Inr (v, m')"
  shows "clientSubs (onWsClose c v) c = None \<and>
    (\<forall>f. c \<notin> entry (filterClients (onWsClose c v)) f) \<and>
    (\<forall>c' f. c' \<noteq> c \<longrightarrow> (c' \<in> entry (filterClients (onWsClose c v)) f \<longleftrightarrow> c' \<in> entry (filterClients v) f)) \<and>
    c \<notin> fst ` set (on_mqtt_message J fs e (onWsClose c v))"
proof -
  have d: "dual v" using svc_run_dual [OF assms] by simp
  then have n: "c \<notin> entry (filterClients (onWsClose c v)) f" for f
    by (simp add: entry_onWsClose dual_def)
  have fin: "finite (entry (filterClients (onWsClose c v)) f)" for f
    using dual_onWsClose [OF d] by (simp add: dual_def)
  have "c \<notin> set (recipients fs (onWsClose c v) topic)" for topic
    using n fin by (auto simp: recipients_def split: if_splits)
  then have "c \<notin> fst ` set (on_mqtt_message J fs e (onWsClose c v))"
    by (auto simp: on_mqtt_message_def split: any.splits sum.splits)
  moreover have "clientSubs (onWsClose c v) c = None"
    by (simp add: onWsClose_def split: option.split)
  ultimately show ?thesis using n by (auto simp: entry_onWsClose)
qed

lemma closing_a_client_removes_it_witness:
  "clientSubs (onWsClose 3 (svc_subscribe 3 ''a/+'' ws_service_new)) 3 = None"
  using closing_a_client_removes_it [OF demo_svc_run, of 3] by blast

end
