(* ===== verification/Registry.thy ===== *)
theory Registry
  imports Results
begin

text \<open>
  What \<open>DeviceRegistry\<close> and \<open>RoomRegistry\<close> share: an \<open>unordered_map\<close> from ids to values, a
  JSON file behind it, and the contract their clients rely on. The map is an association list
  with distinct keys; its order stands for the unspecified order of the container, and the
  theorems speak of lookups and sets only.
\<close>

section \<open>The container\<close>

type_synonym 'a table = "(string \<times> 'a) list"

definition table_wf :: "'a table \<Rightarrow> bool" where
  "table_wf t \<longleftrightarrow> distinct (map fst t)"

definition table_erase :: "string \<Rightarrow> 'a table \<Rightarrow> 'a table" where
  "table_erase k t = filter (\<lambda>kv. fst kv \<noteq> k) t"

definition table_modify :: "string \<Rightarrow> ('a \<Rightarrow> 'a) \<Rightarrow> 'a table \<Rightarrow> 'a table" where
  "table_modify k f t = map (\<lambda>(k', v). (k', if k' = k then f v else v)) t"

lemma map_of_snoc [registry_simps]:
  "map_of (t @ [(k, v)]) k' = (case map_of t k' of None \<Rightarrow> if k' = k then Some v else None | Some x \<Rightarrow> Some x)"
  by (simp add: map_add_def split: option.split)

lemma map_of_erase [registry_simps]:
  "map_of (table_erase k t) k' = (if k' = k then None else map_of t k')"
  unfolding table_erase_def by (induction t) auto

lemma map_of_modify [registry_simps]:
  "map_of (table_modify k f t) k' = (if k' = k then map_option f (map_of t k) else map_of t k')"
  unfolding table_modify_def by (induction t) auto

lemma map_fst_modify [simp]: "map fst (table_modify k f t) = map fst t"
  by (simp add: table_modify_def case_prod_unfold comp_def)

lemma table_wf_snoc: "table_wf t \<Longrightarrow> map_of t k = None \<Longrightarrow> table_wf (t @ [(k, v)])"
  by (simp add: table_wf_def map_of_eq_None_iff)

lemma table_wf_erase: "table_wf t \<Longrightarrow> table_wf (table_erase k t)"
  unfolding table_wf_def table_erase_def by (induction t) auto

lemma table_wf_modify: "table_wf t \<Longrightarrow> table_wf (table_modify k f t)"
  by (simp add: table_wf_def)

lemma keys_assoc_set: "fst ` set (assoc_set k v t) = insert k (fst ` set t)"
  by (induction k v t rule: assoc_set.induct) (auto simp: image_iff)

lemma table_wf_assoc_set: "table_wf t \<Longrightarrow> table_wf (assoc_set k v t)"
  unfolding table_wf_def
proof (induction k v t rule: assoc_set.induct)
  case (2 k v k' v' t)
  then show ?case using keys_assoc_set [of k v t] by auto
qed simp

lemma table_wf_Nil [simp]: "table_wf []"
  by (simp add: table_wf_def)

text \<open>The new element may land anywhere in the enumeration; only lookups matter.\<close>

lemma map_of_same_set: "table_wf t \<Longrightarrow> table_wf u \<Longrightarrow> set t = set u \<Longrightarrow> map_of t = map_of u"
  unfolding table_wf_def by (simp add: map_of_inject_set)

section \<open>The file\<close>

text \<open>
  The persistence file as the program meets it: whether \<open>create_directories\<close> succeeds (it
  throws otherwise), whether the file can be opened for writing and for reading (a failed
  stream is ignored), and its content.
\<close>

record disk =
  dk_dir_ok :: bool
  dk_writable :: bool
  dk_readable :: bool
  dk_content :: "string option"

text \<open>
  \<open>save\<close>: the stream is opened, which truncates the file, before \<open>dump(2)\<close> is evaluated.
\<close>

definition disk_save :: "'j json_api \<Rightarrow> 'j \<Rightarrow> disk \<Rightarrow> unit outcome \<times> disk" where
  "disk_save J arr d =
     (if \<not> dk_dir_ok d then (Inl (StdException ''create_directories''), d)
      else
        let d' = (if dk_writable d then d\<lparr>dk_content := Some []\<rparr> else d)
        in case pretty_exn J 2 arr of
             Inl e \<Rightarrow> (Inl e, d')
           | Inr content \<Rightarrow> (Inr (), if dk_writable d then d\<lparr>dk_content := Some content\<rparr> else d))"

text \<open>
  \<open>load\<close>: the items are inserted one by one, the right-hand side \<open>fromJson(item)\<close> being
  evaluated before \<open>item["id"]\<close>; an exception keeps what was inserted before it.
\<close>

fun load_items ::
  "'j json_api \<Rightarrow> ('j \<Rightarrow> 'a outcome) \<Rightarrow> 'j list \<Rightarrow> 'a table \<Rightarrow> 'a table outcome" where
  "load_items J from_json [] t = Inr t"
| "load_items J from_json (item # items) t =
     (case bind_exn (from_json item) (\<lambda>x.
             bind_exn (j_index J item ''id'') (\<lambda>i.
             bind_exn (j_get_string J i) (\<lambda>k. Inr (k, x)))) of
        Inl Undefined \<Rightarrow> Inl Undefined
      | Inl _ \<Rightarrow> Inr t
      | Inr (k, x) \<Rightarrow> load_items J from_json items (assoc_set k x t))"

definition disk_load ::
  "'j json_api \<Rightarrow> ('j \<Rightarrow> 'a outcome) \<Rightarrow> disk \<Rightarrow> 'a table \<Rightarrow> 'a table outcome" where
  "disk_load J from_json d t =
     (case dk_content d of
        None \<Rightarrow> Inr t
      | Some content \<Rightarrow>
          if \<not> dk_readable d then Inr t
          else case j_parse J content of
                 None \<Rightarrow> Inr t
               | Some j \<Rightarrow> load_items J from_json (j_elems J j) t)"

text \<open>
  A value of type \<open>'a\<close> that its JSON form represents faithfully, with the id under which a
  registry stores it.
\<close>

definition represents ::
  "'j json_api \<Rightarrow> ('a \<Rightarrow> 'j) \<Rightarrow> ('j \<Rightarrow> 'a outcome) \<Rightarrow> string \<times> 'a \<Rightarrow> bool" where
  "represents J to_json from_json kv \<longleftrightarrow>
     from_json (to_json (snd kv)) = Inr (snd kv) \<and>
     (\<exists>i. j_index J (to_json (snd kv)) ''id'' = Inr i \<and> j_get_string J i = Inr (fst kv))"

lemma load_items_saved:
  assumes "\<forall>kv \<in> set kvs. represents J to_json from_json kv"
    and "distinct (map fst kvs)" "fst ` set kvs \<inter> fst ` set t = {}"
  shows "load_items J from_json (map (to_json \<circ> snd) kvs) t = Inr (t @ kvs)"
  using assms
proof (induction kvs arbitrary: t)
  case (Cons kv kvs)
  obtain k x where kv: "kv = (k, x)" by (cases kv)
  from Cons.prems(3) kv have "k \<notin> fst ` set t" by auto
  then have "assoc_set k x t = t @ [(k, x)]" by (induction t) auto
  moreover from Cons.prems(1) kv have "represents J to_json from_json (k, x)" by simp
  then obtain i where "from_json (to_json x) = Inr x" "j_index J (to_json x) ''id'' = Inr i"
    "j_get_string J i = Inr k" by (auto simp: represents_def)
  moreover have "load_items J from_json (map (to_json \<circ> snd) kvs) (t @ [(k, x)]) = Inr ((t @ [(k, x)]) @ kvs)"
    using Cons.prems kv by (intro Cons.IH) auto
  ultimately show ?case using kv by (simp add: comp_def)
qed simp

text \<open>What is saved is loaded into an empty registry, item by item.\<close>

lemma load_after_save:
  assumes "table_wf t" "\<forall>kv \<in> set t. represents J to_json from_json kv"
    and "dk_readable d" "dk_content d = Some content"
    and "j_parse J content = Some arr" "j_elems J arr = map (to_json \<circ> snd) t"
  shows "disk_load J from_json d [] = Inr t"
  using load_items_saved [of t J to_json from_json "[]"] assms
  by (simp add: disk_load_def table_wf_def)

section \<open>The contract\<close>

text \<open>
  What the services rely on: the registry behaves as a partial map from ids to values whose
  stored id is the key, \<open>add\<close> never overwrites, and the other operations say whether they
  found the id.
\<close>

locale registry =
  fixes ident :: "'a \<Rightarrow> string"
    and wf :: "'r \<Rightarrow> bool"
    and empty :: 'r
    and add :: "'a \<Rightarrow> 'r \<Rightarrow> bool \<times> 'r"
    and get :: "string \<Rightarrow> 'r \<Rightarrow> 'a option"
    and exists :: "string \<Rightarrow> 'r \<Rightarrow> bool"
    and remove :: "string \<Rightarrow> 'r \<Rightarrow> bool \<times> 'r"
    and items :: "'r \<Rightarrow> 'a list"
  assumes wf_empty: "wf empty"
    and wf_add: "wf r \<Longrightarrow> wf (snd (add x r))"
    and wf_remove: "wf r \<Longrightarrow> wf (snd (remove k r))"
    and get_empty: "get k empty = None"
    and add_result: "fst (add x r) = (get (ident x) r = None)"
    and get_add: "get k (snd (add x r)) = (if k = ident x \<and> get k r = None then Some x else get k r)"
    and remove_result: "fst (remove k r) = (get k r \<noteq> None)"
    and get_remove: "get k' (snd (remove k r)) = (if k' = k then None else get k' r)"
    and exists_get: "exists k r = (get k r \<noteq> None)"
    and ident_get: "wf r \<Longrightarrow> get k r = Some x \<Longrightarrow> ident x = k"
    and items_get: "wf r \<Longrightarrow> set (items r) = {x. get (ident x) r = Some x}"
    and items_distinct: "wf r \<Longrightarrow> distinct (map ident (items r))"
begin

lemma items_ran: "wf r \<Longrightarrow> set (items r) = ran (\<lambda>k. get k r)"
  using ident_get by (fastforce simp: items_get ran_def)

text \<open>A history of additions and removals, and the partial map it should leave.\<close>

fun run_op :: "'a + string \<Rightarrow> 'r \<Rightarrow> 'r" where
  "run_op (Inl x) r = snd (add x r)"
| "run_op (Inr k) r = snd (remove k r)"

fun spec_op :: "'a + string \<Rightarrow> (string \<Rightarrow> 'a option) \<Rightarrow> string \<Rightarrow> 'a option" where
  "spec_op (Inl x) m = (if m (ident x) = None then m(ident x \<mapsto> x) else m)"
| "spec_op (Inr k) m = m(k := None)"

lemma run_op_wf: "wf r \<Longrightarrow> wf (run_op op r)"
  by (cases op) (simp_all add: wf_add wf_remove)

lemma run_ops_wf: "wf r \<Longrightarrow> wf (fold run_op ops r)"
  by (induction ops arbitrary: r) (simp_all add: run_op_wf)

lemma run_op_spec: "(\<lambda>k. get k (run_op op r)) = spec_op op (\<lambda>k. get k r)"
  by (cases op) (auto simp: fun_eq_iff get_add get_remove)

text \<open>The registry refines the partial map, for every history.\<close>

lemma run_ops_spec: "(\<lambda>k. get k (fold run_op ops r)) = fold spec_op ops (\<lambda>k. get k r)"
  by (induction ops arbitrary: r) (simp_all add: run_op_spec)

lemma items_after:
  "set (items (fold run_op ops empty)) = {x. fold spec_op ops Map.empty (ident x) = Some x}"
proof -
  have "(\<lambda>k. get k (empty)) = Map.empty" by (simp add: fun_eq_iff get_empty)
  with run_ops_spec [of ops empty] have "get k (fold run_op ops empty) = fold spec_op ops Map.empty k" for k
    by (metis (full_types))
  with items_get [OF run_ops_wf [OF wf_empty]] show ?thesis by simp
qed

end

section \<open>Properties\<close>

lemma load_items_stop:
  assumes "\<And>item. item \<in> set good \<Longrightarrow> from_json item = Inr (val item) \<and>
      (\<exists>i. j_index J item ''id'' = Inr i \<and> j_get_string J i = Inr (key item))"
    and "from_json bad = Inl e" "e \<noteq> Undefined"
  shows "load_items J from_json (good @ bad # rest) t = load_items J from_json good t"
  using assms(1)
proof (induction good arbitrary: t)
  case Nil
  with assms(2,3) show ?case by (cases e) simp_all
next
  case (Cons item good)
  then obtain i where "from_json item = Inr (val item)" "j_index J item ''id'' = Inr i"
    "j_get_string J i = Inr (key item)" by force
  with Cons show ?case by simp
qed

text \<open>
  Loading stops silently at the first item it cannot read. Whatever follows a malformed item
  in the file is not loaded, and the call reports nothing; the next \<open>save\<close> writes a file
  without it.
\<close>

theorem malformed_item_hides_the_rest:
  assumes "dk_readable d" "dk_content d = Some content" "j_parse J content = Some (j_array J (good @ bad # rest))"
    and "json_laws J" "from_json bad = Inl (StdException msg)"
    and "\<forall>item \<in> set good. from_json item = Inr (val item) \<and>
      (\<exists>i. j_index J item ''id'' = Inr i \<and> j_get_string J i = Inr (key item))"
  shows "disk_load J from_json d [] = load_items J from_json good [] \<and>
    (\<exists>t. disk_load J from_json d [] = Inr t)"
proof -
  have stop: "load_items J from_json (good @ bad # rest) [] = load_items J from_json good []"
    by (rule load_items_stop [where val = val and key = key]) (use assms in auto)
  have "\<exists>t'. load_items J from_json good t = Inr t'" for t
    using assms(6)
  proof (induction good arbitrary: t)
    case (Cons item good)
    then obtain i where "from_json item = Inr (val item)" "j_index J item ''id'' = Inr i"
      "j_get_string J i = Inr (key item)" by force
    with Cons show ?case by simp
  qed simp
  with stop assms(1-4) show ?thesis by (simp add: disk_load_def json_laws_get)
qed

lemma malformed_item_hides_the_rest_witness:
  "disk_load (table_json [(''t'', JArray [JObject [(''id'', JString ''a'')], JNull, JObject [(''id'', JString ''b'')]])])
     (\<lambda>j. tj_value tj_string j ''id'' []) \<lparr>dk_dir_ok = True, dk_writable = True, dk_readable = True, dk_content = Some ''t''\<rparr> []
   = Inr [(''a'', ''a'')]"
proof -
  let ?J = "table_json [(''t'', JArray [JObject [(''id'', JString ''a'')], JNull, JObject [(''id'', JString ''b'')]])]"
  let ?d = "\<lparr>dk_dir_ok = True, dk_writable = True, dk_readable = True, dk_content = Some ''t''\<rparr>"
  have "disk_load ?J (\<lambda>j. tj_value tj_string j ''id'' []) ?d [] =
      load_items ?J (\<lambda>j. tj_value tj_string j ''id'' []) [JObject [(''id'', JString ''a'')]] []"
    using malformed_item_hides_the_rest [where d = ?d and content = "''t''" and J = ?J
        and good = "[JObject [(''id'', JString ''a'')]]" and bad = JNull and rest = "[JObject [(''id'', JString ''b'')]]"
        and from_json = "\<lambda>j. tj_value tj_string j ''id'' []" and msg = "''type_error.306''"
        and val = "\<lambda>_. ''a''" and key = "\<lambda>_. ''a''"]
    by simp
  then show ?thesis by simp
qed

end
