(* ===== verification/Devices.thy ===== *)
theory Devices
  imports Registry Event_Bus
begin

text \<open>
  \<open>Device\<close>, \<open>DeviceRegistry\<close> (src/devices) and \<open>DeviceService\<close> (src/services). The service
  owns the registry through a pointer that is null before \<open>start\<close>; using it then is undefined
  behaviour. A random 64-bit number for the id is an argument of \<open>add\<close>. The file and the bus
  are part of the state; an exception leaves the state as it was at the throw.
\<close>

section \<open>Device\<close>

record 'j device =
  d_id :: string
  d_name :: string
  d_type :: string
  d_state :: 'j
  d_online :: bool

definition device_toJson :: "'j json_api \<Rightarrow> 'j device \<Rightarrow> 'j" where
  "device_toJson J d = j_object J
     [(''id'', j_string J (d_id d)), (''name'', j_string J (d_name d)), (''type'', j_string J (d_type d)),
      (''state'', d_state d), (''online'', j_bool J (d_online d))]"

definition device_fromJson :: "'j json_api \<Rightarrow> 'j \<Rightarrow> 'j device outcome" where
  "device_fromJson J j =
     bind_exn (j_value_string J j ''id'' []) (\<lambda>i.
     bind_exn (j_value_string J j ''name'' []) (\<lambda>n.
     bind_exn (j_value_string J j ''type'' []) (\<lambda>t.
     bind_exn (j_value_json J j ''state'' (j_object J [])) (\<lambda>s.
     bind_exn (j_value_bool J j ''online'' False) (\<lambda>b.
       Inr \<lparr>d_id = i, d_name = n, d_type = t, d_state = s, d_online = b\<rparr>)))))"

section \<open>DeviceRegistry\<close>

type_synonym 'j devices = "'j device table"

definition device_add :: "'j device \<Rightarrow> 'j devices \<Rightarrow> bool \<times> 'j devices" where
  "device_add d r = (if map_of r (d_id d) \<noteq> None then (False, r) else (True, r @ [(d_id d, d)]))"

definition device_get :: "string \<Rightarrow> 'j devices \<Rightarrow> 'j device option" where
  "device_get k r = map_of r k"

definition device_list :: "'j devices \<Rightarrow> 'j device list" where
  "device_list r = map snd r"

definition device_updateState :: "'j json_api \<Rightarrow> string \<Rightarrow> 'j \<Rightarrow> 'j devices \<Rightarrow> bool \<times> 'j devices" where
  "device_updateState J k patch r =
     (case map_of r k of
        None \<Rightarrow> (False, r)
      | Some _ \<Rightarrow> (True, table_modify k (\<lambda>d. d\<lparr>d_state := j_merge_patch J (d_state d) patch\<rparr>) r))"

definition device_exists :: "string \<Rightarrow> 'j devices \<Rightarrow> bool" where
  "device_exists k r = (map_of r k \<noteq> None)"

definition device_remove :: "string \<Rightarrow> 'j devices \<Rightarrow> bool \<times> 'j devices" where
  "device_remove k r = (map_of r k \<noteq> None, table_erase k r)"

definition devices_json :: "'j json_api \<Rightarrow> 'j devices \<Rightarrow> 'j" where
  "devices_json J r = j_array J (map (device_toJson J \<circ> snd) r)"

definition device_save :: "'j json_api \<Rightarrow> 'j devices \<Rightarrow> disk \<Rightarrow> unit outcome \<times> disk" where
  "device_save J r d = disk_save J (devices_json J r) d"

definition device_load :: "'j json_api \<Rightarrow> disk \<Rightarrow> 'j devices \<Rightarrow> 'j devices outcome" where
  "device_load J d r = disk_load J (device_fromJson J) d r"

definition devices_wf :: "'j devices \<Rightarrow> bool" where
  "devices_wf r \<longleftrightarrow> table_wf r \<and> (\<forall>(k, d) \<in> set r. d_id d = k)"

interpretation device_registry: registry d_id devices_wf "[]" device_add device_get device_exists
    device_remove device_list
proof
  fix r :: "'j devices" and k x
  show "devices_wf []" by (simp add: devices_wf_def)
  show "devices_wf r \<Longrightarrow> devices_wf (snd (device_add x r))"
    by (auto simp: devices_wf_def device_add_def table_wf_snoc)
  show "devices_wf r \<Longrightarrow> devices_wf (snd (device_remove k r))"
    by (auto simp: devices_wf_def device_remove_def table_wf_erase) (auto simp: table_erase_def)
  show "devices_wf r \<Longrightarrow> device_get k r = Some x \<Longrightarrow> d_id x = k"
    by (auto simp: devices_wf_def device_get_def dest!: map_of_SomeD)
  show "set (device_list r) = {x. device_get (d_id x) r = Some x}" if wf: "devices_wf r"
  proof -
    have "x \<in> snd ` set r \<longleftrightarrow> map_of r (d_id x) = Some x" for x
    proof
      assume "x \<in> snd ` set r"
      then obtain k where "(k, x) \<in> set r" by auto
      with wf show "map_of r (d_id x) = Some x" by (auto simp: devices_wf_def table_wf_def)
    next
      assume "map_of r (d_id x) = Some x"
      from map_of_SomeD [OF this] show "x \<in> snd ` set r" by force
    qed
    then show ?thesis by (auto simp: device_list_def device_get_def)
  qed
  show "distinct (map d_id (device_list r))" if wf: "devices_wf r"
  proof -
    have "map d_id (device_list r) = map fst r"
      using wf by (auto simp: device_list_def devices_wf_def)
    with wf show ?thesis by (simp add: devices_wf_def table_wf_def)
  qed
qed (auto simp: device_add_def device_get_def device_exists_def device_remove_def registry_simps
    map_add_def split: option.splits)

section \<open>DeviceService\<close>

record ('j, 'c) device_world =
  dv_reg :: "'j devices option"
  dv_disk :: disk
  dv_bus :: "'c bus"

definition generateId :: "u64 \<Rightarrow> string" where
  "generateId rnd = pad_left 16 CHR ''0'' (hex_to_string (unat rnd))"

definition with_registry ::
  "('j, 'c) device_world \<Rightarrow> ('j devices \<Rightarrow> 'a outcome \<times> ('j, 'c) device_world)
   \<Rightarrow> 'a outcome \<times> ('j, 'c) device_world" where
  "with_registry w f = (case dv_reg w of None \<Rightarrow> (Inl Undefined, w) | Some r \<Rightarrow> f r)"

definition devices_start :: "'j json_api \<Rightarrow> ('j, 'c) device_world \<Rightarrow> unit outcome \<times> ('j, 'c) device_world" where
  "devices_start J w =
     (case device_load J (dv_disk w) [] of
        Inl e \<Rightarrow> (Inl e, w\<lparr>dv_reg := Some []\<rparr>)
      | Inr r \<Rightarrow> (Inr (), w\<lparr>dv_reg := Some r\<rparr>))"

text \<open>Saving the registry of the service, as every mutation does.\<close>

definition persist :: "'j json_api \<Rightarrow> 'j devices \<Rightarrow> ('j, 'c) device_world \<Rightarrow> unit outcome \<times> ('j, 'c) device_world" where
  "persist J r w =
     (case device_save J r (dv_disk w) of (x, d) \<Rightarrow> (x, w\<lparr>dv_reg := Some r, dv_disk := d\<rparr>))"

definition devices_stop :: "'j json_api \<Rightarrow> ('j, 'c) device_world \<Rightarrow> unit outcome \<times> ('j, 'c) device_world" where
  "devices_stop J w = (case dv_reg w of None \<Rightarrow> (Inr (), w) | Some r \<Rightarrow> persist J r w)"

definition devices_list :: "('j, 'c) device_world \<Rightarrow> 'j device list outcome" where
  "devices_list w = (case dv_reg w of None \<Rightarrow> Inl Undefined | Some r \<Rightarrow> Inr (device_list r))"

definition devices_get :: "string \<Rightarrow> ('j, 'c) device_world \<Rightarrow> 'j device option outcome" where
  "devices_get k w = (case dv_reg w of None \<Rightarrow> Inl Undefined | Some r \<Rightarrow> Inr (device_get k r))"

definition devices_add ::
  "'j json_api \<Rightarrow> u64 \<Rightarrow> string \<Rightarrow> string \<Rightarrow> ('j, 'c) device_world
   \<Rightarrow> cpp_result outcome \<times> ('j, 'c) device_world" where
  "devices_add J rnd name ty w =
     (if name = [] \<or> ty = [] then
        (Inr (result_badRequest (''Fields '' @ quoted ''name'' @ '' and '' @ quoted ''type'' @ '' are required'')), w)
      else with_registry w (\<lambda>r.
        let d = \<lparr>d_id = generateId rnd, d_name = name, d_type = ty, d_state = j_object J [], d_online = False\<rparr>
        in case device_add d r of
             (False, _) \<Rightarrow> (Inr (result_conflict ''Device with this id already exists''), w)
           | (True, r') \<Rightarrow>
               (case persist J r' w of
                  (Inl e, w') \<Rightarrow> (Inl e, w')
                | (Inr _, w') \<Rightarrow>
                    (Inr (result_created (''Device '' @ quoted (d_id d) @ '' registered'')),
                     w'\<lparr>dv_bus := bus_publish \<lparr>ev_name = ''device.registered'', ev_data = AnyString (d_id d)\<rparr> (dv_bus w')\<rparr>))))"

definition devices_remove ::
  "'j json_api \<Rightarrow> string \<Rightarrow> ('j, 'c) device_world \<Rightarrow> cpp_result outcome \<times> ('j, 'c) device_world" where
  "devices_remove J k w = with_registry w (\<lambda>r.
     if \<not> device_exists k r then
       (Inr (result_notFound (''Device '' @ quoted k @ '' not found'')), w)
     else
       case persist J (snd (device_remove k r)) w of
         (Inl e, w') \<Rightarrow> (Inl e, w')
       | (Inr _, w') \<Rightarrow>
           (Inr (result_ok (''Device '' @ quoted k @ '' removed'')),
            w'\<lparr>dv_bus := bus_publish \<lparr>ev_name = ''device.removed'', ev_data = AnyString k\<rparr> (dv_bus w')\<rparr>))"

definition devices_command ::
  "'j json_api \<Rightarrow> string \<Rightarrow> 'j \<Rightarrow> ('j, 'c) device_world \<Rightarrow> cpp_result outcome \<times> ('j, 'c) device_world" where
  "devices_command J k payload w = with_registry w (\<lambda>r.
     if \<not> device_exists k r then
       (Inr (result_notFound (''Device '' @ quoted k @ '' not found'')), w)
     else
       case persist J (snd (device_updateState J k payload r)) w of
         (Inl e, w') \<Rightarrow> (Inl e, w')
       | (Inr _, w') \<Rightarrow>
           (case dump_exn J (j_object J [(''id'', j_string J k), (''payload'', payload)]) of
              Inl e \<Rightarrow> (Inl e, w')
            | Inr content \<Rightarrow>
                (Inr (result_ok (''Command applied to device '' @ quoted k)),
                 w'\<lparr>dv_bus := bus_publish \<lparr>ev_name = ''device.command'', ev_data = AnyString content\<rparr> (dv_bus w')\<rparr>)))"

section \<open>Lemmas\<close>

lemma generateId_inj: "generateId x = generateId y \<Longrightarrow> x = y"
proof -
  assume "generateId x = generateId y"
  then have "hex_val (generateId x) = hex_val (generateId y)" by simp
  then show ?thesis by (simp add: generateId_def word_unat_eq_iff)
qed

lemma length_generateId: "length (generateId x) = 16"
proof -
  have "unat x < 16 ^ 16" using unsigned_less [of x, where ?'a = nat] by simp
  then have "length (base_digits 16 (unat x)) \<le> 16" by (intro length_base_digits_le) simp_all
  then show ?thesis by (simp add: generateId_def hex_to_string_def)
qed

lemma device_roundtrip: "json_laws J \<Longrightarrow> device_fromJson J (device_toJson J d) = Inr d"
  by (simp add: device_fromJson_def device_toJson_def json_law_simps)

lemma device_represents:
  assumes "json_laws J" "devices_wf r" "kv \<in> set r"
  shows "represents J (device_toJson J) (device_fromJson J) kv"
proof -
  have "d_id (snd kv) = fst kv" using assms(2,3) by (auto simp: devices_wf_def)
  then have "\<exists>i. j_index J (device_toJson J (snd kv)) ''id'' = Inr i \<and> j_get_string J i = Inr (fst kv)"
    using assms(1) by (simp add: device_toJson_def json_law_simps)
  with device_roundtrip [OF assms(1)] show ?thesis by (simp add: represents_def)
qed

lemma device_load_saved:
  assumes "json_laws J" "devices_wf r" "dk_readable d" "dk_content d = Some content"
    and "j_parse J content = Some (devices_json J r)"
  shows "device_load J d [] = Inr r"
  unfolding device_load_def
  by (rule load_after_save [where to_json = "device_toJson J" and arr = "devices_json J r"])
    (use assms device_represents in \<open>auto simp: devices_wf_def devices_json_def json_laws_get\<close>)

lemma updateState_wf:
  assumes "devices_wf r"
  shows "devices_wf (snd (device_updateState J k p r))"
proof -
  let ?f = "\<lambda>d. d\<lparr>d_state := j_merge_patch J (d_state d) p\<rparr>"
  have "table_wf (table_modify k ?f r)" using assms by (simp add: devices_wf_def table_wf_modify)
  moreover have "\<forall>(k', d) \<in> set (table_modify k ?f r). d_id d = k'"
    using assms by (auto simp: devices_wf_def table_modify_def)
  ultimately show ?thesis using assms
    by (simp add: devices_wf_def device_updateState_def split: option.split)
qed

text \<open>
  The state of the service between calls: the registry is well formed and the file holds what
  \<open>save\<close> writes for it.
\<close>

definition file_of :: "'j json_api \<Rightarrow> 'j devices \<Rightarrow> disk \<Rightarrow> bool" where
  "file_of J r d \<longleftrightarrow> (\<exists>content. j_pretty J 2 (devices_json J r) = Some content \<and> dk_content d = Some content)"

definition healthy :: "disk \<Rightarrow> bool" where
  "healthy d \<longleftrightarrow> dk_dir_ok d \<and> dk_writable d \<and> dk_readable d"

lemma persist_Inr:
  assumes "persist J r w = (Inr x, w')" "healthy (dv_disk w)"
  shows "dv_reg w' = Some r \<and> healthy (dv_disk w') \<and> file_of J r (dv_disk w') \<and> dv_bus w' = dv_bus w"
  using assms
  by (auto simp: persist_def device_save_def disk_save_def pretty_exn_def healthy_def file_of_def Let_def
      split: if_splits option.splits)

definition service_ok :: "'j json_api \<Rightarrow> ('j, 'c) device_world \<Rightarrow> bool" where
  "service_ok J w \<longleftrightarrow> healthy (dv_disk w) \<and>
     (\<exists>r. dv_reg w = Some r \<and> devices_wf r \<and> file_of J r (dv_disk w))"

lemma devices_add_ok:
  assumes "service_ok J w" "devices_add J rnd name ty w = (Inr res, w')"
  shows "service_ok J w'"
proof (cases "w' = w")
  case False
  from assms(1) obtain r where r: "dv_reg w = Some r" "devices_wf r" "healthy (dv_disk w)"
    by (auto simp: service_ok_def)
  let ?d = "\<lparr>d_id = generateId rnd, d_name = name, d_type = ty, d_state = j_object J [], d_online = False\<rparr>"
  have wf: "devices_wf (snd (device_add ?d r))" by (rule device_registry.wf_add [OF r(2)])
  from assms(2) False r(1) obtain r' w1 u where p: "device_add ?d r = (True, r')" "persist J r' w = (Inr u, w1)"
    "dv_reg w' = dv_reg w1" "dv_disk w' = dv_disk w1"
    by (auto simp: devices_add_def with_registry_def Let_def split: if_splits prod.splits bool.splits sum.splits)
  from persist_Inr [OF p(2) r(3)] wf p show ?thesis by (auto simp: service_ok_def)
qed (use assms in simp)

lemma devices_remove_ok:
  assumes "service_ok J w" "devices_remove J k w = (Inr res, w')"
  shows "service_ok J w'"
proof (cases "w' = w")
  case False
  from assms(1) obtain r where r: "dv_reg w = Some r" "devices_wf r" "healthy (dv_disk w)"
    by (auto simp: service_ok_def)
  have wf: "devices_wf (snd (device_remove k r))" by (rule device_registry.wf_remove [OF r(2)])
  from assms(2) False r(1) obtain w1 u where p: "persist J (snd (device_remove k r)) w = (Inr u, w1)"
    "dv_reg w' = dv_reg w1" "dv_disk w' = dv_disk w1"
    by (auto simp: devices_remove_def with_registry_def split: if_splits prod.splits sum.splits)
  from persist_Inr [OF p(1) r(3)] wf p show ?thesis by (auto simp: service_ok_def)
qed (use assms in simp)

lemma devices_command_ok:
  assumes "service_ok J w" "devices_command J k patch w = (Inr res, w')"
  shows "service_ok J w'"
proof (cases "w' = w")
  case False
  from assms(1) obtain r where r: "dv_reg w = Some r" "devices_wf r" "healthy (dv_disk w)"
    by (auto simp: service_ok_def)
  have wf: "devices_wf (snd (device_updateState J k patch r))" by (rule updateState_wf [OF r(2)])
  from assms(2) False r(1) obtain w1 u where p: "persist J (snd (device_updateState J k patch r)) w = (Inr u, w1)"
    "dv_reg w' = dv_reg w1" "dv_disk w' = dv_disk w1"
    by (auto simp: devices_command_def with_registry_def split: if_splits prod.splits sum.splits)
  from persist_Inr [OF p(1) r(3)] wf p show ?thesis by (auto simp: service_ok_def)
qed (use assms in simp)

text \<open>Any sequence of requests, all of which return.\<close>

datatype 'j device_req = ReqAdd u64 string string | ReqRemove string | ReqCommand string 'j

fun device_handle ::
  "'j json_api \<Rightarrow> 'j device_req \<Rightarrow> ('j, 'c) device_world \<Rightarrow> cpp_result outcome \<times> ('j, 'c) device_world" where
  "device_handle J (ReqAdd rnd n t) w = devices_add J rnd n t w"
| "device_handle J (ReqRemove k) w = devices_remove J k w"
| "device_handle J (ReqCommand k p) w = devices_command J k p w"

fun device_handle_all ::
  "'j json_api \<Rightarrow> 'j device_req list \<Rightarrow> ('j, 'c) device_world \<Rightarrow> cpp_result list outcome \<times> ('j, 'c) device_world" where
  "device_handle_all J [] w = (Inr [], w)"
| "device_handle_all J (q # qs) w =
     (case device_handle J q w of
        (Inl e, w') \<Rightarrow> (Inl e, w')
      | (Inr a, w') \<Rightarrow>
          (case device_handle_all J qs w' of (as, w'') \<Rightarrow> (map_sum id ((#) a) as, w'')))"

lemma device_handle_ok:
  "service_ok J w \<Longrightarrow> device_handle J q w = (Inr a, w') \<Longrightarrow> service_ok J w'"
  by (cases q) (auto intro: devices_add_ok devices_remove_ok devices_command_ok)

lemma device_handle_all_ok:
  "service_ok J w \<Longrightarrow> device_handle_all J qs w = (Inr as, w') \<Longrightarrow> service_ok J w'"
proof (induction qs arbitrary: w as)
  case (Cons q qs)
  from Cons.prems(2) obtain a w1 where 1: "device_handle J q w = (Inr a, w1)"
    by (cases "device_handle J q w"; cases "fst (device_handle J q w)") auto
  with Cons.prems(2) obtain as' where "device_handle_all J qs w1 = (Inr as', w')"
    by (cases "device_handle_all J qs w1"; cases "fst (device_handle_all J qs w1)") auto
  with Cons.IH device_handle_ok [OF Cons.prems(1) 1] show ?case by blast
qed simp

section \<open>Properties\<close>

text \<open>
  The specification of the service: a partial map from ids to devices and, per request, the
  HTTP status of the answer and the new map.
\<close>

fun spec_request :: "'j json_api \<Rightarrow> 'j device_req \<Rightarrow> (string \<Rightarrow> 'j device option) \<Rightarrow> int \<times> (string \<Rightarrow> 'j device option)" where
  "spec_request J (ReqAdd rnd name ty) m =
     (if name = [] \<or> ty = [] then (400, m)
      else if m (generateId rnd) \<noteq> None then (409, m)
      else (201, m(generateId rnd \<mapsto>
        \<lparr>d_id = generateId rnd, d_name = name, d_type = ty, d_state = j_object J [], d_online = False\<rparr>)))"
| "spec_request J (ReqRemove k) m = (if m k = None then (404, m) else (200, m(k := None)))"
| "spec_request J (ReqCommand k patch) m =
     (case m k of None \<Rightarrow> (404, m)
      | Some d \<Rightarrow> (200, m(k \<mapsto> d\<lparr>d_state := j_merge_patch J (d_state d) patch\<rparr>)))"

fun spec_requests :: "'j json_api \<Rightarrow> 'j device_req list \<Rightarrow> (string \<Rightarrow> 'j device option) \<Rightarrow> int list \<times> (string \<Rightarrow> 'j device option)" where
  "spec_requests J [] m = ([], m)"
| "spec_requests J (q # qs) m =
     (case spec_request J q m of (st, m') \<Rightarrow> (case spec_requests J qs m' of (sts, m'') \<Rightarrow> (st # sts, m'')))"

definition lookup :: "('j, 'c) device_world \<Rightarrow> string \<Rightarrow> 'j device option" where
  "lookup w k = (case dv_reg w of None \<Rightarrow> None | Some r \<Rightarrow> device_get k r)"

lemma status_simps [simp]:
  "r_status (result_ok m) = 200" "r_status (result_created m) = 201" "r_status (result_badRequest m) = 400"
  "r_status (result_notFound m) = 404" "r_status (result_conflict m) = 409"
  by (simp_all add: result_defs)

lemma add_refines:
  assumes "service_ok J w" "devices_add J rnd name ty w = (Inr res, w')"
  shows "spec_request J (ReqAdd rnd name ty) (lookup w) = (r_status res, lookup w')"
proof -
  from assms(1) obtain r where r: "dv_reg w = Some r" "healthy (dv_disk w)" by (auto simp: service_ok_def)
  let ?d = "\<lparr>d_id = generateId rnd, d_name = name, d_type = ty, d_state = j_object J [], d_online = False\<rparr>"
  have lw: "lookup w k = device_get k r" for k by (simp add: lookup_def r)
  show ?thesis
  proof (cases "name = [] \<or> ty = []")
    case True
    with assms(2) show ?thesis by (auto simp: devices_add_def)
  next
    case ne: False
    show ?thesis
    proof (cases "device_get (generateId rnd) r")
      case None
      then have t: "device_add ?d r = (True, snd (device_add ?d r))"
        using device_registry.add_result [of ?d r] by (simp add: prod_eq_iff)
      then obtain r' where r': "device_add ?d r = (True, r')" by blast
      from assms(2) ne r(1) r' obtain w1 u where p: "persist J r' w = (Inr u, w1)" "dv_reg w' = dv_reg w1"
        "r_status res = 201"
        by (auto simp: devices_add_def with_registry_def Let_def split: prod.splits sum.splits)
      have "lookup w' k = (if k = generateId rnd then Some ?d else lookup w k)" for k
        using persist_Inr [OF p(1) r(2)] p(2) device_registry.get_add [of k ?d r] r' None lw
        by (auto simp: lookup_def)
      with ne None lw p(3) show ?thesis by (auto simp: fun_eq_iff)
    next
      case (Some d)
      then have t: "fst (device_add ?d r) = False"
        using device_registry.add_result [of ?d r] by simp
      with assms(2) ne r(1) have "w' = w \<and> r_status res = 409"
        by (auto simp: devices_add_def with_registry_def Let_def split: prod.splits bool.splits sum.splits)
      with ne Some lw show ?thesis by simp
    qed
  qed
qed

lemma remove_refines:
  assumes "service_ok J w" "devices_remove J k w = (Inr res, w')"
  shows "spec_request J (ReqRemove k) (lookup w) = (r_status res, lookup w')"
proof -
  from assms(1) obtain r where r: "dv_reg w = Some r" "healthy (dv_disk w)" by (auto simp: service_ok_def)
  have lw: "lookup w k = device_get k r" for k by (simp add: lookup_def r)
  show ?thesis
  proof (cases "device_get k r")
    case None
    with assms(2) r(1) have "w' = w \<and> r_status res = 404"
      by (auto simp: devices_remove_def with_registry_def device_registry.exists_get)
    with None show ?thesis by (simp add: lw)
  next
    case (Some d)
    with assms(2) r(1) obtain w1 u where p: "persist J (snd (device_remove k r)) w = (Inr u, w1)"
      "dv_reg w' = dv_reg w1" "r_status res = 200"
      by (auto simp: devices_remove_def with_registry_def device_registry.exists_get split: prod.splits sum.splits)
    have "lookup w' k' = (if k' = k then None else lookup w k')" for k'
      using persist_Inr [OF p(1) r(2)] p(2) device_registry.get_remove [of k' k r] lw
      by (simp add: lookup_def)
    with Some lw p(3) show ?thesis by (auto simp: fun_eq_iff)
  qed
qed

lemma command_refines:
  assumes "service_ok J w" "devices_command J k patch w = (Inr res, w')"
  shows "spec_request J (ReqCommand k patch) (lookup w) = (r_status res, lookup w')"
proof -
  from assms(1) obtain r where r: "dv_reg w = Some r" "healthy (dv_disk w)" by (auto simp: service_ok_def)
  have lw: "lookup w k = device_get k r" for k by (simp add: lookup_def r)
  show ?thesis
  proof (cases "device_get k r")
    case None
    with assms(2) r(1) have "w' = w \<and> r_status res = 404"
      by (auto simp: devices_command_def with_registry_def device_registry.exists_get)
    with None show ?thesis by (simp add: lw)
  next
    case (Some d)
    with assms(2) r(1) obtain w1 u where p: "persist J (snd (device_updateState J k patch r)) w = (Inr u, w1)"
      "dv_reg w' = dv_reg w1" "r_status res = 200"
      by (auto simp: devices_command_def with_registry_def device_registry.exists_get split: prod.splits sum.splits)
    have "lookup w' k' = (if k' = k then Some (d\<lparr>d_state := j_merge_patch J (d_state d) patch\<rparr>) else lookup w k')" for k'
      using persist_Inr [OF p(1) r(2)] p(2) Some lw
      by (auto simp: lookup_def device_updateState_def device_get_def registry_simps)
    with Some lw p(3) show ?thesis by (auto simp: fun_eq_iff)
  qed
qed

lemma handle_all_refines:
  "service_ok J w \<Longrightarrow> device_handle_all J qs w = (Inr as, w') \<Longrightarrow>
     spec_requests J qs (lookup w) = (map r_status as, lookup w')"
proof (induction qs arbitrary: w as)
  case (Cons q qs)
  from Cons.prems(2) obtain a w1 where 1: "device_handle J q w = (Inr a, w1)"
    by (cases "device_handle J q w"; cases "fst (device_handle J q w)") auto
  with Cons.prems(2) obtain as' where 2: "device_handle_all J qs w1 = (Inr as', w')" "as = a # as'"
    by (cases "device_handle_all J qs w1"; cases "fst (device_handle_all J qs w1)") auto
  from 1 Cons.prems(1) have "spec_request J q (lookup w) = (r_status a, lookup w1)"
    by (cases q) (simp_all add: add_refines remove_refines command_refines del: spec_request.simps)
  with 2 Cons.IH [OF device_handle_ok [OF Cons.prems(1) 1] 2(1)] show ?case by simp
qed simp

text \<open>
  C5: the device service refines a partial map. For every sequence of requests that return, the
  statuses of the answers (201, 400, 409, 404, 200) and the devices stored afterwards are those
  of the specification: an id is never overwritten, a failed request changes nothing, and a
  command merges its payload into the state of its device only.
\<close>

theorem device_service_refines_a_map:
  assumes "service_ok J w" "device_handle_all J qs w = (Inr answers, w')"
  shows "spec_requests J qs (lookup w) = (map r_status answers, lookup w')"
  using assms by (rule handle_all_refines)


definition demo_device :: "json device" where
  "demo_device = \<lparr>d_id = generateId 1, d_name = ''lamp'', d_type = ''light'', d_state = JObject [], d_online = False\<rparr>"

definition demo_json :: "json json_api" where
  "demo_json = table_json
     [(''0'', JArray []), (''1'', JArray [device_toJson (table_json []) demo_device])]"

definition demo_world :: "(json, nat) device_world" where
  "demo_world = \<lparr>dv_reg = Some [],
     dv_disk = \<lparr>dk_dir_ok = True, dk_writable = True, dk_readable = True, dk_content = Some ''0''\<rparr>,
     dv_bus = new_bus\<rparr>"

lemma demo_world_ok: "service_ok demo_json demo_world"
  by (simp add: service_ok_def demo_world_def healthy_def devices_wf_def file_of_def devices_json_def
      demo_json_def)

definition demo_after :: "(json, nat) device_world" where
  "demo_after = snd (device_handle_all demo_json [ReqAdd 1 ''lamp'' ''light''] demo_world)"

lemma demo_requests:
  "device_handle_all demo_json [ReqAdd 1 ''lamp'' ''light''] demo_world =
     (Inr [result_created (''Device '' @ quoted (generateId 1) @ '' registered'')], demo_after)"
proof -
  have "j_pretty demo_json 2 (devices_json demo_json [(generateId 1, demo_device)]) = Some ''1''"
    by (simp add: demo_json_def devices_json_def device_toJson_def)
  then show ?thesis
    by (simp add: demo_after_def devices_add_def with_registry_def demo_world_def device_add_def persist_def
        device_save_def disk_save_def pretty_exn_def Let_def demo_device_def demo_json_def)
qed

lemma device_service_refines_a_map_witness:
  "lookup demo_after (generateId 1) = Some demo_device"
proof -
  have "lookup demo_world = Map.empty" by (simp add: lookup_def demo_world_def device_get_def fun_eq_iff)
  with device_service_refines_a_map [OF demo_world_ok demo_requests]
  have "lookup demo_after = [generateId 1 \<mapsto> demo_device]"
    by (simp add: demo_device_def demo_json_def)
  then show ?thesis by simp
qed


end
