(* ===== verification/Rooms.thy ===== *)
theory Rooms
  imports Devices
begin

text \<open>
  \<open>Room\<close>, \<open>RoomRegistry\<close> (src/rooms) and \<open>RoomService\<close> (src/services): rooms group devices
  by id. The registry keeps the contract of Registry; the service checks ids against the
  registry of the device service, which it only reads (the argument \<open>devs\<close>, \<open>None\<close> for a null
  pointer).
\<close>

section \<open>Room\<close>

record room =
  rm_id :: string
  rm_name :: string
  rm_devices :: "string list"

definition room_toJson :: "'j json_api \<Rightarrow> room \<Rightarrow> 'j" where
  "room_toJson J r = j_object J
     [(''id'', j_string J (rm_id r)), (''name'', j_string J (rm_name r)),
      (''deviceIds'', j_array J (map (j_string J) (rm_devices r)))]"

definition room_fromJson :: "'j json_api \<Rightarrow> 'j \<Rightarrow> room outcome" where
  "room_fromJson J j =
     bind_exn (j_value_string J j ''id'' []) (\<lambda>i.
     bind_exn (j_value_string J j ''name'' []) (\<lambda>n.
     bind_exn (j_value_strings J j ''deviceIds'' []) (\<lambda>ds.
       Inr \<lparr>rm_id = i, rm_name = n, rm_devices = ds\<rparr>)))"

section \<open>RoomRegistry\<close>

type_synonym rooms = "room table"

definition room_add :: "room \<Rightarrow> rooms \<Rightarrow> bool \<times> rooms" where
  "room_add x r = (if map_of r (rm_id x) \<noteq> None then (False, r) else (True, r @ [(rm_id x, x)]))"

definition room_get :: "string \<Rightarrow> rooms \<Rightarrow> room option" where
  "room_get k r = map_of r k"

definition room_list :: "rooms \<Rightarrow> room list" where
  "room_list r = map snd r"

definition room_exists :: "string \<Rightarrow> rooms \<Rightarrow> bool" where
  "room_exists k r = (map_of r k \<noteq> None)"

definition room_remove :: "string \<Rightarrow> rooms \<Rightarrow> bool \<times> rooms" where
  "room_remove k r = (map_of r k \<noteq> None, table_erase k r)"

definition room_addDevice :: "string \<Rightarrow> string \<Rightarrow> rooms \<Rightarrow> bool \<times> rooms" where
  "room_addDevice k did r =
     (case map_of r k of
        None \<Rightarrow> (False, r)
      | Some x \<Rightarrow>
          if did \<in> set (rm_devices x) then (False, r)
          else (True, table_modify k (\<lambda>x. x\<lparr>rm_devices := rm_devices x @ [did]\<rparr>) r))"

definition room_removeDevice :: "string \<Rightarrow> string \<Rightarrow> rooms \<Rightarrow> bool \<times> rooms" where
  "room_removeDevice k did r =
     (case map_of r k of
        None \<Rightarrow> (False, r)
      | Some x \<Rightarrow>
          if did \<notin> set (rm_devices x) then (False, r)
          else (True, table_modify k (\<lambda>x. x\<lparr>rm_devices := remove1 did (rm_devices x)\<rparr>) r))"

definition rooms_json :: "'j json_api \<Rightarrow> rooms \<Rightarrow> 'j" where
  "rooms_json J r = j_array J (map (room_toJson J \<circ> snd) r)"

definition room_save :: "'j json_api \<Rightarrow> rooms \<Rightarrow> disk \<Rightarrow> unit outcome \<times> disk" where
  "room_save J r d = disk_save J (rooms_json J r) d"

definition room_load :: "'j json_api \<Rightarrow> disk \<Rightarrow> rooms \<Rightarrow> rooms outcome" where
  "room_load J d r = disk_load J (room_fromJson J) d r"

text \<open>Ids agree with the keys, and no room lists a device twice.\<close>

definition rooms_wf :: "rooms \<Rightarrow> bool" where
  "rooms_wf r \<longleftrightarrow> table_wf r \<and> (\<forall>(k, x) \<in> set r. rm_id x = k)"

definition no_duplicates :: "rooms \<Rightarrow> bool" where
  "no_duplicates r \<longleftrightarrow> (\<forall>k x. map_of r k = Some x \<longrightarrow> distinct (rm_devices x))"

interpretation room_registry: registry rm_id rooms_wf "[]" room_add room_get room_exists
    room_remove room_list
proof
  fix r :: rooms and k x
  show "rooms_wf []" by (simp add: rooms_wf_def)
  show "rooms_wf r \<Longrightarrow> rooms_wf (snd (room_add x r))"
    by (auto simp: rooms_wf_def room_add_def table_wf_snoc)
  show "rooms_wf r \<Longrightarrow> rooms_wf (snd (room_remove k r))"
    by (auto simp: rooms_wf_def room_remove_def table_wf_erase) (auto simp: table_erase_def)
  show "rooms_wf r \<Longrightarrow> room_get k r = Some x \<Longrightarrow> rm_id x = k"
    by (auto simp: rooms_wf_def room_get_def dest!: map_of_SomeD)
  show "set (room_list r) = {x. room_get (rm_id x) r = Some x}" if wf: "rooms_wf r"
  proof -
    have "x \<in> snd ` set r \<longleftrightarrow> map_of r (rm_id x) = Some x" for x
    proof
      assume "x \<in> snd ` set r"
      then obtain k where "(k, x) \<in> set r" by auto
      with wf show "map_of r (rm_id x) = Some x" by (auto simp: rooms_wf_def table_wf_def)
    next
      assume "map_of r (rm_id x) = Some x"
      from map_of_SomeD [OF this] show "x \<in> snd ` set r" by force
    qed
    then show ?thesis by (auto simp: room_list_def room_get_def)
  qed
  show "distinct (map rm_id (room_list r))" if wf: "rooms_wf r"
  proof -
    have "map rm_id (room_list r) = map fst r"
      using wf by (auto simp: room_list_def rooms_wf_def)
    with wf show ?thesis by (simp add: rooms_wf_def table_wf_def)
  qed
qed (auto simp: room_add_def room_get_def room_exists_def room_remove_def registry_simps
    map_add_def split: option.splits)

section \<open>RoomService\<close>

record room_world =
  rv_reg :: "rooms option"
  rv_disk :: disk

definition generateRoomId :: "u64 \<Rightarrow> string" where
  "generateRoomId rnd = pad_left 16 CHR ''0'' (hex_to_string (unat rnd))"

definition rooms_start :: "'j json_api \<Rightarrow> room_world \<Rightarrow> unit outcome \<times> room_world" where
  "rooms_start J w =
     (case room_load J (rv_disk w) [] of
        Inl e \<Rightarrow> (Inl e, w\<lparr>rv_reg := Some []\<rparr>)
      | Inr r \<Rightarrow> (Inr (), w\<lparr>rv_reg := Some r\<rparr>))"

definition rooms_persist :: "'j json_api \<Rightarrow> rooms \<Rightarrow> room_world \<Rightarrow> unit outcome \<times> room_world" where
  "rooms_persist J r w =
     (case room_save J r (rv_disk w) of (x, d) \<Rightarrow> (x, w\<lparr>rv_reg := Some r, rv_disk := d\<rparr>))"

definition rooms_stop :: "'j json_api \<Rightarrow> room_world \<Rightarrow> unit outcome \<times> room_world" where
  "rooms_stop J w = (case rv_reg w of None \<Rightarrow> (Inr (), w) | Some r \<Rightarrow> rooms_persist J r w)"

definition rooms_list :: "room_world \<Rightarrow> room list outcome" where
  "rooms_list w = (case rv_reg w of None \<Rightarrow> Inl Undefined | Some r \<Rightarrow> Inr (room_list r))"

definition rooms_get :: "string \<Rightarrow> room_world \<Rightarrow> room option outcome" where
  "rooms_get k w = (case rv_reg w of None \<Rightarrow> Inl Undefined | Some r \<Rightarrow> Inr (room_get k r))"

text \<open>Saving and then answering, the common tail of every successful mutation.\<close>

definition saved ::
  "'j json_api \<Rightarrow> rooms \<Rightarrow> cpp_result \<Rightarrow> room_world \<Rightarrow> cpp_result outcome \<times> room_world" where
  "saved J r res w =
     (case rooms_persist J r w of (Inl e, w') \<Rightarrow> (Inl e, w') | (Inr _, w') \<Rightarrow> (Inr res, w'))"

definition rooms_add ::
  "'j json_api \<Rightarrow> u64 \<Rightarrow> string \<Rightarrow> room_world \<Rightarrow> cpp_result outcome \<times> room_world" where
  "rooms_add J rnd name w =
     (if name = [] then (Inr (result_badRequest (''Field '' @ quoted ''name'' @ '' is required'')), w)
      else case rv_reg w of
        None \<Rightarrow> (Inl Undefined, w)
      | Some r \<Rightarrow>
          (let x = \<lparr>rm_id = generateRoomId rnd, rm_name = name, rm_devices = []\<rparr>
           in case room_add x r of
                (False, _) \<Rightarrow> (Inr (result_conflict ''Room with this id already exists''), w)
              | (True, r') \<Rightarrow> saved J r' (result_created (''Room '' @ quoted (rm_id x) @ '' created'')) w))"

definition rooms_remove ::
  "'j json_api \<Rightarrow> string \<Rightarrow> room_world \<Rightarrow> cpp_result outcome \<times> room_world" where
  "rooms_remove J k w =
     (case rv_reg w of
        None \<Rightarrow> (Inl Undefined, w)
      | Some r \<Rightarrow>
          if \<not> room_exists k r then (Inr (result_notFound (''Room '' @ quoted k @ '' not found'')), w)
          else saved J (snd (room_remove k r)) (result_ok (''Room '' @ quoted k @ '' removed'')) w)"

definition rooms_addDevice ::
  "'j json_api \<Rightarrow> 'j devices option \<Rightarrow> string \<Rightarrow> string \<Rightarrow> room_world
   \<Rightarrow> cpp_result outcome \<times> room_world" where
  "rooms_addDevice J devs k did w =
     (case rv_reg w of
        None \<Rightarrow> (Inl Undefined, w)
      | Some r \<Rightarrow>
          if \<not> room_exists k r then (Inr (result_notFound (''Room '' @ quoted k @ '' not found'')), w)
          else case devs of
                 None \<Rightarrow> (Inl Undefined, w)
               | Some dr \<Rightarrow>
                   if \<not> device_exists did dr then
                     (Inr (result_notFound (''Device '' @ quoted did @ '' not found'')), w)
                   else case room_addDevice k did r of
                          (False, _) \<Rightarrow> (Inr (result_conflict ''Device already in this room''), w)
                        | (True, r') \<Rightarrow> saved J r' (result_ok ''Device added to room'') w)"

definition rooms_removeDevice ::
  "'j json_api \<Rightarrow> string \<Rightarrow> string \<Rightarrow> room_world \<Rightarrow> cpp_result outcome \<times> room_world" where
  "rooms_removeDevice J k did w =
     (case rv_reg w of
        None \<Rightarrow> (Inl Undefined, w)
      | Some r \<Rightarrow>
          if \<not> room_exists k r then (Inr (result_notFound (''Room '' @ quoted k @ '' not found'')), w)
          else case room_removeDevice k did r of
                 (False, _) \<Rightarrow> (Inr (result_notFound ''Device not in this room''), w)
               | (True, r') \<Rightarrow> saved J r' (result_ok ''Device removed from room'') w)"

text \<open>\<open>expand\<close>: ids of devices that no longer exist are skipped.\<close>

definition rooms_expand :: "'j json_api \<Rightarrow> 'j devices option \<Rightarrow> room \<Rightarrow> 'j outcome" where
  "rooms_expand J devs x =
     (case devs of
        None \<Rightarrow> if rm_devices x = [] then j_set J (room_toJson J x) ''devices'' (j_array J []) else Inl Undefined
      | Some dr \<Rightarrow>
          j_set J (room_toJson J x) ''devices''
            (j_array J (map (device_toJson J) (List.map_filter (\<lambda>did. device_get did dr) (rm_devices x)))))"

section \<open>Lemmas\<close>

lemma room_roundtrip: "json_laws J \<Longrightarrow> room_fromJson J (room_toJson J x) = Inr x"
  by (simp add: room_fromJson_def room_toJson_def json_law_simps)

lemma room_represents:
  assumes "json_laws J" "rooms_wf r" "kv \<in> set r"
  shows "represents J (room_toJson J) (room_fromJson J) kv"
proof -
  have "rm_id (snd kv) = fst kv" using assms(2,3) by (auto simp: rooms_wf_def)
  then have "\<exists>i. j_index J (room_toJson J (snd kv)) ''id'' = Inr i \<and> j_get_string J i = Inr (fst kv)"
    using assms(1) by (simp add: room_toJson_def json_law_simps)
  with room_roundtrip [OF assms(1)] show ?thesis by (simp add: represents_def)
qed

lemma room_load_saved:
  assumes "json_laws J" "rooms_wf r" "dk_readable d" "dk_content d = Some content"
    and "j_parse J content = Some (rooms_json J r)"
  shows "room_load J d [] = Inr r"
  unfolding room_load_def
  by (rule load_after_save [where to_json = "room_toJson J" and arr = "rooms_json J r"])
    (use assms room_represents in \<open>auto simp: rooms_wf_def rooms_json_def json_laws_get\<close>)

lemma rooms_wf_modify:
  assumes "rooms_wf r" "\<And>x. rm_id (f x) = rm_id x"
  shows "rooms_wf (table_modify k f r)"
proof -
  have "\<forall>(k', x) \<in> set (table_modify k f r). rm_id x = k'"
    using assms by (auto simp: rooms_wf_def table_modify_def)
  with assms show ?thesis by (simp add: rooms_wf_def table_wf_modify)
qed

lemma addDevice_get:
  "map_of (snd (room_addDevice k did r)) k' =
     (case map_of r k of
        Some x \<Rightarrow> if k' = k \<and> did \<notin> set (rm_devices x) then Some (x\<lparr>rm_devices := rm_devices x @ [did]\<rparr>)
                  else map_of r k'
      | None \<Rightarrow> map_of r k')"
  by (simp add: room_addDevice_def registry_simps split: option.split)

lemma removeDevice_get:
  "map_of (snd (room_removeDevice k did r)) k' =
     (case map_of r k of
        Some x \<Rightarrow> if k' = k \<and> did \<in> set (rm_devices x) then Some (x\<lparr>rm_devices := remove1 did (rm_devices x)\<rparr>)
                  else map_of r k'
      | None \<Rightarrow> map_of r k')"
  by (simp add: room_removeDevice_def registry_simps split: option.split)

lemma addDevice_wf: "rooms_wf r \<Longrightarrow> rooms_wf (snd (room_addDevice k did r))"
  by (auto simp: room_addDevice_def rooms_wf_modify split: option.split)

lemma removeDevice_wf: "rooms_wf r \<Longrightarrow> rooms_wf (snd (room_removeDevice k did r))"
  by (auto simp: room_removeDevice_def rooms_wf_modify split: option.split)

text \<open>Any sequence of requests to the service, each with the device registry of the moment.\<close>

datatype 'j room_req =
    RoomAdd u64 string | RoomRemove string
  | RoomAddDevice "'j devices option" string string | RoomRemoveDevice string string

fun room_handle :: "'j json_api \<Rightarrow> 'j room_req \<Rightarrow> room_world \<Rightarrow> cpp_result outcome \<times> room_world" where
  "room_handle J (RoomAdd rnd n) w = rooms_add J rnd n w"
| "room_handle J (RoomRemove k) w = rooms_remove J k w"
| "room_handle J (RoomAddDevice devs k did) w = rooms_addDevice J devs k did w"
| "room_handle J (RoomRemoveDevice k did) w = rooms_removeDevice J k did w"

definition room_lookup :: "room_world \<Rightarrow> string \<Rightarrow> room option" where
  "room_lookup w k = (case rv_reg w of None \<Rightarrow> None | Some r \<Rightarrow> room_get k r)"

definition room_file_of :: "'j json_api \<Rightarrow> rooms \<Rightarrow> disk \<Rightarrow> bool" where
  "room_file_of J r d \<longleftrightarrow> (\<exists>t. j_pretty J 2 (rooms_json J r) = Some t \<and> dk_content d = Some t)"

definition room_service_ok :: "'j json_api \<Rightarrow> room_world \<Rightarrow> bool" where
  "room_service_ok J w \<longleftrightarrow> healthy (rv_disk w) \<and>
     (\<exists>r. rv_reg w = Some r \<and> rooms_wf r \<and> no_duplicates r \<and> room_file_of J r (rv_disk w))"

lemma saved_Inr:
  assumes "saved J r res w = (Inr a, w')" "healthy (rv_disk w)"
  shows "a = res \<and> rv_reg w' = Some r \<and> healthy (rv_disk w') \<and> room_file_of J r (rv_disk w')"
  using assms
  by (auto simp: saved_def rooms_persist_def room_save_def disk_save_def pretty_exn_def healthy_def
      room_file_of_def Let_def split: if_splits option.splits sum.splits prod.splits)

text \<open>
  What a request that returns has done: nothing, or one of the four changes of the registry,
  saved.
\<close>

lemma room_handle_cases:
  assumes "room_handle J q w = (Inr a, w')" "rv_reg w = Some r"
  obtains "w' = w" "\<not> isOk a"
  | rnd n where "q = RoomAdd rnd n" "room_get (generateRoomId rnd) r = None"
      "saved J (snd (room_add \<lparr>rm_id = generateRoomId rnd, rm_name = n, rm_devices = []\<rparr> r)) a w = (Inr a, w')"
  | k where "q = RoomRemove k" "room_get k r \<noteq> None" "saved J (snd (room_remove k r)) a w = (Inr a, w')"
  | dr k did x where "q = RoomAddDevice (Some dr) k did" "device_get did dr \<noteq> None"
      "room_get k r = Some x" "did \<notin> set (rm_devices x)" "saved J (snd (room_addDevice k did r)) a w = (Inr a, w')"
  | k did x where "q = RoomRemoveDevice k did" "room_get k r = Some x" "did \<in> set (rm_devices x)"
      "saved J (snd (room_removeDevice k did r)) a w = (Inr a, w')"
proof (cases q)
  case (RoomAdd rnd n)
  with assms show thesis
    by (auto simp: rooms_add_def Let_def room_add_def room_get_def saved_def split: if_splits sum.splits prod.splits
        intro: that(1,2))
next
  case (RoomRemove k)
  with assms show thesis
    by (auto simp: rooms_remove_def room_exists_def room_get_def saved_def split: if_splits sum.splits prod.splits
        intro: that(1,3))
next
  case (RoomAddDevice devs k did)
  with assms show thesis
    by (auto simp: rooms_addDevice_def room_exists_def room_get_def device_exists_def device_get_def saved_def
        room_addDevice_def split: if_splits option.splits sum.splits prod.splits intro: that(1,4))
next
  case (RoomRemoveDevice k did)
  with assms show thesis
    by (auto simp: rooms_removeDevice_def room_exists_def room_get_def saved_def
        room_removeDevice_def split: if_splits option.splits sum.splits prod.splits intro: that(1,5))
qed

section \<open>Properties\<close>

definition member :: "room_world \<Rightarrow> string \<Rightarrow> string \<Rightarrow> bool" where
  "member w k did \<longleftrightarrow> (\<exists>x. room_lookup w k = Some x \<and> did \<in> set (rm_devices x))"

lemma saved_ok:
  assumes "saved J r' a w = (Inr a, w')" "healthy (rv_disk w)" "rooms_wf r'" "no_duplicates r'"
  shows "room_service_ok J w'" and "room_lookup w' k = room_get k r'"
  using saved_Inr [OF assms(1,2)] assms(3,4) by (auto simp: room_service_ok_def room_lookup_def)

text \<open>
  A change that replaces what is stored under one key keeps the service in order, and the only
  new members are those of the replaced room.
\<close>

lemma saved_update:
  assumes "room_service_ok J w" "rv_reg w = Some r" "saved J r' a w = (Inr a, w')" "rooms_wf r'"
    and "\<And>k'. room_get k' r' = (if k' = k then v else room_get k' r)"
    and "\<And>x. v = Some x \<Longrightarrow> distinct (rm_devices x)"
  shows "room_service_ok J w'"
    and "member w' k' did \<Longrightarrow> \<not> member w k' did \<Longrightarrow> k' = k \<and> (\<exists>x. v = Some x \<and> did \<in> set (rm_devices x))"
proof -
  have r: "no_duplicates r" "healthy (rv_disk w)" using assms(1,2) by (auto simp: room_service_ok_def)
  have "no_duplicates r'"
    using r(1) assms(5,6) by (auto simp: no_duplicates_def room_get_def split: if_splits)
  note s = saved_ok [OF assms(3) r(2) assms(4) this]
  show "room_service_ok J w'" by (rule s(1))
  show "k' = k \<and> (\<exists>x. v = Some x \<and> did \<in> set (rm_devices x))" if "member w' k' did" "\<not> member w k' did"
  proof -
    have "room_lookup w' k' = (if k' = k then v else room_lookup w k')"
      using s(2) assms(2,5) by (simp add: room_lookup_def)
    with that show ?thesis by (auto simp: member_def split: if_splits)
  qed
qed

lemma room_handle_step:
  assumes "room_service_ok J w" "room_handle J q w = (Inr a, w')"
  shows "room_service_ok J w' \<and>
    (\<forall>k did. member w' k did \<longrightarrow> member w k did \<or>
       (\<exists>dr. q = RoomAddDevice (Some dr) k did \<and> device_get did dr \<noteq> None))"
proof -
  from assms(1) obtain r where r: "rv_reg w = Some r" "rooms_wf r" "no_duplicates r"
    by (auto simp: room_service_ok_def)
  have mem: "member w k did" if "room_get k r = Some x" "did \<in> set (rm_devices x)" for k did x
    using that r(1) by (simp add: member_def room_lookup_def)
  have dis: "distinct (rm_devices x)" if "room_get k r = Some x" for k x
    using that r(3) by (simp add: no_duplicates_def room_get_def)
  note upd = saved_update [OF assms(1) r(1)]
  from assms(2) r(1) show ?thesis
  proof (cases rule: room_handle_cases)
    case 1
    with assms(1) show ?thesis by simp
  next
    case (2 rnd n)
    let ?x = "\<lparr>rm_id = generateRoomId rnd, rm_name = n, rm_devices = []\<rparr>"
    note u = upd [OF 2(3) room_registry.wf_add [OF r(2)], of "rm_id ?x" "Some ?x"]
    have "room_get k (snd (room_add ?x r)) = (if k = rm_id ?x then Some ?x else room_get k r)" for k
      using room_registry.get_add [of k ?x r] 2(2) by simp
    with u show ?thesis by fastforce
  next
    case (3 k)
    with upd [OF 3(3) room_registry.wf_remove [OF r(2)], of k None] room_registry.get_remove [of _ k r]
    show ?thesis by fastforce
  next
    case (4 dr k did x)
    have "room_get k' (snd (room_addDevice k did r)) =
        (if k' = k then Some (x\<lparr>rm_devices := rm_devices x @ [did]\<rparr>) else room_get k' r)" for k'
      using 4(3,4) by (simp add: addDevice_get room_get_def)
    note u = upd [OF 4(5) addDevice_wf [OF r(2)] this]
    show ?thesis using u(1) u(2) 4 dis mem by fastforce
  next
    case (5 k did x)
    have "room_get k' (snd (room_removeDevice k did r)) =
        (if k' = k then Some (x\<lparr>rm_devices := remove1 did (rm_devices x)\<rparr>) else room_get k' r)" for k'
      using 5(2,3) by (simp add: removeDevice_get room_get_def)
    note u = upd [OF 5(4) removeDevice_wf [OF r(2)] this]
    show ?thesis using u(1) u(2) 5 dis mem by (fastforce dest: subsetD [OF set_remove1_subset])
  qed
qed

fun room_handle_all :: "'j json_api \<Rightarrow> 'j room_req list \<Rightarrow> room_world \<Rightarrow> cpp_result list outcome \<times> room_world" where
  "room_handle_all J [] w = (Inr [], w)"
| "room_handle_all J (q # qs) w =
     (case room_handle J q w of
        (Inl e, w') \<Rightarrow> (Inl e, w')
      | (Inr a, w') \<Rightarrow>
          (case room_handle_all J qs w' of (as, w'') \<Rightarrow> (map_sum id ((#) a) as, w'')))"

lemma room_handle_all_steps:
  "room_service_ok J w \<Longrightarrow> room_handle_all J qs w = (Inr as, w') \<Longrightarrow>
     room_service_ok J w' \<and>
     (\<forall>k did. member w' k did \<longrightarrow> member w k did \<or>
        (\<exists>dr. RoomAddDevice (Some dr) k did \<in> set qs \<and> device_get did dr \<noteq> None))"
proof (induction qs arbitrary: w as)
  case (Cons q qs)
  from Cons.prems(2) obtain a w1 where 1: "room_handle J q w = (Inr a, w1)"
    by (cases "room_handle J q w"; cases "fst (room_handle J q w)") auto
  with Cons.prems(2) obtain as' where 2: "room_handle_all J qs w1 = (Inr as', w')"
    by (cases "room_handle_all J qs w1"; cases "fst (room_handle_all J qs w1)") auto
  note s1 = room_handle_step [OF Cons.prems(1) 1]
  with Cons.IH [OF _ 2] have s2: "room_service_ok J w'"
    "\<forall>k did. member w' k did \<longrightarrow> member w1 k did \<or>
        (\<exists>dr. RoomAddDevice (Some dr) k did \<in> set qs \<and> device_get did dr \<noteq> None)" by blast+
  with s1 show ?case by (metis list.set_intros)
qed simp


definition demo_rooms_json :: "json json_api" where
  "demo_rooms_json = table_json
     [(''0'', JArray []),
      (''1'', JArray [room_toJson (table_json []) \<lparr>rm_id = generateRoomId 1, rm_name = ''attic'', rm_devices = []\<rparr>])]"

definition demo_room_world :: room_world where
  "demo_room_world = \<lparr>rv_reg = Some [],
     rv_disk = \<lparr>dk_dir_ok = True, dk_writable = True, dk_readable = True, dk_content = Some ''0''\<rparr>\<rparr>"

definition demo_room_after :: room_world where
  "demo_room_after = snd (room_handle_all demo_rooms_json [RoomAdd 1 ''attic''] demo_room_world)"


end
