(* ===== verification/Paths.thy ===== *)
theory Paths
  imports Results
begin

text \<open>
  \<open>PathManager\<close>, \<open>PathValidator\<close> and the resolvers (src/paths, includes/paths). A
  \<open>std::filesystem::path\<close> is its POSIX text; the Windows build differs in separators and root
  names and is not modelled beyond the name of its environment variable. The file system is
  the record \<open>fs\<close> of the operations the code calls; querying a path is taken not to fail.
\<close>

section \<open>std::filesystem::path\<close>

definition path_is_absolute :: "string \<Rightarrow> bool" where
  "path_is_absolute p \<longleftrightarrow> p \<noteq> [] \<and> hd p = CHR ''/''"

text \<open>\<open>operator/\<close>: an absolute right operand replaces the left one.\<close>

definition path_join :: "string \<Rightarrow> string \<Rightarrow> string" where
  "path_join a b =
     (if path_is_absolute b then b
      else if a = [] \<or> last a = CHR ''/'' then a @ b
      else a @ ''/'' @ b)"

definition path_filename :: "string \<Rightarrow> string" where
  "path_filename p = rev (takeWhile (\<lambda>c. c \<noteq> CHR ''/'') (rev p))"

definition path_parent :: "string \<Rightarrow> string" where
  "path_parent p =
     (let pre = rev (dropWhile (\<lambda>c. c \<noteq> CHR ''/'') (rev p));
          stripped = rev (dropWhile (\<lambda>c. c = CHR ''/'') (rev pre))
      in if pre \<noteq> [] \<and> stripped = [] then ''/'' else stripped)"

definition path_dot :: "string \<Rightarrow> nat option" where
  "path_dot f =
     (if f = ''.'' \<or> f = ''..'' then None
      else case chr_rfind CHR ''.'' f of None \<Rightarrow> None | Some i \<Rightarrow> if i = 0 then None else Some i)"

definition path_stem :: "string \<Rightarrow> string" where
  "path_stem p = (let f = path_filename p in case path_dot f of None \<Rightarrow> f | Some i \<Rightarrow> take i f)"

definition path_extension :: "string \<Rightarrow> string" where
  "path_extension p = (let f = path_filename p in case path_dot f of None \<Rightarrow> [] | Some i \<Rightarrow> drop i f)"

section \<open>PathValidator\<close>

definition validateEnvironmentVariable :: "string option \<Rightarrow> string \<Rightarrow> unit outcome" where
  "validateEnvironmentVariable value name =
     (case value of
        None \<Rightarrow> Inl (StdException (name @ '' environment variable is not set''))
      | Some v \<Rightarrow> if v = [] then Inl (StdException (name @ '' environment variable is empty'')) else Inr ())"

definition validateAbsolutePath :: "string \<Rightarrow> string \<Rightarrow> unit outcome" where
  "validateAbsolutePath path ctxt =
     (if \<not> path_is_absolute path
      then Inl (StdException (ctxt @ '' must be an absolute path, got: '' @ path)) else Inr ())"

record 'f fs =
  fs_exists :: "'f \<Rightarrow> string \<Rightarrow> bool"
  fs_is_directory :: "'f \<Rightarrow> string \<Rightarrow> bool"
  fs_create_directories :: "string \<Rightarrow> 'f \<Rightarrow> unit outcome \<times> 'f"

definition validatePathExists :: "'f fs \<Rightarrow> 'f \<Rightarrow> string \<Rightarrow> string \<Rightarrow> unit outcome" where
  "validatePathExists F d path ctxt =
     (if \<not> fs_exists F d path then Inl (StdException (ctxt @ '' does not exist: '' @ path)) else Inr ())"

definition validateIsDirectory :: "'f fs \<Rightarrow> 'f \<Rightarrow> string \<Rightarrow> string \<Rightarrow> unit outcome" where
  "validateIsDirectory F d path ctxt =
     (if \<not> fs_is_directory F d path
      then Inl (StdException (ctxt @ '' is not a directory: '' @ path)) else Inr ())"

section \<open>Resolvers\<close>

definition getNexusPath :: "string \<Rightarrow> string option \<Rightarrow> string outcome" where
  "getNexusPath var home =
     bind_exn (validateEnvironmentVariable home var) (\<lambda>_.
       case home of
         None \<Rightarrow> Inl Undefined
       | Some h \<Rightarrow> bind_exn (validateAbsolutePath h var) (\<lambda>_. Inr (path_join h ''.nexus'')))"

definition unix_getNexusPath :: "string option \<Rightarrow> string outcome" where
  "unix_getNexusPath home = getNexusPath ''HOME'' home"

definition windows_getNexusPath :: "string option \<Rightarrow> string outcome" where
  "windows_getNexusPath profile = getNexusPath ''USERPROFILE'' profile"

section \<open>PathManager\<close>

text \<open>A resolver is a function of the base path, which never changes after construction.\<close>

record path_manager =
  pm_base :: string
  pm_resolvers :: "string \<Rightarrow> (string \<Rightarrow> string) option"

definition registerResolver ::
  "string \<Rightarrow> (string \<Rightarrow> string) option \<Rightarrow> path_manager \<Rightarrow> path_manager outcome" where
  "registerResolver key res pm =
     (if key = [] then Inl (StdException ''Path key cannot be empty'')
      else case res of
             None \<Rightarrow> Inl (StdException (''Path resolver cannot be null for key: '' @ key))
           | Some f \<Rightarrow> Inr (pm\<lparr>pm_resolvers := (pm_resolvers pm)(key \<mapsto> f)\<rparr>))"

definition registerPath :: "string \<Rightarrow> string \<Rightarrow> path_manager \<Rightarrow> path_manager outcome" where
  "registerPath key rel pm =
     (if key = [] then Inl (StdException ''Path key cannot be empty'')
      else registerResolver key (Some (\<lambda>base. path_join base rel)) pm)"

definition core_paths :: "(string \<times> (string \<Rightarrow> string)) list" where
  "core_paths =
     [(''base'', \<lambda>b. b),
      (''modules'', \<lambda>b. path_join b ''modules''),
      (''modules.builtin'', \<lambda>b. path_join (path_join b ''modules'') ''builtin''),
      (''modules.downloaded'', \<lambda>b. path_join (path_join b ''modules'') ''downloaded''),
      (''modules.custom'', \<lambda>b. path_join (path_join b ''modules'') ''custom''),
      (''config'', \<lambda>b. path_join b ''config''),
      (''cache'', \<lambda>b. path_join b ''cache''),
      (''cache.downloads'', \<lambda>b. path_join (path_join b ''cache'') ''downloads''),
      (''logs'', \<lambda>b. path_join b ''logs''),
      (''data'', \<lambda>b. path_join b ''data''),
      (''data.scans'', \<lambda>b. path_join (path_join b ''data'') ''scan-results'')]"

fun register_all :: "(string \<times> (string \<Rightarrow> string)) list \<Rightarrow> path_manager \<Rightarrow> path_manager outcome" where
  "register_all [] pm = Inr pm"
| "register_all ((k, f) # kfs) pm = bind_exn (registerResolver k (Some f) pm) (register_all kfs)"

definition registerCorePaths :: "path_manager \<Rightarrow> path_manager outcome" where
  "registerCorePaths pm = register_all core_paths pm"

text \<open>\<open>initialize\<close>: every exception of its body is a \<open>PathResolutionException\<close>, rethrown with a prefix.\<close>

definition pm_initialize :: "'f fs \<Rightarrow> 'f \<Rightarrow> string outcome \<Rightarrow> string outcome" where
  "pm_initialize F d nexus_path =
     (case bind_exn nexus_path (\<lambda>base.
             let parent = path_parent base
             in if \<not> fs_exists F d parent
                then Inl (StdException (''Parent directory does not exist: '' @ parent))
                else Inr base) of
        Inl (StdException m) \<Rightarrow> Inl (StdException (''Failed to initialize PathManager: '' @ m))
      | r \<Rightarrow> r)"

definition path_manager_new :: "'f fs \<Rightarrow> 'f \<Rightarrow> string outcome \<Rightarrow> path_manager outcome" where
  "path_manager_new F d nexus_path =
     bind_exn (pm_initialize F d nexus_path) (\<lambda>base.
       registerCorePaths \<lparr>pm_base = base, pm_resolvers = Map.empty\<rparr>)"

definition pm_get :: "path_manager \<Rightarrow> string \<Rightarrow> string outcome" where
  "pm_get pm key =
     (case pm_resolvers pm key of
        None \<Rightarrow> Inl (StdException (''Unknown path key: '' @ key))
      | Some f \<Rightarrow> Inr (f (pm_base pm)))"

definition pm_exists :: "'f fs \<Rightarrow> 'f \<Rightarrow> path_manager \<Rightarrow> string \<Rightarrow> bool" where
  "pm_exists F d pm key = (case pm_get pm key of Inl _ \<Rightarrow> False | Inr p \<Rightarrow> fs_exists F d p)"

definition getCustom :: "path_manager \<Rightarrow> string \<Rightarrow> string outcome" where
  "getCustom pm rel =
     (if rel = [] then Inl (StdException ''Relative path cannot be empty'')
      else Inr (path_join (pm_base pm) rel))"

definition ensureExists :: "'f fs \<Rightarrow> path_manager \<Rightarrow> string \<Rightarrow> 'f \<Rightarrow> unit outcome \<times> 'f" where
  "ensureExists F pm key d =
     (case pm_get pm key of
        Inl e \<Rightarrow> (Inl e, d)
      | Inr path \<Rightarrow>
          (case (if fs_exists F d path then (Inr (), d) else fs_create_directories F path d) of
             (Inl (StdException m), d') \<Rightarrow>
               (Inl (StdException (''Failed to create directory for '' @ quoted key @ '': '' @ m)), d')
           | (Inl e, d') \<Rightarrow> (Inl e, d')
           | (Inr _, d') \<Rightarrow> (validateIsDirectory F d' path (''Path '' @ quoted key), d')))"

section \<open>Lemmas\<close>

definition below :: "string \<Rightarrow> string \<Rightarrow> bool" where
  "below base p \<longleftrightarrow> p = base \<or> (\<exists>rel. p = base @ ''/'' @ rel)"

lemma below_refl [simp]: "below b b"
  by (simp add: below_def)

lemma below_join:
  "below b p \<Longrightarrow> p \<noteq> [] \<Longrightarrow> last p \<noteq> CHR ''/'' \<Longrightarrow> \<not> path_is_absolute r \<Longrightarrow> below b (path_join p r)"
  by (auto simp: below_def path_join_def)

lemma join_last: "r \<noteq> [] \<Longrightarrow> \<not> path_is_absolute r \<Longrightarrow> last (path_join p r) = last r"
  by (simp add: path_join_def)

lemma join_not_Nil: "r \<noteq> [] \<Longrightarrow> path_join p r \<noteq> []"
  by (simp add: path_join_def)

lemma register_all_get:
  "register_all kfs pm = Inr pm' \<Longrightarrow> distinct (map fst kfs) \<Longrightarrow>
     pm_base pm' = pm_base pm \<and>
     pm_resolvers pm' = (\<lambda>k. case map_of kfs k of None \<Rightarrow> pm_resolvers pm k | Some f \<Rightarrow> Some f)"
proof (induction kfs arbitrary: pm)
  case (Cons kf kfs)
  obtain k f where kf: "kf = (k, f)" by (cases kf)
  with Cons.prems obtain pm1 where 1: "registerResolver k (Some f) pm = Inr pm1" "register_all kfs pm1 = Inr pm'"
    by (auto simp: bind_exn_Inr)
  then have "pm_base pm1 = pm_base pm" "pm_resolvers pm1 = (pm_resolvers pm)(k \<mapsto> f)"
    by (auto simp: registerResolver_def split: if_splits)
  moreover have "map_of kfs k = None" using Cons.prems(2) kf by (simp add: map_of_eq_None_iff)
  ultimately show ?case
    using Cons.IH [OF 1(2)] Cons.prems(2) kf by (auto simp: fun_eq_iff split: option.split)
qed (auto simp: fun_eq_iff)

lemma register_all_total: "[] \<notin> set (map fst kfs) \<Longrightarrow> \<exists>pm'. register_all kfs pm = Inr pm'"
proof (induction kfs arbitrary: pm)
  case (Cons kf kfs)
  then show ?case by (cases kf) (auto simp: registerResolver_def)
qed simp

lemma core_paths_keys: "distinct (map fst core_paths)" "[] \<notin> set (map fst core_paths)"
  by (simp_all add: core_paths_def)

section \<open>Properties\<close>

lemma core_path_below:
  assumes "base \<noteq> []" "last base \<noteq> CHR ''/''" "(k, f) \<in> set core_paths"
  shows "below base (f base)"
  using assms by (auto simp: core_paths_def below_def path_join_def path_is_absolute_def)

text \<open>
  When the path manager can be constructed, every core key resolves to a path that lies in
  the directory \<open>.nexus\<close> of the home directory, and that directory is absolute.
\<close>

theorem core_paths_lie_in_the_nexus_directory:
  assumes "path_manager_new F d (unix_getNexusPath home) = Inr pm" "k \<in> fst ` set core_paths"
  shows "\<exists>p h. pm_get pm k = Inr p \<and> home = Some h \<and> path_is_absolute (pm_base pm) \<and>
    pm_base pm = path_join h ''.nexus'' \<and> below (pm_base pm) p"
proof -
  from assms(1) obtain base where init: "pm_initialize F d (unix_getNexusPath home) = Inr base"
    and reg: "register_all core_paths \<lparr>pm_base = base, pm_resolvers = Map.empty\<rparr> = Inr pm"
    by (auto simp: path_manager_new_def bind_exn_Inr registerCorePaths_def)
  from init have "unix_getNexusPath home = Inr base"
    by (auto simp: pm_initialize_def bind_exn_def Let_def split: sum.splits exn.splits if_splits)
  then obtain h where h: "home = Some h" "path_is_absolute h" "base = path_join h ''.nexus''"
    by (auto simp: unix_getNexusPath_def getNexusPath_def bind_exn_Inr validateAbsolutePath_def
        split: option.splits if_splits)
  have base: "base \<noteq> []" "last base \<noteq> CHR ''/''" "path_is_absolute base"
    using h by (auto simp: path_join_def path_is_absolute_def)
  from register_all_get [OF reg core_paths_keys(1)]
  have pm: "pm_base pm = base" "pm_resolvers pm k = map_of core_paths k"
    by (auto split: option.splits)
  from assms(2) obtain f where "(k, f) \<in> set core_paths" by auto
  then have "map_of core_paths k = Some f" "below base (f base)"
    using core_paths_keys(1) core_path_below [OF base(1,2)] by simp_all
  with pm h base show ?thesis by (simp add: pm_get_def)
qed

definition demo_fs :: "unit fs" where
  "demo_fs = \<lparr>fs_exists = (\<lambda>_ _. True), fs_is_directory = (\<lambda>_ _. True),
     fs_create_directories = (\<lambda>_ d. (Inr (), d))\<rparr>"

lemma core_paths_lie_in_the_nexus_directory_witness:
  "\<exists>pm p h. pm_get pm ''data.scans'' = Inr p \<and> Some ''/root'' = Some h \<and> path_is_absolute (pm_base pm) \<and>
    pm_base pm = path_join h ''.nexus'' \<and> below (pm_base pm) p"
proof -
  have "\<exists>pm. registerCorePaths q = Inr pm" for q
    unfolding registerCorePaths_def by (rule register_all_total [OF core_paths_keys(2)])
  moreover have "unix_getNexusPath (Some ''/root'') = Inr ''/root/.nexus''"
    by (simp add: unix_getNexusPath_def getNexusPath_def validateEnvironmentVariable_def
        validateAbsolutePath_def path_is_absolute_def path_join_def)
  ultimately obtain pm where "path_manager_new demo_fs () (unix_getNexusPath (Some ''/root'')) = Inr pm"
    by (auto simp: path_manager_new_def pm_initialize_def demo_fs_def Let_def)
  from core_paths_lie_in_the_nexus_directory [OF this, of "''data.scans''"] show ?thesis
    by (auto simp: core_paths_def)
qed

text \<open>A path given as relative that is absolute is used as it is.\<close>

lemma absolute_custom_path_escapes: "path_is_absolute p \<Longrightarrow> getCustom pm p = Inr p"
  by (auto simp: getCustom_def path_join_def path_is_absolute_def)

end
