(* ===== verification/Http.thy ===== *)
theory Http
  imports Results
begin

text \<open>
  \<open>Endpoint\<close>, \<open>RouteEntry\<close>, \<open>IController\<close> and \<open>HttpServer\<close> (src/server, src/http). The
  sockets, the request parser and the route matching are cpp-httplib's, a third-party package;
  what the program gives it is the list of bindings, method by method, that \<open>bindRoutes\<close>
  returns. A handler is a value of type \<open>'h\<close> whose meaning the controllers define; \<open>None\<close> is
  an empty \<open>std::function\<close>.
\<close>

section \<open>HttpMethod\<close>

datatype http_method = GET | POST | PATCH | PUT | DELETE | HEAD | OPTIONS

definition httpMethodToString :: "http_method \<Rightarrow> string" where
  "httpMethodToString m =
     (case m of GET \<Rightarrow> ''GET'' | POST \<Rightarrow> ''POST'' | PUT \<Rightarrow> ''PUT'' | PATCH \<Rightarrow> ''PATCH''
      | DELETE \<Rightarrow> ''DELETE'' | HEAD \<Rightarrow> ''HEAD'' | OPTIONS \<Rightarrow> ''OPTIONS'')"

section \<open>Requests and responses\<close>

text \<open>The parts of httplib's request and response objects that the handlers touch.\<close>

record request =
  rq_method :: string
  rq_path :: string
  rq_body :: string
  rq_params :: "string \<Rightarrow> string option"

record response =
  rs_status :: int
  rs_body :: string
  rs_type :: string

definition set_content :: "string \<Rightarrow> response \<Rightarrow> response" where
  "set_content body res = res\<lparr>rs_body := body, rs_type := ''application/json''\<rparr>"

text \<open>\<open>req.path_params.at(key)\<close>\<close>

definition path_param :: "request \<Rightarrow> string \<Rightarrow> string outcome" where
  "path_param req key =
     (case rq_params req key of None \<Rightarrow> Inl (StdException ''out_of_range'') | Some v \<Rightarrow> Inr v)"

text \<open>\<open>res.status = r.httpStatus(); res.set_content(r.toJson(), ...)\<close>\<close>

definition answer :: "'j json_api \<Rightarrow> cpp_result \<Rightarrow> response \<Rightarrow> response outcome" where
  "answer J r res =
     bind_exn (result_toJson J r) (\<lambda>body. Inr (set_content body (res\<lparr>rs_status := r_status r\<rparr>)))"

section \<open>Endpoint\<close>

record endpoint_param =
  pa_name :: string
  pa_in :: string
  pa_type :: string
  pa_description :: string
  pa_required :: bool

record 'h endpoint =
  ep_path :: string
  ep_name :: string
  ep_method :: http_method
  ep_handler :: "'h option"
  ep_description :: string
  ep_params :: "endpoint_param list"

definition endpoint_new :: "string \<Rightarrow> string \<Rightarrow> http_method \<Rightarrow> 'h option \<Rightarrow> 'h endpoint outcome" where
  "endpoint_new path name mth handler =
     (if path = [] then Inl (StdException ''Endpoint path must not be empty.'')
      else if name = [] then Inl (StdException ''Endpoint name must not be empty.'')
      else if handler = None then Inl (StdException ''Endpoint handler must not be null.'')
      else Inr \<lparr>ep_path = path, ep_name = name, ep_method = mth, ep_handler = handler,
                ep_description = [], ep_params = []\<rparr>)"

definition endpoint_describe :: "string \<Rightarrow> 'h endpoint \<Rightarrow> 'h endpoint" where
  "endpoint_describe d ep = ep\<lparr>ep_description := d\<rparr>"

definition endpoint_param_add :: "string \<Rightarrow> string \<Rightarrow> string \<Rightarrow> string \<Rightarrow> bool \<Rightarrow> 'h endpoint \<Rightarrow> 'h endpoint" where
  "endpoint_param_add name loc ty d req ep =
     ep\<lparr>ep_params := ep_params ep @
         [\<lparr>pa_name = name, pa_in = loc, pa_type = ty, pa_description = d, pa_required = req\<rparr>]\<rparr>"

text \<open>The loop of \<open>buildInputSchema\<close> over the parameters, with the two objects it fills.\<close>

fun schema_loop ::
  "'j json_api \<Rightarrow> endpoint_param list \<Rightarrow> 'j \<Rightarrow> string list \<Rightarrow> ('j \<times> string list) outcome" where
  "schema_loop J [] props req = Inr (props, req)"
| "schema_loop J (p # ps) props req =
     bind_exn (let prop = j_object J [(''type'', j_string J (pa_type p))]
               in if pa_description p \<noteq> [] then j_set J prop ''description'' (j_string J (pa_description p))
                  else Inr prop) (\<lambda>prop.
     bind_exn (j_set J props (pa_name p) prop) (\<lambda>props'.
       schema_loop J ps props' (if pa_required p then req @ [pa_name p] else req)))"

definition buildInputSchema :: "'j json_api \<Rightarrow> 'h endpoint \<Rightarrow> 'j outcome" where
  "buildInputSchema J ep =
     bind_exn (schema_loop J (ep_params ep) (j_object J []) []) (\<lambda>(props, req).
       let schema = j_object J [(''type'', j_string J ''object''), (''properties'', props)]
       in if req \<noteq> [] then j_set J schema ''required'' (j_array J (map (j_string J) req))
          else Inr schema)"

definition endpoint_toString :: "'h endpoint \<Rightarrow> string" where
  "endpoint_toString ep = ''['' @ ep_name ep @ ''] '' @ httpMethodToString (ep_method ep) @ '' '' @ ep_path ep"

definition endpoint_eq :: "'h endpoint \<Rightarrow> 'h endpoint \<Rightarrow> bool" where
  "endpoint_eq a b \<longleftrightarrow> ep_method a = ep_method b \<and> ep_path a = ep_path b"

section \<open>Controllers\<close>

record 'h route_entry =
  re_method :: http_method
  re_path :: string
  re_name :: string
  re_handler :: "'h option"
  re_description :: string

definition route :: "'h \<Rightarrow> http_method \<Rightarrow> string \<Rightarrow> string \<Rightarrow> string \<Rightarrow> 'h route_entry" where
  "route fn mth path name d =
     \<lparr>re_method = mth, re_path = path, re_name = name, re_handler = Some fn, re_description = d\<rparr>"

text \<open>\<open>addRoute\<close> appends; \<open>registerRoutes\<close> of a controller adds its table entry by entry.\<close>

definition addRoute :: "'h endpoint \<Rightarrow> 'h endpoint list \<Rightarrow> 'h endpoint list" where
  "addRoute ep routes = routes @ [ep]"

fun controller_registerRoutes ::
  "'h route_entry list \<Rightarrow> 'h endpoint list \<Rightarrow> unit outcome \<times> 'h endpoint list" where
  "controller_registerRoutes [] routes = (Inr (), routes)"
| "controller_registerRoutes (e # es) routes =
     (case endpoint_new (re_path e) (re_name e) (re_method e) (re_handler e) of
        Inl x \<Rightarrow> (Inl x, routes)
      | Inr ep \<Rightarrow>
          controller_registerRoutes es
            (addRoute (if re_description e \<noteq> [] then endpoint_describe (re_description e) ep else ep) routes))"

section \<open>HttpServer\<close>

record 'h http_server =
  hs_running :: bool
  hs_routes :: "'h endpoint list"
  hs_bound :: "(http_method \<times> string \<times> 'h endpoint) list"

definition http_server_new :: "'h http_server" where
  "http_server_new = \<lparr>hs_running = False, hs_routes = [], hs_bound = []\<rparr>"

definition server_use :: "'h route_entry list \<Rightarrow> 'h http_server \<Rightarrow> unit outcome \<times> 'h http_server" where
  "server_use table s =
     (case controller_registerRoutes table (hs_routes s) of (r, routes) \<Rightarrow> (r, s\<lparr>hs_routes := routes\<rparr>))"

text \<open>The three built-in endpoints; \<open>st\<close>, \<open>he\<close> and \<open>me\<close> are their handlers.\<close>

definition builtin_endpoint :: "string \<Rightarrow> string \<Rightarrow> 'h \<Rightarrow> string \<Rightarrow> 'h endpoint" where
  "builtin_endpoint path name h d =
     endpoint_describe d \<lparr>ep_path = path, ep_name = name, ep_method = GET, ep_handler = Some h,
       ep_description = [], ep_params = []\<rparr>"

definition builtins :: "'h \<Rightarrow> 'h \<Rightarrow> 'h \<Rightarrow> 'h endpoint list" where
  "builtins st he me =
     [builtin_endpoint ''/api/status'' ''status'' st ''Check whether the server is running'',
      builtin_endpoint ''/api/health'' ''health'' he
        ''Return uptime, MQTT connection status and number of loaded modules'',
      builtin_endpoint ''/api/metrics'' ''metrics'' me
        ''Return detailed runtime metrics including memory usage and endpoint count'']"

definition server_registerRoutes :: "'h \<Rightarrow> 'h \<Rightarrow> 'h \<Rightarrow> 'h http_server \<Rightarrow> 'h http_server" where
  "server_registerRoutes st he me s = s\<lparr>hs_routes := builtins st he me @ hs_routes s\<rparr>"

fun bindRoutes :: "'h endpoint list \<Rightarrow> (http_method \<times> string \<times> 'h endpoint) list" where
  "bindRoutes [] = []"
| "bindRoutes (ep # eps) =
     (if ep_method ep \<in> {GET, POST, PUT, PATCH, DELETE}
      then (ep_method ep, ep_path ep, ep) # bindRoutes eps
      else bindRoutes eps)"

text \<open>The warnings \<open>bindRoutes\<close> logs for methods it does not bind.\<close>

fun bind_warnings :: "'h endpoint list \<Rightarrow> string list" where
  "bind_warnings [] = []"
| "bind_warnings (ep # eps) =
     (if ep_method ep \<in> {GET, POST, PUT, PATCH, DELETE} then bind_warnings eps
      else (''Unsupported method for endpoint: '' @ endpoint_toString ep) # bind_warnings eps)"

definition method_label :: "http_method \<Rightarrow> string" where
  "method_label m =
     (case m of GET \<Rightarrow> ''GET   '' | POST \<Rightarrow> ''POST  '' | PUT \<Rightarrow> ''PUT   '' | PATCH \<Rightarrow> ''PATCH ''
      | _ \<Rightarrow> ''?     '')"

text \<open>\<open>start\<close>: the new server and the lines it logs before its thread starts.\<close>

definition server_start :: "'h \<Rightarrow> 'h \<Rightarrow> 'h \<Rightarrow> 'h http_server \<Rightarrow> 'h http_server \<times> string list" where
  "server_start st he me s =
     (if hs_running s then (s, [])
      else
        let s1 = server_registerRoutes st he me (s\<lparr>hs_running := True\<rparr>);
            s2 = s1\<lparr>hs_bound := hs_bound s1 @ bindRoutes (hs_routes s1)\<rparr>
        in (s2, bind_warnings (hs_routes s1) @ (''Registered '' @ nat_to_string (length (hs_routes s2)) @ '' endpoint(s):'')
              # map (\<lambda>ep. ''  '' @ method_label (ep_method ep) @ ep_path ep) (hs_routes s2)))"

definition server_stop :: "'h http_server \<Rightarrow> 'h http_server" where
  "server_stop s = (if \<not> hs_running s then s else s\<lparr>hs_running := False\<rparr>)"

text \<open>The access log: level, component and message.\<close>

definition access_log :: "request \<Rightarrow> response \<Rightarrow> string \<times> string \<times> string" where
  "access_log req res =
     (let msg = rq_method req @ '' '' @ rq_path req @ '' -> '' @ int_to_string (rs_status res)
      in if rs_status res \<ge> 500 then (''error'', ''HttpServer'', msg)
         else if rs_status res \<ge> 400 then (''warn'', ''HttpServer'', msg)
         else (''info'', ''HttpServer'', msg))"

text \<open>The pre-routing handler: the status of a request it answers itself.\<close>

definition pre_routing :: "request \<Rightarrow> int option" where
  "pre_routing req = (if rq_method req = ''OPTIONS'' then Some 204 else None)"

subsection \<open>The built-in handlers\<close>

definition bool_text :: "bool \<Rightarrow> string" where
  "bool_text b = (if b then ''true'' else ''false'')"

definition dq :: string where "dq = [CHR 0x22]"

definition server_toJson :: "bool \<Rightarrow> string \<Rightarrow> string" where
  "server_toJson success output =
     ''{'' @ dq @ ''success'' @ dq @ '': '' @ bool_text success @ '',''
     @ dq @ ''output'' @ dq @ '': '' @ dq @ output @ dq @ ''}''"

definition status_handler :: "response \<Rightarrow> response" where
  "status_handler res = set_content (server_toJson True ''OK'') res"

definition health_body :: "nat \<Rightarrow> bool \<Rightarrow> nat \<Rightarrow> string" where
  "health_body uptime mqtt modules =
     ''{'' @ dq @ ''status'' @ dq @ '':'' @ dq @ ''ok'' @ dq @ '',''
     @ dq @ ''uptime_seconds'' @ dq @ '':'' @ nat_to_string uptime @ '',''
     @ dq @ ''uptime_human'' @ dq @ '':'' @ dq
     @ nat_to_string (uptime div 3600) @ ''h ''
     @ nat_to_string (uptime mod 3600 div 60) @ ''m ''
     @ nat_to_string (uptime mod 60) @ ''s'' @ dq @ '',''
     @ dq @ ''mqtt_connected'' @ dq @ '':'' @ bool_text mqtt @ '',''
     @ dq @ ''modules_loaded'' @ dq @ '':'' @ nat_to_string modules
     @ ''}''"

definition metrics_body :: "nat \<Rightarrow> bool \<Rightarrow> nat \<Rightarrow> int \<Rightarrow> nat \<Rightarrow> string" where
  "metrics_body uptime mqtt modules rss endpoints =
     ''{'' @ dq @ ''uptime_seconds'' @ dq @ '':'' @ nat_to_string uptime @ '',''
     @ dq @ ''mqtt_connected'' @ dq @ '':'' @ bool_text mqtt @ '',''
     @ dq @ ''modules_loaded'' @ dq @ '':'' @ nat_to_string modules @ '',''
     @ dq @ ''memory_rss_kb'' @ dq @ '':'' @ int_to_string rss @ '',''
     @ dq @ ''endpoints_registered'' @ dq @ '':'' @ nat_to_string endpoints
     @ ''}''"

section \<open>Lemmas\<close>

definition entry_ok :: "'h route_entry \<Rightarrow> bool" where
  "entry_ok e \<longleftrightarrow> re_path e \<noteq> [] \<and> re_name e \<noteq> [] \<and> re_handler e \<noteq> None"

definition endpoint_of :: "'h route_entry \<Rightarrow> 'h endpoint" where
  "endpoint_of e = \<lparr>ep_path = re_path e, ep_name = re_name e, ep_method = re_method e,
     ep_handler = re_handler e, ep_description = re_description e, ep_params = []\<rparr>"

lemma registerRoutes_ok:
  "\<forall>e \<in> set table. entry_ok e \<Longrightarrow>
     controller_registerRoutes table routes = (Inr (), routes @ map endpoint_of table)"
proof (induction table arbitrary: routes)
  case (Cons e es)
  then show ?case
    by (auto simp: entry_ok_def endpoint_new_def addRoute_def endpoint_describe_def endpoint_of_def)
qed simp

lemma bindRoutes_filter:
  "bindRoutes eps = map (\<lambda>ep. (ep_method ep, ep_path ep, ep))
     (filter (\<lambda>ep. ep_method ep \<in> {GET, POST, PUT, PATCH, DELETE}) eps)"
  by (induction eps) auto

section \<open>Properties\<close>

definition param_json :: "'j json_api \<Rightarrow> endpoint_param \<Rightarrow> 'j" where
  "param_json J p = j_object J ((''type'', j_string J (pa_type p))
     # (if pa_description p = [] then [] else [(''description'', j_string J (pa_description p))]))"

lemma schema_loop_spec:
  assumes "json_laws J" "distinct (map fst kvs @ map pa_name ps)"
  shows "schema_loop J ps (j_object J kvs) req =
    Inr (j_object J (kvs @ map (\<lambda>p. (pa_name p, param_json J p)) ps), req @ map pa_name (filter pa_required ps))"
  using assms(2)
proof (induction ps arbitrary: kvs req)
  case (Cons p ps)
  have fresh: "assoc_set (pa_name p) v kvs = kvs @ [(pa_name p, v)]" for v
    using Cons.prems by (induction kvs) auto
  have IH: "schema_loop J ps (j_object J (kvs @ [(pa_name p, v)])) req' =
    Inr (j_object J ((kvs @ [(pa_name p, v)]) @ map (\<lambda>p. (pa_name p, param_json J p)) ps),
      req' @ map pa_name (filter pa_required ps))" for v req'
    by (rule Cons.IH) (use Cons.prems in simp)
  have "(if pa_description p \<noteq> [] then j_set J (j_object J [(''type'', j_string J (pa_type p))]) ''description''
      (j_string J (pa_description p)) else Inr (j_object J [(''type'', j_string J (pa_type p))])) = Inr (param_json J p)"
    using assms(1) by (simp add: param_json_def json_laws_object)
  then show ?case
    using Cons.prems assms(1) fresh IH by (simp add: json_laws_object)
qed simp

text \<open>
  The input schema of an endpoint whose parameters have different names is an object with
  one property per parameter, in order, with its type and its description when it has one,
  and the key \<open>required\<close> lists exactly the required parameters and is absent without any.
\<close>

theorem schema_lists_the_parameters:
  assumes "json_laws J" "distinct (map pa_name (ep_params ep))"
  shows "buildInputSchema J ep = Inr (j_object J
      ([(''type'', j_string J ''object''),
        (''properties'', j_object J (map (\<lambda>p. (pa_name p, param_json J p)) (ep_params ep)))]
       @ (if filter pa_required (ep_params ep) = [] then []
          else [(''required'', j_array J (map (j_string J) (map pa_name (filter pa_required (ep_params ep)))))])))"
  using schema_loop_spec [OF assms(1), of "[]" "ep_params ep" "[]"] assms
  by (simp add: buildInputSchema_def json_laws_object Let_def)

lemma schema_lists_the_parameters_witness:
  "buildInputSchema (table_json []) (endpoint_param_add ''id'' ''path'' ''string'' ''the id'' True
     \<lparr>ep_path = ''/d/:id'', ep_name = ''d'', ep_method = GET, ep_handler = Some (0 :: nat), ep_description = [], ep_params = []\<rparr>)
   = Inr (JObject [(''type'', JString ''object''),
       (''properties'', JObject [(''id'', JObject [(''type'', JString ''string''), (''description'', JString ''the id'')])]),
       (''required'', JArray [JString ''id''])])"
  using schema_lists_the_parameters [of "table_json []" "endpoint_param_add ''id'' ''path'' ''string'' ''the id'' True
     \<lparr>ep_path = ''/d/:id'', ep_name = ''d'', ep_method = GET, ep_handler = Some (0 :: nat), ep_description = [], ep_params = []\<rparr>"]
  by (simp add: endpoint_param_add_def param_json_def)

lemma uses_ok:
  "\<forall>t \<in> set tables. \<forall>e \<in> set t. entry_ok e \<Longrightarrow>
     fold (\<lambda>t s. snd (server_use t s)) tables s = s\<lparr>hs_routes := hs_routes s @ map endpoint_of (concat tables)\<rparr>"
  by (induction tables arbitrary: s) (simp_all add: server_use_def registerRoutes_ok)

text \<open>
  C32: a new server that was given controllers with complete route entries and started binds the
  three built-in endpoints and then every entry of every table, in order, each with its own
  method and path, leaving out only those with a method the HTTP library is not told about.
\<close>

theorem start_binds_every_route:
  assumes "\<forall>t \<in> set tables. \<forall>e \<in> set t. entry_ok e"
  shows "hs_bound (fst (server_start st he me (fold (\<lambda>t s. snd (server_use t s)) tables http_server_new))) =
     map (\<lambda>ep. (ep_method ep, ep_path ep, ep))
       (builtins st he me @ filter (\<lambda>ep. ep_method ep \<in> {GET, POST, PUT, PATCH, DELETE}) (map endpoint_of (concat tables)))"
proof -
  have "filter (\<lambda>ep. ep_method ep \<in> {GET, POST, PUT, PATCH, DELETE}) (builtins st he me) = builtins st he me"
    by (simp add: builtins_def builtin_endpoint_def endpoint_describe_def)
  then show ?thesis
    by (simp add: uses_ok [OF assms] server_start_def http_server_new_def server_registerRoutes_def
        Let_def bindRoutes_filter)
qed

lemma start_binds_every_route_witness:
  "hs_bound (fst (server_start 0 1 2 (fold (\<lambda>t s. snd (server_use t s))
       [[route (3 :: nat) DELETE ''/a'' ''a'' [], route 4 HEAD ''/b'' ''b'' []]] http_server_new))) =
     map (\<lambda>ep. (ep_method ep, ep_path ep, ep))
       (builtins 0 1 2 @ filter (\<lambda>ep. ep_method ep \<in> {GET, POST, PUT, PATCH, DELETE})
          (map endpoint_of (concat [[route (3 :: nat) DELETE ''/a'' ''a'' [], route 4 HEAD ''/b'' ''b'' []]])))"
  by (rule start_binds_every_route) (simp add: entry_ok_def route_def)

end
