(* ===== verification/Config.thy ===== *)
theory Config
  imports Registry Paths Http
begin

text \<open>
  \<open>NexusConfig\<close>, \<open>ConfigController\<close>, \<open>ConfigProvider\<close> with its adapters, its factory and
  \<open>JsonConfigSource\<close> (src/config, includes/config, src/http/controllers). A configuration
  file is a \<open>disk\<close> of the Registry theory. Functions that assign fields one after the other
  and may throw in between are sequences of actions, so that what was assigned before an
  exception stays assigned.
\<close>

section \<open>Sequences of assignments\<close>

type_synonym 's act = "'s \<Rightarrow> unit outcome \<times> 's"

fun run_acts :: "'s act list \<Rightarrow> 's act" where
  "run_acts [] s = (Inr (), s)"
| "run_acts (a # as) s = (case a s of (Inl e, s') \<Rightarrow> (Inl e, s') | (Inr _, s') \<Rightarrow> run_acts as s')"

definition assign :: "('s \<Rightarrow> 'v outcome) \<Rightarrow> ('v \<Rightarrow> 's \<Rightarrow> 's) \<Rightarrow> 's act" where
  "assign e upd s = (case e s of Inl x \<Rightarrow> (Inl x, s) | Inr v \<Rightarrow> (Inr (), upd v s))"

definition if_member :: "'j json_api \<Rightarrow> 'j \<Rightarrow> string \<Rightarrow> ('j \<Rightarrow> 's act) \<Rightarrow> 's act" where
  "if_member J j k a s =
     (if j_contains J j k then case j_index J j k of Inl e \<Rightarrow> (Inl e, s) | Inr m \<Rightarrow> a m s else (Inr (), s))"

section \<open>NexusConfig\<close>

record mqtt_config =
  mq_host :: string
  mq_port :: int
  mq_clientId :: string

record http_config =
  ht_port :: int

record ws_config =
  wc_port :: int

record nexus_config =
  cf_mqtt :: mqtt_config
  cf_http :: http_config
  cf_ws :: ws_config

definition default_config :: nexus_config where
  "default_config =
     \<lparr>cf_mqtt = \<lparr>mq_host = ''192.168.2.161'', mq_port = 1883, mq_clientId = ''nexus-core''\<rparr>,
      cf_http = \<lparr>ht_port = 8080\<rparr>, cf_ws = \<lparr>wc_port = 8082\<rparr>\<rparr>"

abbreviation set_host :: "string \<Rightarrow> nexus_config \<Rightarrow> nexus_config" where
  "set_host v c \<equiv> c\<lparr>cf_mqtt := (cf_mqtt c)\<lparr>mq_host := v\<rparr>\<rparr>"
abbreviation set_port :: "int \<Rightarrow> nexus_config \<Rightarrow> nexus_config" where
  "set_port v c \<equiv> c\<lparr>cf_mqtt := (cf_mqtt c)\<lparr>mq_port := v\<rparr>\<rparr>"
abbreviation set_clientId :: "string \<Rightarrow> nexus_config \<Rightarrow> nexus_config" where
  "set_clientId v c \<equiv> c\<lparr>cf_mqtt := (cf_mqtt c)\<lparr>mq_clientId := v\<rparr>\<rparr>"
abbreviation set_http_port :: "int \<Rightarrow> nexus_config \<Rightarrow> nexus_config" where
  "set_http_port v c \<equiv> c\<lparr>cf_http := (cf_http c)\<lparr>ht_port := v\<rparr>\<rparr>"
abbreviation set_ws_port :: "int \<Rightarrow> nexus_config \<Rightarrow> nexus_config" where
  "set_ws_port v c \<equiv> c\<lparr>cf_ws := (cf_ws c)\<lparr>wc_port := v\<rparr>\<rparr>"

definition config_toJson :: "'j json_api \<Rightarrow> nexus_config \<Rightarrow> 'j" where
  "config_toJson J c = j_object J
     [(''mqtt'', j_object J
         [(''host'', j_string J (mq_host (cf_mqtt c))),
          (''port'', j_int J (mq_port (cf_mqtt c))),
          (''client_id'', j_string J (mq_clientId (cf_mqtt c)))]),
      (''http'', j_object J [(''port'', j_int J (ht_port (cf_http c)))]),
      (''ws'', j_object J [(''port'', j_int J (wc_port (cf_ws c)))])]"

definition config_save :: "'j json_api \<Rightarrow> nexus_config \<Rightarrow> disk \<Rightarrow> unit outcome \<times> disk" where
  "config_save J c d = disk_save J (config_toJson J c) d"

text \<open>The body of the \<open>try\<close> block of \<open>loadOrCreate\<close>.\<close>

definition read_config :: "'j json_api \<Rightarrow> 'j \<Rightarrow> nexus_config act" where
  "read_config J j = run_acts
     [if_member J j ''mqtt'' (\<lambda>m. run_acts
        [assign (\<lambda>c. j_value_string J m ''host'' (mq_host (cf_mqtt c))) set_host,
         assign (\<lambda>c. j_value_int J m ''port'' (mq_port (cf_mqtt c))) set_port,
         assign (\<lambda>c. j_value_string J m ''client_id'' (mq_clientId (cf_mqtt c))) set_clientId]),
      if_member J j ''http'' (\<lambda>h. assign (\<lambda>c. j_value_int J h ''port'' (ht_port (cf_http c))) set_http_port),
      if_member J j ''ws'' (\<lambda>w. assign (\<lambda>c. j_value_int J w ''port'' (wc_port (cf_ws c))) set_ws_port)]"

definition loadOrCreate :: "'j json_api \<Rightarrow> disk \<Rightarrow> nexus_config outcome \<times> disk" where
  "loadOrCreate J d =
     (case dk_content d of
        None \<Rightarrow> (case config_save J default_config d of
                   (Inl e, d') \<Rightarrow> (Inl e, d') | (Inr _, d') \<Rightarrow> (Inr default_config, d'))
      | Some content \<Rightarrow>
          if \<not> dk_readable d then (Inr default_config, d)
          else case j_parse J content of
                 None \<Rightarrow> (Inr default_config, d)
               | Some j \<Rightarrow> (case read_config J j default_config of
                              (Inl Undefined, c) \<Rightarrow> (Inl Undefined, d) | (_, c) \<Rightarrow> (Inr c, d)))"

section \<open>ConfigController\<close>

definition config_routes :: "('h \<Rightarrow> 'h \<Rightarrow> 'h route_entry list)" where
  "config_routes show_h update_h =
     [route show_h GET ''/api/config'' ''config_show'' ''Return current configuration'',
      route update_h PATCH ''/api/config'' ''config_update'' ''Update configuration and save to disk'']"

definition config_show :: "'j json_api \<Rightarrow> nexus_config \<Rightarrow> response \<Rightarrow> response outcome" where
  "config_show J c res = bind_exn (pretty_exn J 2 (config_toJson J c)) (\<lambda>t. Inr (set_content t res))"

text \<open>
  One \<open>if (m.contains(k)) { field = m[k]; restartRequired.push_back(name); }\<close>; the state is the
  live configuration and the vector.
\<close>

definition patch_field ::
  "'j json_api \<Rightarrow> 'j \<Rightarrow> string \<Rightarrow> ('j \<Rightarrow> 'v outcome) \<Rightarrow> ('v \<Rightarrow> nexus_config \<Rightarrow> nexus_config) \<Rightarrow> string
     \<Rightarrow> (nexus_config \<times> string list) act" where
  "patch_field J m k get upd name =
     if_member J m k (\<lambda>v. assign (\<lambda>_. get v) (\<lambda>x (c, restart). (upd x c, restart @ [name])))"

definition patch_config :: "'j json_api \<Rightarrow> 'j \<Rightarrow> (nexus_config \<times> string list) act" where
  "patch_config J body = run_acts
     [if_member J body ''mqtt'' (\<lambda>m. run_acts
        [patch_field J m ''host'' (j_get_string J) set_host ''mqtt.host'',
         patch_field J m ''port'' (j_get_int J) set_port ''mqtt.port'',
         patch_field J m ''client_id'' (j_get_string J) set_clientId ''mqtt.client_id'']),
      if_member J body ''http'' (\<lambda>h. patch_field J h ''port'' (j_get_int J) set_http_port ''http.port''),
      if_member J body ''ws'' (\<lambda>w. patch_field J w ''port'' (j_get_int J) set_ws_port ''ws.port'')]"

text \<open>
  \<open>update\<close>. The second component is the live configuration after the call, the third the file
  at the path of the key \<open>config.nexus\<close>.
\<close>

definition config_update ::
  "'j json_api \<Rightarrow> path_manager \<Rightarrow> request \<Rightarrow> response \<Rightarrow> nexus_config \<Rightarrow> disk
     \<Rightarrow> response outcome \<times> nexus_config \<times> disk" where
  "config_update J pm req res c d =
     (case j_parse J (rq_body req) of
        None \<Rightarrow> (answer J (result_badRequest ''Invalid JSON body'') res, c, d)
      | Some body \<Rightarrow>
          (case patch_config J body (c, []) of
             (Inl e, (c', restart)) \<Rightarrow> (Inl e, c', d)
           | (Inr _, (c', restart)) \<Rightarrow>
               (case pm_get pm ''config.nexus'' of
                  Inl e \<Rightarrow> (Inl e, c', d)
                | Inr path \<Rightarrow>
                    (case config_save J c' d of
                       (Inl e, d') \<Rightarrow> (Inl e, c', d')
                     | (Inr _, d') \<Rightarrow>
                         (bind_exn
                            (let resp = j_object J [(''success'', j_bool J True), (''config'', config_toJson J c')]
                             in if restart \<noteq> []
                                then j_set J resp ''restart_required'' (j_array J (map (j_string J) restart))
                                else Inr resp) (\<lambda>resp.
                          bind_exn (pretty_exn J 2 resp) (\<lambda>t. Inr (set_content t res))), c', d')))))"

section \<open>Properties\<close>

lemma read_config_toJson:
  "json_laws J \<Longrightarrow> read_config J (config_toJson J c) c0 = (Inr (), c)"
  by (simp add: read_config_def config_toJson_def if_member_def assign_def json_law_simps)

lemma load_after_config_save:
  assumes "json_laws J" "\<And>j t. j_pretty J 2 j = Some t \<Longrightarrow> j_parse J t = Some j"
    and "config_save J c d = (Inr (), d')" "dk_writable d" "dk_readable d"
  shows "loadOrCreate J d' = (Inr c, d')"
proof -
  from assms(3,4) obtain t where "j_pretty J 2 (config_toJson J c) = Some t" "d' = d\<lparr>dk_content := Some t\<rparr>"
    by (auto simp: config_save_def disk_save_def pretty_exn_def Let_def split: if_splits sum.splits option.splits)
  with assms show ?thesis by (simp add: loadOrCreate_def read_config_toJson)
qed

text \<open>
  C18: an update of the configuration that is answered with success is what the next start of
  the program reads from the file; in particular no field of the live configuration differs
  from the saved one.
\<close>

theorem accepted_update_survives_restart:
  assumes "json_laws J" "\<forall>j t. j_pretty J 2 j = Some t \<longrightarrow> j_parse J t = Some j"
    and "j_parse J (rq_body req) \<noteq> None" "dk_writable d" "dk_readable d"
    and "config_update J pm req res c d = (Inr res', c', d')"
  shows "loadOrCreate J d' = (Inr c', d')"
proof -
  have "config_save J c' d = (Inr (), d')"
    using assms(3,6) by (auto simp: config_update_def split: option.splits prod.splits sum.splits)
  with assms show ?thesis by (intro load_after_config_save) auto
qed

definition demo_manager :: path_manager where
  "demo_manager = \<lparr>pm_base = ''/n'', pm_resolvers = [''config.nexus'' \<mapsto> (\<lambda>b. path_join b ''c'')]\<rparr>"

definition demo_disk :: disk where
  "demo_disk = \<lparr>dk_dir_ok = True, dk_writable = True, dk_readable = True, dk_content = None\<rparr>"

definition demo_patch :: json where
  "demo_patch = JObject [(''http'', JObject [(''port'', JInt 9090)])]"

abbreviation demo_patched :: nexus_config where
  "demo_patched \<equiv> default_config\<lparr>cf_http := \<lparr>ht_port = 9090\<rparr>\<rparr>"

definition demo_config_json :: json where
  "demo_config_json = JObject
     [(''mqtt'', JObject [(''host'', JString ''192.168.2.161''), (''port'', JInt 1883), (''client_id'', JString ''nexus-core'')]),
      (''http'', JObject [(''port'', JInt 9090)]), (''ws'', JObject [(''port'', JInt 8082)])]"

definition demo_answer :: json where
  "demo_answer = JObject [(''success'', JBool True), (''config'', demo_config_json),
     (''restart_required'', JArray [JString ''http.port''])]"

abbreviation demo_req :: "string \<Rightarrow> request" where
  "demo_req b \<equiv> \<lparr>rq_method = ''PATCH'', rq_path = ''/api/config'', rq_body = b, rq_params = Map.empty\<rparr>"

abbreviation demo_res :: response where
  "demo_res \<equiv> \<lparr>rs_status = 200, rs_body = [], rs_type = []\<rparr>"

abbreviation config_api :: "json json_api" where
  "config_api \<equiv> table_json [(''p'', demo_patch), (''c'', demo_config_json), (''a'', demo_answer)]"

lemma demo_update_runs:
  "config_update config_api demo_manager (demo_req ''p'') demo_res default_config demo_disk =
     (Inr (set_content ''a'' demo_res), demo_patched, demo_disk\<lparr>dk_content := Some ''c''\<rparr>)"
  by (simp add: config_update_def patch_config_def patch_field_def if_member_def assign_def pm_get_def
      demo_manager_def config_save_def disk_save_def pretty_exn_def config_toJson_def default_config_def
      demo_disk_def demo_patch_def demo_config_json_def demo_answer_def Let_def)

lemma accepted_update_survives_restart_witness:
  "loadOrCreate config_api (demo_disk\<lparr>dk_content := Some ''c''\<rparr>) =
     (Inr demo_patched, demo_disk\<lparr>dk_content := Some ''c''\<rparr>)"
  by (rule accepted_update_survives_restart [OF json_laws_table _ _ _ _ demo_update_runs])
    (auto simp: demo_disk_def demo_patch_def demo_config_json_def demo_answer_def split: if_splits)

text \<open>
  An update that fails at a field it cannot convert is not undone. When the broker host of
  the request is a string and the port is not a number, the request ends in an exception, the
  live configuration has the new host, and the file is not written.
\<close>

theorem rejected_update_stays_in_memory:
  assumes "json_laws J" "j_get_int J bad = Inl e" "distinct (''host'' # ''port'' # map fst others)"
    and "j_parse J (rq_body req) =
      Some (j_object J [(''mqtt'', j_object J ((''host'', j_string J h) # (''port'', bad) # others))])"
  shows "config_update J pm req res c d = (Inl e, set_host h c, d)"
  using assms
  by (simp add: config_update_def patch_config_def patch_field_def if_member_def assign_def json_law_simps)

lemma rejected_update_stays_in_memory_witness:
  "config_update (table_json [(''p'', JObject [(''mqtt'', JObject [(''host'', JString ''h''), (''port'', JString ''x'')])])])
     demo_manager (demo_req ''p'') demo_res default_config demo_disk
   = (Inl (StdException ''type_error.302''), set_host ''h'' default_config, demo_disk)"
  by (rule rejected_update_stays_in_memory [where bad = "JString ''x''" and others = "[]"]) simp_all

end
