(* ===== verification/Config_Provider.thy ===== *)
theory Config_Provider
  imports Config
begin

text \<open>
  \<open>ConfigProvider\<close>, \<open>IConfigAdapter\<close> with its two implementations, \<open>ConfigProviderFactory\<close>
  and \<open>JsonConfigSource\<close> (src/config, includes/config). The adapters are registered under the
  \<open>std::type_index\<close> of the struct, a name here; \<open>'v\<close> is the type of the structs.
\<close>

section \<open>Values and sources\<close>

datatype 'j config_value = CfgString string | CfgInt int | CfgDouble double | CfgBool bool | CfgJson 'j

type_synonym 'j config_map = "'j config_value table"

text \<open>
  \<open>parseJson\<close>: scalars become the native types, in the order of the tests; objects, arrays and
  null get no entry.
\<close>

definition scalar_value :: "'j json_api \<Rightarrow> 'j \<Rightarrow> 'j config_value option outcome" where
  "scalar_value J v =
     (if j_is_string J v then bind_exn (j_get_string J v) (\<lambda>s. Inr (Some (CfgString s)))
      else if j_is_integer J v then bind_exn (j_get_int J v) (\<lambda>i. Inr (Some (CfgInt i)))
      else if j_is_float J v then bind_exn (j_get_double J v) (\<lambda>x. Inr (Some (CfgDouble x)))
      else if j_is_boolean J v then bind_exn (j_get_bool J v) (\<lambda>b. Inr (Some (CfgBool b)))
      else Inr None)"

fun parse_items :: "'j json_api \<Rightarrow> (string \<times> 'j) list \<Rightarrow> 'j config_map \<Rightarrow> 'j config_map outcome" where
  "parse_items J [] result = Inr result"
| "parse_items J ((k, v) # items) result =
     bind_exn (scalar_value J v) (\<lambda>x.
       parse_items J items (case x of None \<Rightarrow> result | Some cv \<Rightarrow> assoc_set k cv result))"

definition parseJson :: "'j json_api \<Rightarrow> 'j \<Rightarrow> 'j config_map outcome" where
  "parseJson J j = parse_items J (j_items J j) []"

definition file_text :: "string \<Rightarrow> disk \<Rightarrow> string outcome" where
  "file_text msg d =
     (case dk_content d of
        None \<Rightarrow> Inl (StdException msg)
      | Some content \<Rightarrow> if dk_readable d then Inr content else Inl (StdException msg))"

definition source_load :: "'j json_api \<Rightarrow> string \<Rightarrow> disk \<Rightarrow> 'j config_map outcome" where
  "source_load J filepath d =
     bind_exn (file_text (''Cannot open file: '' @ filepath) d) (\<lambda>content.
     bind_exn (read_exn J content) (\<lambda>j. parseJson J j))"

section \<open>Adapters\<close>

record ('v, 'j) adapter =
  serialize :: "'v \<Rightarrow> 'j"
  deserialize :: "'j \<Rightarrow> 'v outcome"

record module_entry =
  me_name :: string
  me_path :: string

definition json_at :: "'j json_api \<Rightarrow> 'j \<Rightarrow> string \<Rightarrow> 'j outcome" where
  "json_at J j k = (if j_contains J j k then j_index J j k else Inl (StdException ''out_of_range.403''))"

definition entry_serialize :: "'j json_api \<Rightarrow> module_entry \<Rightarrow> 'j" where
  "entry_serialize J e = j_object J [(''name'', j_string J (me_name e)), (''path'', j_string J (me_path e))]"

definition entry_deserialize :: "'j json_api \<Rightarrow> 'j \<Rightarrow> module_entry outcome" where
  "entry_deserialize J j =
     bind_exn (j_value_string J j ''name'' []) (\<lambda>n.
     bind_exn (j_value_string J j ''path'' []) (\<lambda>p. Inr \<lparr>me_name = n, me_path = p\<rparr>))"

definition entries_serialize :: "'j json_api \<Rightarrow> module_entry list \<Rightarrow> 'j" where
  "entries_serialize J es = j_array J
     (map (\<lambda>e. j_object J [(''name'', j_string J (me_name e)), (''path'', j_string J (me_path e))]) es)"

definition entries_deserialize :: "'j json_api \<Rightarrow> 'j \<Rightarrow> module_entry list outcome" where
  "entries_deserialize J j = map_outcomes (\<lambda>item.
     bind_exn (bind_exn (json_at J item ''name'') (j_get_string J)) (\<lambda>n.
     bind_exn (bind_exn (json_at J item ''path'') (j_get_string J)) (\<lambda>p.
       Inr \<lparr>me_name = n, me_path = p\<rparr>))) (j_elems J j)"

definition loadedModuleAdapter :: "'j json_api \<Rightarrow> (module_entry, 'j) adapter" where
  "loadedModuleAdapter J = \<lparr>serialize = entry_serialize J, deserialize = entry_deserialize J\<rparr>"

definition loadedModuleListAdapter :: "'j json_api \<Rightarrow> (module_entry list, 'j) adapter" where
  "loadedModuleListAdapter J = \<lparr>serialize = entries_serialize J, deserialize = entries_deserialize J\<rparr>"

section \<open>ConfigProvider\<close>

record ('v, 'j) provider =
  pv_source :: bool
  pv_config :: "'j config_map"
  pv_adapters :: "string \<Rightarrow> ('v, 'j) adapter option"

definition provider_new :: "bool \<Rightarrow> ('v, 'j) provider" where
  "provider_new src = \<lparr>pv_source = src, pv_config = [], pv_adapters = Map.empty\<rparr>"

definition provider_create :: "string \<Rightarrow> ('v, 'j) provider outcome" where
  "provider_create filepath =
     (let ext = path_extension filepath
      in if ext = ''.json'' then Inr (provider_new True)
         else Inl (StdException (''Unsupported format: '' @ ext)))"

definition registerAdapter :: "string \<Rightarrow> ('v, 'j) adapter \<Rightarrow> ('v, 'j) provider \<Rightarrow> ('v, 'j) provider" where
  "registerAdapter ty a p = p\<lparr>pv_adapters := (pv_adapters p)(ty \<mapsto> a)\<rparr>"

definition setStruct :: "string \<Rightarrow> string \<Rightarrow> 'v \<Rightarrow> ('v, 'j) provider \<Rightarrow> ('v, 'j) provider outcome" where
  "setStruct ty key v p =
     (case pv_adapters p ty of
        None \<Rightarrow> Inl (StdException ''No adapter registered for this type'')
      | Some a \<Rightarrow> Inr (p\<lparr>pv_config := assoc_set key (CfgJson (serialize a v)) (pv_config p)\<rparr>))"

definition getStruct :: "string \<Rightarrow> string \<Rightarrow> ('v, 'j) provider \<Rightarrow> 'v option outcome" where
  "getStruct ty key p =
     (case map_of (pv_config p) key of
        None \<Rightarrow> Inr None
      | Some cv \<Rightarrow>
          (case pv_adapters p ty of
             None \<Rightarrow> Inl (StdException ''No adapter registered for this type'')
           | Some a \<Rightarrow>
               (case cv of
                  CfgJson j \<Rightarrow> bind_exn (deserialize a j) (\<lambda>v. Inr (Some v))
                | _ \<Rightarrow> Inl (StdException ''Config value is not JSON''))))"

text \<open>
  \<open>load\<close>: the map is cleared once the text is parsed; iterating over anything but an object
  with members throws at \<open>key()\<close>, unless there is nothing to iterate over.
\<close>

definition provider_load ::
  "'j json_api \<Rightarrow> string \<Rightarrow> disk \<Rightarrow> ('v, 'j) provider \<Rightarrow> unit outcome \<times> ('v, 'j) provider" where
  "provider_load J filepath d p =
     (case bind_exn (file_text (''Failed to open file for loading config: '' @ filepath) d) (read_exn J) of
        Inl e \<Rightarrow> (Inl e, p)
      | Inr j \<Rightarrow>
          if j_empty J j then (Inr (), p\<lparr>pv_config := []\<rparr>)
          else if \<not> j_is_object J j then (Inl (StdException ''invalid_iterator.207''), p\<lparr>pv_config := []\<rparr>)
          else (Inr (), p\<lparr>pv_config := foldl (\<lambda>m (k, v). assoc_set k (CfgJson v) m) [] (j_items J j)\<rparr>))"

definition value_toJson :: "'j json_api \<Rightarrow> 'j config_value \<Rightarrow> 'j" where
  "value_toJson J v = (case v of
     CfgString s \<Rightarrow> j_string J s | CfgInt i \<Rightarrow> j_int J i | CfgDouble x \<Rightarrow> j_double J x
   | CfgBool b \<Rightarrow> j_bool J b | CfgJson j \<Rightarrow> j)"

fun build_json :: "'j json_api \<Rightarrow> 'j config_map \<Rightarrow> 'j \<Rightarrow> 'j outcome" where
  "build_json J [] j = Inr j"
| "build_json J ((k, v) # kvs) j = bind_exn (j_set J j k (value_toJson J v)) (build_json J kvs)"

definition provider_save ::
  "'j json_api \<Rightarrow> string \<Rightarrow> ('v, 'j) provider \<Rightarrow> disk \<Rightarrow> unit outcome \<times> disk" where
  "provider_save J filepath p d =
     (if \<not> pv_source p then (Inl (StdException ''No config source available to save''), d)
      else case build_json J (pv_config p) (j_null J) of
             Inl e \<Rightarrow> (Inl e, d)
           | Inr j \<Rightarrow>
               if \<not> dk_writable d
               then (Inl (StdException (''Failed to open file for saving config: '' @ filepath)), d)
               else (case pretty_exn J 4 j of
                       Inl e \<Rightarrow> (Inl e, d\<lparr>dk_content := Some []\<rparr>)
                     | Inr t \<Rightarrow> (Inr (), d\<lparr>dk_content := Some t\<rparr>)))"

section \<open>Lemmas\<close>

lemma assoc_set_fresh: "k \<notin> fst ` set t \<Longrightarrow> assoc_set k v t = t @ [(k, v)]"
  by (induction t) auto

lemma build_json_object:
  assumes "json_laws J" "distinct (map fst ms @ map fst kvs)"
  shows "build_json J kvs (j_object J ms) = Inr (j_object J (ms @ map (\<lambda>(k, v). (k, value_toJson J v)) kvs))"
  using assms(2)
proof (induction kvs arbitrary: ms)
  case (Cons kv kvs)
  obtain k v where kv: "kv = (k, v)" by (cases kv)
  have "j_set J (j_object J ms) k (value_toJson J v) = Inr (j_object J (ms @ [(k, value_toJson J v)]))"
    using Cons.prems kv assms(1) by (simp add: json_laws_object assoc_set_fresh)
  moreover have "distinct (map fst (ms @ [(k, value_toJson J v)]) @ map fst kvs)"
    using Cons.prems kv by simp
  ultimately show ?case using Cons.IH kv by simp
qed simp

lemma build_json_null:
  assumes "json_laws J" "table_wf kvs" "kvs \<noteq> []"
  shows "build_json J kvs (j_null J) = Inr (j_object J (map (\<lambda>(k, v). (k, value_toJson J v)) kvs))"
proof -
  obtain k v ms where kvs: "kvs = (k, v) # ms" using assms(3) by (cases kvs) auto
  have "build_json J ms (j_object J [(k, value_toJson J v)]) =
      Inr (j_object J ([(k, value_toJson J v)] @ map (\<lambda>(k, v). (k, value_toJson J v)) ms))"
    by (rule build_json_object) (use assms kvs in \<open>auto simp: table_wf_def\<close>)
  then show ?thesis using assms(1) kvs by (simp add: json_laws_get)
qed

lemma map_of_load_fold:
  assumes "distinct (map fst its)"
  shows "map_of (foldl (\<lambda>m (k, v). assoc_set k (CfgJson v) m) m0 its) k =
     (case map_of its k of None \<Rightarrow> map_of m0 k | Some v \<Rightarrow> Some (CfgJson v))"
  using assms
proof (induction its arbitrary: m0)
  case (Cons it its)
  obtain k' v where it: "it = (k', v)" by (cases it)
  have IH: "map_of (foldl (\<lambda>m (k, v). assoc_set k (CfgJson v) m) (assoc_set k' (CfgJson v) m0) its) k =
     (case map_of its k of None \<Rightarrow> map_of (assoc_set k' (CfgJson v) m0) k | Some v \<Rightarrow> Some (CfgJson v))"
    using Cons by simp
  have "map_of its k' = None" using Cons.prems it by (simp add: map_of_eq_None_iff)
  with IH it show ?case by (simp add: map_of_assoc_set split: option.split)
qed simp

lemma map_of_values: "map_of (map (\<lambda>(k, v). (k, f v)) kvs) k = map_option f (map_of kvs k)"
  by (induction kvs) auto

text \<open>A saved map is loaded with the same keys; every value comes back as JSON.\<close>

lemma load_after_provider_save:
  assumes J: "json_laws J" "\<And>j t. j_pretty J 4 j = Some t \<Longrightarrow> j_parse J t = Some j"
    and p: "table_wf (pv_config p)"
    and save: "provider_save J f p d = (Inr (), d')" and read: "dk_readable d"
  shows "\<exists>q'. provider_load J g d' q = (Inr (), q') \<and> pv_adapters q' = pv_adapters q \<and>
    (\<forall>k. map_of (pv_config q') k = map_option (\<lambda>v. CfgJson (value_toJson J v)) (map_of (pv_config p) k))"
proof -
  from save obtain j t where j: "build_json J (pv_config p) (j_null J) = Inr j"
    and t: "j_pretty J 4 j = Some t" and d': "d' = d\<lparr>dk_content := Some t\<rparr>"
    by (auto simp: provider_save_def pretty_exn_def split: if_splits sum.splits option.splits)
  have parse: "bind_exn (file_text m d') (read_exn J) = Inr j" for m
    using json_laws_read [OF J(1) J(2) [OF t]] d' read by (simp add: file_text_def)
  show ?thesis
  proof (cases "pv_config p")
    case Nil
    with j have "j = j_null J" by simp
    then have "j_empty J j" by (simp only: json_laws_get [OF J(1)])
    with parse Nil show ?thesis by (simp add: provider_load_def)
  next
    case (Cons kv kvs)
    let ?ms = "map (\<lambda>(k, v). (k, value_toJson J v)) (pv_config p)"
    have jo: "j = j_object J ?ms" using build_json_null [OF J(1) p] Cons j by simp
    have ms: "distinct (map fst ?ms)" "?ms \<noteq> []"
      using p Cons by (auto simp: table_wf_def case_prod_unfold comp_def)
    note items = json_laws_items [OF J(1) ms(1)]
    have "map_of (j_items J j) = map_of ?ms"
      using map_of_inject_set [OF items(2) ms(1)] items(1) jo by simp
    moreover have "\<not> j_empty J j" "j_is_object J j"
      using J(1) ms jo by (auto simp: json_laws_get json_laws_object)
    moreover have "map_of ?ms k = map_option (value_toJson J) (map_of (pv_config p) k)" for k
      by (rule map_of_values)
    ultimately show ?thesis
      using parse items(2) jo by (simp add: provider_load_def map_of_load_fold option.map_comp comp_def
          split: option.split)
  qed
qed

section \<open>The contract of an adapter\<close>

locale config_adapter =
  fixes ser :: "'j json_api \<Rightarrow> 'v \<Rightarrow> 'j" and deser :: "'j json_api \<Rightarrow> 'j \<Rightarrow> 'v outcome"
  assumes deser_ser: "json_laws J \<Longrightarrow> deser J (ser J v) = Inr v"
begin

lemma struct_survives_file:
  assumes J: "json_laws J" "\<And>j t. j_pretty J 4 j = Some t \<Longrightarrow> j_parse J t = Some j"
    and a: "pv_adapters p ty = Some \<lparr>serialize = ser J, deserialize = deser J\<rparr>"
      "pv_adapters q ty = Some \<lparr>serialize = ser J, deserialize = deser J\<rparr>"
    and wf: "table_wf (pv_config p)"
    and set: "setStruct ty key v p = Inr p'"
    and save: "provider_save J f p' d = (Inr (), d')" "dk_readable d"
    and load: "provider_load J g d' q = (r, q')"
  shows "r = Inr () \<and> getStruct ty key q' = Inr (Some v)"
proof -
  from set a(1) have p': "pv_config p' = assoc_set key (CfgJson (ser J v)) (pv_config p)"
    by (auto simp: setStruct_def)
  with wf have wf': "table_wf (pv_config p')" by (simp add: table_wf_assoc_set)
  from load_after_provider_save [OF J wf' save, of g q] load
  have "r = Inr ()" "pv_adapters q' = pv_adapters q"
    "map_of (pv_config q') key = Some (CfgJson (ser J v))"
    by (auto simp: p' map_of_assoc_set value_toJson_def)
  with a(2) J(1) show ?thesis by (simp add: getStruct_def deser_ser)
qed

end

lemma entry_roundtrip: "json_laws J \<Longrightarrow> entry_deserialize J (entry_serialize J e) = Inr e"
  by (simp add: entry_deserialize_def entry_serialize_def json_law_simps)

lemma entries_roundtrip: "json_laws J \<Longrightarrow> entries_deserialize J (entries_serialize J es) = Inr es"
proof -
  assume J: "json_laws J"
  have "map_outcomes (\<lambda>item.
     bind_exn (bind_exn (json_at J item ''name'') (j_get_string J)) (\<lambda>n.
     bind_exn (bind_exn (json_at J item ''path'') (j_get_string J)) (\<lambda>p.
       Inr \<lparr>me_name = n, me_path = p\<rparr>)))
     (map (\<lambda>e. j_object J [(''name'', j_string J (me_name e)), (''path'', j_string J (me_path e))]) es) = Inr es"
    by (induction es) (simp_all add: J json_at_def json_law_simps)
  then show ?thesis by (simp add: entries_deserialize_def entries_serialize_def json_laws_get [OF J])
qed

interpretation entry_adapter: config_adapter entry_serialize entry_deserialize
  by unfold_locales (rule entry_roundtrip)

interpretation list_adapter: config_adapter entries_serialize entries_deserialize
  by unfold_locales (rule entries_roundtrip)

section \<open>Properties\<close>

text \<open>
  C31: a list of modules stored in a provider with \<open>setStruct\<close>, saved, and loaded by another
  provider with the same adapter is returned by \<open>getStruct\<close> unchanged, whatever else the first
  provider held.
\<close>

theorem module_list_survives_the_file:
  assumes "json_laws J" "\<forall>j t. j_pretty J 4 j = Some t \<longrightarrow> j_parse J t = Some j"
    and "pv_adapters p ty = Some (loadedModuleListAdapter J)" "pv_adapters q ty = Some (loadedModuleListAdapter J)"
    and "table_wf (pv_config p)" "setStruct ty key entries p = Inr p'"
    and "provider_save J f p' d = (Inr (), d')" "dk_readable d"
  shows "case provider_load J g d' q of (r, q') \<Rightarrow> r = Inr () \<and> getStruct ty key q' = Inr (Some entries)"
proof -
  obtain r q' where load: "provider_load J g d' q = (r, q')" by (cases "provider_load J g d' q")
  have "r = Inr () \<and> getStruct ty key q' = Inr (Some entries)"
    by (rule list_adapter.struct_survives_file [OF assms(1) _ _ _ assms(5-8) load])
      (use assms(2-4) in \<open>auto simp: loadedModuleListAdapter_def\<close>)
  with load show ?thesis by simp
qed

definition demo_entries :: "module_entry list" where
  "demo_entries = [\<lparr>me_name = ''a'', me_path = ''/a.o''\<rparr>]"

definition demo_entries_json :: json where
  "demo_entries_json = JObject [(''n'', JInt 1),
     (''modules'', JArray [JObject [(''name'', JString ''a''), (''path'', JString ''/a.o'')]])]"

abbreviation provider_api :: "json json_api" where
  "provider_api \<equiv> table_json [(''t'', demo_entries_json)]"

abbreviation demo_provider :: "(module_entry list, json) provider" where
  "demo_provider \<equiv> \<lparr>pv_source = True, pv_config = [(''n'', CfgInt 1)],
     pv_adapters = [''L'' \<mapsto> loadedModuleListAdapter provider_api]\<rparr>"

lemma module_list_survives_the_file_witness:
  "case provider_load provider_api ''f'' (demo_disk\<lparr>dk_content := Some ''t''\<rparr>)
      (registerAdapter ''L'' (loadedModuleListAdapter provider_api) (provider_new True))
   of (r, q') \<Rightarrow> r = Inr () \<and> getStruct ''L'' ''modules'' q' = Inr (Some demo_entries)"
proof (rule module_list_survives_the_file [where p = demo_provider and d = demo_disk])
  show "setStruct ''L'' ''modules'' demo_entries demo_provider =
      Inr (demo_provider\<lparr>pv_config := [(''n'', CfgInt 1), (''modules'', CfgJson
        (JArray [JObject [(''name'', JString ''a''), (''path'', JString ''/a.o'')]]))]\<rparr>)"
    by (simp add: setStruct_def loadedModuleListAdapter_def entries_serialize_def demo_entries_def)
  show "provider_save provider_api ''f''
      (demo_provider\<lparr>pv_config := [(''n'', CfgInt 1), (''modules'', CfgJson
        (JArray [JObject [(''name'', JString ''a''), (''path'', JString ''/a.o'')]]))]\<rparr>) demo_disk
      = (Inr (), demo_disk\<lparr>dk_content := Some ''t''\<rparr>)"
    by (simp add: provider_save_def value_toJson_def demo_disk_def pretty_exn_def demo_entries_json_def)
qed (simp_all add: registerAdapter_def provider_new_def demo_disk_def table_wf_def)

end
