(* ===== verification/Modules.thy ===== *)
theory Modules
  imports Config_Provider Event_Bus "HOL-Library.Multiset"
begin

text \<open>
  \<open>Module\<close>, \<open>ModuleLoader\<close>, \<open>ModuleStateStore\<close>, \<open>ModuleManager\<close> (src/modules) and
  \<open>ModuleService\<close> (src/services). A shared library and the module object it creates are code
  outside the repository: the record \<open>plugin_api\<close> holds what the operating system and the
  module do when they are called, on a state that contains the event bus. The model records
  in a trace every call that acquires or releases a library or an instance.
\<close>

section \<open>Libraries and instances\<close>

type_synonym handle = nat
type_synonym instance_ptr = nat

record ('c, 'w) plugin_api =
  os_extension :: string
  os_load :: "string \<Rightarrow> 'w \<Rightarrow> handle option \<times> 'w"
  os_symbol :: "handle \<Rightarrow> string \<Rightarrow> 'w \<Rightarrow> bool \<times> 'w"
  os_unload :: "handle \<Rightarrow> 'w \<Rightarrow> bool \<times> 'w"
  mod_create :: "handle \<Rightarrow> 'c bus \<times> 'w \<Rightarrow> instance_ptr option outcome \<times> 'c bus \<times> 'w"
  mod_getName :: "instance_ptr \<Rightarrow> 'c bus \<times> 'w \<Rightarrow> string outcome \<times> 'c bus \<times> 'w"
  mod_initialize :: "instance_ptr \<Rightarrow> 'c bus \<times> 'w \<Rightarrow> unit outcome \<times> 'c bus \<times> 'w"
  mod_shutdown :: "instance_ptr \<Rightarrow> 'c bus \<times> 'w \<Rightarrow> unit outcome \<times> 'c bus \<times> 'w"
  mod_destroy :: "instance_ptr \<Rightarrow> 'c bus \<times> 'w \<Rightarrow> 'c bus \<times> 'w"

datatype module_step =
    Opened handle | Closed handle | Created instance_ptr | Destroyed instance_ptr
  | Initialized instance_ptr | ShutDown instance_ptr

record ('c, 'w) host =
  h_bus :: "'c bus"
  h_ext :: 'w
  h_trace :: "module_step list"

definition note_step :: "module_step \<Rightarrow> ('c, 'w) host \<Rightarrow> ('c, 'w) host" where
  "note_step s h = h\<lparr>h_trace := h_trace h @ [s]\<rparr>"

definition host_set :: "'c bus \<times> 'w \<Rightarrow> ('c, 'w) host \<Rightarrow> ('c, 'w) host" where
  "host_set bw h = h\<lparr>h_bus := fst bw, h_ext := snd bw\<rparr>"

abbreviation host_get :: "('c, 'w) host \<Rightarrow> 'c bus \<times> 'w" where
  "host_get h \<equiv> (h_bus h, h_ext h)"

text \<open>\<open>handleFree_()\<close>, and \<open>instance_.reset()\<close> of the only owner.\<close>

definition close_handle :: "('c, 'w) plugin_api \<Rightarrow> handle \<Rightarrow> ('c, 'w) host \<Rightarrow> ('c, 'w) host" where
  "close_handle P lh h = note_step (Closed lh) (h\<lparr>h_ext := snd (os_unload P lh (h_ext h))\<rparr>)"

definition destroy_instance :: "('c, 'w) plugin_api \<Rightarrow> instance_ptr \<Rightarrow> ('c, 'w) host \<Rightarrow> ('c, 'w) host" where
  "destroy_instance P i h = note_step (Destroyed i) (host_set (mod_destroy P i (host_get h)) h)"

definition initialize_instance ::
  "('c, 'w) plugin_api \<Rightarrow> instance_ptr \<Rightarrow> ('c, 'w) host \<Rightarrow> unit outcome \<times> ('c, 'w) host" where
  "initialize_instance P i h =
     (case mod_initialize P i (host_get h) of (r, bw) \<Rightarrow> (r, note_step (Initialized i) (host_set bw h)))"

definition shutdown_instance ::
  "('c, 'w) plugin_api \<Rightarrow> instance_ptr \<Rightarrow> ('c, 'w) host \<Rightarrow> unit outcome \<times> ('c, 'w) host" where
  "shutdown_instance P i h =
     (case mod_shutdown P i (host_get h) of (r, bw) \<Rightarrow> (r, note_step (ShutDown i) (host_set bw h)))"

section \<open>Module\<close>

text \<open>\<open>None\<close> is a null \<open>shared_ptr\<close> and an empty \<open>std::function\<close>, as a move leaves them.\<close>

record module =
  m_name :: string
  m_path :: string
  m_instance :: "instance_ptr option"
  m_free :: "handle option"

definition module_destroy :: "('c, 'w) plugin_api \<Rightarrow> module \<Rightarrow> ('c, 'w) host \<Rightarrow> ('c, 'w) host" where
  "module_destroy P m h =
     (let h1 = (case m_instance m of None \<Rightarrow> h | Some i \<Rightarrow> destroy_instance P i h)
      in case m_free m of None \<Rightarrow> h1 | Some lh \<Rightarrow> close_handle P lh h1)"

text \<open>The move constructor: the new module and what is left of the old one.\<close>

definition module_move :: "module \<Rightarrow> module \<times> module" where
  "module_move other =
     (\<lparr>m_name = m_name other, m_path = m_path other, m_instance = m_instance other, m_free = m_free other\<rparr>,
      \<lparr>m_name = [], m_path = [], m_instance = None, m_free = None\<rparr>)"

text \<open>Move assignment from a different object.\<close>

definition module_assign ::
  "('c, 'w) plugin_api \<Rightarrow> module \<Rightarrow> module \<Rightarrow> ('c, 'w) host \<Rightarrow> (module \<times> module) \<times> ('c, 'w) host" where
  "module_assign P this other h = (module_move other, module_destroy P this h)"

text \<open>
  \<open>vector::erase\<close>: each later element is move-assigned to the place before it, then the last
  element is destroyed. The first argument is the element to overwrite.
\<close>

fun erase_from ::
  "('c, 'w) plugin_api \<Rightarrow> module \<Rightarrow> module list \<Rightarrow> ('c, 'w) host \<Rightarrow> module list \<times> ('c, 'w) host" where
  "erase_from P this [] h = ([], module_destroy P this h)"
| "erase_from P this (m # ms) h =
     (case module_assign P this m h of
        ((this', m'), h1) \<Rightarrow> (case erase_from P m' ms h1 of (ms', h2) \<Rightarrow> (this' # ms', h2)))"

fun destroy_all :: "('c, 'w) plugin_api \<Rightarrow> module list \<Rightarrow> ('c, 'w) host \<Rightarrow> ('c, 'w) host" where
  "destroy_all P [] h = h"
| "destroy_all P (m # ms) h = destroy_all P ms (module_destroy P m h)"

section \<open>ModuleLoader\<close>

definition CREATE_MODULE_FUNC :: string where
  "CREATE_MODULE_FUNC = ''createModule''"

definition library_path :: "path_manager \<Rightarrow> string \<Rightarrow> string \<Rightarrow> string outcome" where
  "library_path pm name ext =
     bind_exn (pm_get pm ''modules.downloaded'') (\<lambda>base. Inr (path_join base (name @ ext)))"

text \<open>
  \<open>load\<close>: the result is \<open>Inr None\<close> for \<open>nullopt\<close>. An exception of \<open>createModule\<close> leaves the
  library open; one of \<open>getName\<close> destroys the instance, which is owned already, and leaves
  the library open.
\<close>

definition loader_load ::
  "('c, 'w) plugin_api \<Rightarrow> path_manager \<Rightarrow> string \<Rightarrow> ('c, 'w) host \<Rightarrow> module option outcome \<times> ('c, 'w) host" where
  "loader_load P pm name h =
     (case library_path pm name (os_extension P) of
        Inl e \<Rightarrow> (Inl e, h)
      | Inr fullPath \<Rightarrow>
          (case os_load P fullPath (h_ext h) of
             (None, w) \<Rightarrow> (Inr None, h\<lparr>h_ext := w\<rparr>)
           | (Some lh, w) \<Rightarrow>
               let h1 = note_step (Opened lh) (h\<lparr>h_ext := w\<rparr>)
               in case os_symbol P lh CREATE_MODULE_FUNC (h_ext h1) of
                    (False, w1) \<Rightarrow> (Inr None, close_handle P lh (h1\<lparr>h_ext := w1\<rparr>))
                  | (True, w1) \<Rightarrow>
                      let h2 = h1\<lparr>h_ext := w1\<rparr>
                      in case mod_create P lh (host_get h2) of
                           (Inl e, bw) \<Rightarrow> (Inl e, host_set bw h2)
                         | (Inr None, bw) \<Rightarrow> (Inr None, close_handle P lh (host_set bw h2))
                         | (Inr (Some i), bw) \<Rightarrow>
                             let h3 = note_step (Created i) (host_set bw h2)
                             in case mod_getName P i (host_get h3) of
                                  (Inl e, bw3) \<Rightarrow> (Inl e, destroy_instance P i (host_set bw3 h3))
                                | (Inr mname, bw3) \<Rightarrow>
                                    (Inr (Some \<lparr>m_name = mname, m_path = name, m_instance = Some i, m_free = Some lh\<rparr>),
                                     host_set bw3 h3)))"

section \<open>ModuleStateStore\<close>

definition store_contains :: "string \<Rightarrow> string list \<Rightarrow> bool" where
  "store_contains name names \<longleftrightarrow> name \<in> set names"

definition store_add :: "string \<Rightarrow> string list \<Rightarrow> string list" where
  "store_add name names = (if \<not> store_contains name names then names @ [name] else names)"

definition store_remove :: "string \<Rightarrow> string list \<Rightarrow> string list" where
  "store_remove name names = filter (\<lambda>n. n \<noteq> name) names"

text \<open>\<open>load\<close>; every exception empties the list.\<close>

definition store_load :: "'j json_api \<Rightarrow> disk \<Rightarrow> string list \<Rightarrow> string list" where
  "store_load J d names =
     (case dk_content d of
        None \<Rightarrow> names
      | Some content \<Rightarrow>
          if \<not> dk_readable d then names
          else case bind_exn (read_exn J content) (\<lambda>j.
                      bind_exn (j_value_json J j ''enabled'' (j_array J [])) (\<lambda>a.
                        map_outcomes (j_get_string J) (j_elems J a))) of
                 Inl e \<Rightarrow> []
               | Inr ns \<Rightarrow> ns)"

definition store_json :: "'j json_api \<Rightarrow> string list \<Rightarrow> 'j outcome" where
  "store_json J names = j_set J (j_null J) ''enabled'' (j_array J (map (j_string J) names))"

definition store_save :: "'j json_api \<Rightarrow> string list \<Rightarrow> disk \<Rightarrow> unit outcome \<times> disk" where
  "store_save J names d =
     (if \<not> dk_writable d then (Inr (), d)
      else case bind_exn (store_json J names) (pretty_exn J 4) of
             Inl e \<Rightarrow> (Inl e, d\<lparr>dk_content := Some []\<rparr>)
           | Inr t \<Rightarrow> (Inr (), d\<lparr>dk_content := Some t\<rparr>))"

section \<open>ModuleManager\<close>

record ('c, 'w) manager =
  mm_loaded :: "module list"
  mm_names :: "string list"
  mm_disk :: disk
  mm_host :: "('c, 'w) host"

definition manager_new :: "'j json_api \<Rightarrow> disk \<Rightarrow> ('c, 'w) host \<Rightarrow> ('c, 'w) manager" where
  "manager_new J d h = \<lparr>mm_loaded = [], mm_names = store_load J d [], mm_disk = d, mm_host = h\<rparr>"

definition manager_isLoaded :: "string \<Rightarrow> ('c, 'w) manager \<Rightarrow> bool" where
  "manager_isLoaded name s \<longleftrightarrow> (\<exists>m \<in> set (mm_loaded s). m_name m = name)"

text \<open>
  \<open>(*mod)->initialize(...)\<close> followed by the \<open>event:enable\<close> event; dereferencing a null
  instance would be undefined, the loader never returns one.
\<close>

definition bring_up ::
  "('c, 'w) plugin_api \<Rightarrow> module \<Rightarrow> ('c, 'w) host \<Rightarrow> unit outcome \<times> ('c, 'w) host" where
  "bring_up P m h =
     (case m_instance m of
        None \<Rightarrow> (Inl Undefined, h)
      | Some i \<Rightarrow>
          (case initialize_instance P i h of
             (Inl e, h1) \<Rightarrow> (Inl e, h1)
           | (Inr _, h1) \<Rightarrow>
               (Inr (), h1\<lparr>h_bus := bus_publish \<lparr>ev_name = ''event:enable'', ev_data = AnyString (m_name m)\<rparr> (h_bus h1)\<rparr>)))"

text \<open>The local \<open>optional<Module>\<close> is destroyed when an exception leaves the function.\<close>

definition manager_load ::
  "'j json_api \<Rightarrow> ('c, 'w) plugin_api \<Rightarrow> path_manager \<Rightarrow> string \<Rightarrow> ('c, 'w) manager \<Rightarrow> bool outcome \<times> ('c, 'w) manager" where
  "manager_load J P pm name s =
     (if manager_isLoaded name s then (Inr False, s)
      else case loader_load P pm name (mm_host s) of
             (Inl e, h) \<Rightarrow> (Inl e, s\<lparr>mm_host := h\<rparr>)
           | (Inr None, h) \<Rightarrow> (Inr False, s\<lparr>mm_host := h\<rparr>)
           | (Inr (Some m), h) \<Rightarrow>
               (case bring_up P m h of
                  (Inl e, h1) \<Rightarrow> (Inl e, s\<lparr>mm_host := module_destroy P m h1\<rparr>)
                | (Inr _, h1) \<Rightarrow>
                    let names = store_add name (mm_names s)
                    in case store_save J names (mm_disk s) of
                         (Inl e, d) \<Rightarrow> (Inl e, s\<lparr>mm_names := names, mm_disk := d, mm_host := module_destroy P m h1\<rparr>)
                       | (Inr _, d) \<Rightarrow>
                           (Inr True, s\<lparr>mm_names := names, mm_disk := d,
                              mm_loaded := mm_loaded s @ [fst (module_move m)],
                              mm_host := module_destroy P (snd (module_move m)) h1\<rparr>)))"

text \<open>One round of the loops of \<open>loadFromState\<close> and \<open>loadFromDirectory\<close>.\<close>

definition restore_one ::
  "bool \<Rightarrow> ('c, 'w) plugin_api \<Rightarrow> path_manager \<Rightarrow> string \<Rightarrow> ('c, 'w) manager \<Rightarrow> unit outcome \<times> ('c, 'w) manager" where
  "restore_one remember P pm name s =
     (if manager_isLoaded name s then (Inr (), s)
      else case loader_load P pm name (mm_host s) of
             (Inl e, h) \<Rightarrow> (Inl e, s\<lparr>mm_host := h\<rparr>)
           | (Inr None, h) \<Rightarrow> (Inr (), s\<lparr>mm_host := h\<rparr>)
           | (Inr (Some m), h) \<Rightarrow>
               (case bring_up P m h of
                  (Inl e, h1) \<Rightarrow> (Inl e, s\<lparr>mm_host := module_destroy P m h1\<rparr>)
                | (Inr _, h1) \<Rightarrow>
                    (Inr (), s\<lparr>mm_names := (if remember then store_add name (mm_names s) else mm_names s),
                       mm_loaded := mm_loaded s @ [fst (module_move m)],
                       mm_host := module_destroy P (snd (module_move m)) h1\<rparr>)))"

definition loadFromState ::
  "('c, 'w) plugin_api \<Rightarrow> path_manager \<Rightarrow> ('c, 'w) manager \<Rightarrow> unit outcome \<times> ('c, 'w) manager" where
  "loadFromState P pm s = run_acts (map (restore_one False P pm) (mm_names s)) s"

text \<open>The directory is the list of its entries: whether one is a regular file, and its path.\<close>

definition loadFromDirectory ::
  "'j json_api \<Rightarrow> ('c, 'w) plugin_api \<Rightarrow> path_manager \<Rightarrow> (bool \<times> string) list \<Rightarrow> ('c, 'w) manager
     \<Rightarrow> unit outcome \<times> ('c, 'w) manager" where
  "loadFromDirectory J P pm entries s =
     (case run_acts (map (\<lambda>(regular, path). if regular then restore_one True P pm (path_stem path) else Pair (Inr ()))
              entries) s of
        (Inl e, s1) \<Rightarrow> (Inl e, s1)
      | (Inr _, s1) \<Rightarrow>
          (case store_save J (mm_names s1) (mm_disk s1) of (r, d) \<Rightarrow> (r, s1\<lparr>mm_disk := d\<rparr>)))"

text \<open>
  \<open>unload\<close>: \<open>find_if\<close> splits the vector at the first module of that name; when \<open>shutdown\<close>
  throws, the module stays loaded.
\<close>

definition manager_unload ::
  "'j json_api \<Rightarrow> ('c, 'w) plugin_api \<Rightarrow> string \<Rightarrow> ('c, 'w) manager \<Rightarrow> bool outcome \<times> ('c, 'w) manager" where
  "manager_unload J P name s =
     (case (takeWhile (\<lambda>m. m_name m \<noteq> name) (mm_loaded s), dropWhile (\<lambda>m. m_name m \<noteq> name) (mm_loaded s)) of
        (before, []) \<Rightarrow> (Inr False, s)
      | (before, m # after) \<Rightarrow>
          let h = (mm_host s)\<lparr>h_bus :=
                bus_publish \<lparr>ev_name = ''event:disable'', ev_data = AnyString (m_name m)\<rparr> (h_bus (mm_host s))\<rparr>
          in case m_instance m of
               None \<Rightarrow> (Inl Undefined, s\<lparr>mm_host := h\<rparr>)
             | Some i \<Rightarrow>
                 (case shutdown_instance P i h of
                    (Inl e, h1) \<Rightarrow> (Inl e, s\<lparr>mm_host := h1\<rparr>)
                  | (Inr _, h1) \<Rightarrow>
                      (case erase_from P m after h1 of
                         (after', h2) \<Rightarrow>
                           let names = store_remove name (mm_names s)
                           in case store_save J names (mm_disk s) of
                                (r, d) \<Rightarrow> (bind_exn r (\<lambda>_. Inr True),
                                  s\<lparr>mm_loaded := before @ after', mm_names := names, mm_disk := d, mm_host := h2\<rparr>))))"

section \<open>ModuleService\<close>

text \<open>\<open>start\<close>, with a null \<open>_manager\<close> before; the disk and the host outlive the manager.\<close>

definition modules_start ::
  "'j json_api \<Rightarrow> ('c, 'w) plugin_api \<Rightarrow> path_manager \<Rightarrow> disk \<Rightarrow> ('c, 'w) host \<Rightarrow> unit outcome \<times> ('c, 'w) manager" where
  "modules_start J P pm d h = loadFromState P pm (manager_new J d h)"

fun shutdown_all :: "('c, 'w) plugin_api \<Rightarrow> module list \<Rightarrow> ('c, 'w) host \<Rightarrow> unit outcome \<times> ('c, 'w) host" where
  "shutdown_all P [] h = (Inr (), h)"
| "shutdown_all P (m # ms) h =
     (case m_instance m of
        None \<Rightarrow> (Inl Undefined, h)
      | Some i \<Rightarrow>
          (case shutdown_instance P i h of (Inl e, h1) \<Rightarrow> (Inl e, h1) | (Inr _, h1) \<Rightarrow> shutdown_all P ms h1))"

definition modules_stop :: "('c, 'w) plugin_api \<Rightarrow> ('c, 'w) manager \<Rightarrow> unit outcome \<times> ('c, 'w) manager" where
  "modules_stop P s = (case shutdown_all P (mm_loaded s) (mm_host s) of (r, h) \<Rightarrow> (r, s\<lparr>mm_host := h\<rparr>))"

definition modules_list :: "('c, 'w) manager \<Rightarrow> (string \<times> string) list" where
  "modules_list s = map (\<lambda>m. (m_name m, m_path m)) (mm_loaded s)"

definition modules_enable ::
  "'j json_api \<Rightarrow> ('c, 'w) plugin_api \<Rightarrow> path_manager \<Rightarrow> string \<Rightarrow> ('c, 'w) manager
     \<Rightarrow> cpp_result outcome \<times> ('c, 'w) manager" where
  "modules_enable J P pm name s =
     (if manager_isLoaded name s then (Inr (module_alreadyLoaded name), s)
      else case manager_load J P pm name s of
             (r, s') \<Rightarrow> (bind_exn r (\<lambda>ok. Inr
               (if ok then result_ok (''Module '' @ quoted name @ '' enabled'')
                else result_notFound (''Failed to load module '' @ quoted name))), s'))"

definition modules_disable ::
  "'j json_api \<Rightarrow> ('c, 'w) plugin_api \<Rightarrow> string \<Rightarrow> ('c, 'w) manager \<Rightarrow> cpp_result outcome \<times> ('c, 'w) manager" where
  "modules_disable J P name s =
     (if \<not> manager_isLoaded name s then (Inr (module_notLoaded name), s)
      else case manager_unload J P name s of
             (r, s') \<Rightarrow> (bind_exn r (\<lambda>ok. Inr
               (if ok then result_ok (''Module '' @ quoted name @ '' disabled'')
                else result_failed (''Failed to disable module '' @ quoted name))), s'))"

text \<open>The end of the program: the vector of modules is destroyed with its owner.\<close>

definition manager_destroy :: "('c, 'w) plugin_api \<Rightarrow> ('c, 'w) manager \<Rightarrow> ('c, 'w) host" where
  "manager_destroy P s = destroy_all P (mm_loaded s) (mm_host s)"

section \<open>The trace of each operation\<close>

definition released :: "module \<Rightarrow> module_step list" where
  "released m = (case m_instance m of None \<Rightarrow> [] | Some i \<Rightarrow> [Destroyed i])
     @ (case m_free m of None \<Rightarrow> [] | Some x \<Rightarrow> [Closed x])"

lemma host_sel [simp]:
  "h_trace (note_step s h) = h_trace h @ [s]" "h_bus (note_step s h) = h_bus h" "h_ext (note_step s h) = h_ext h"
  "h_trace (host_set bw h) = h_trace h" "h_bus (host_set bw h) = fst bw" "h_ext (host_set bw h) = snd bw"
  by (simp_all add: note_step_def host_set_def)

lemma trace_destroy [simp]: "h_trace (module_destroy P m h) = h_trace h @ released m"
  by (simp add: module_destroy_def released_def destroy_instance_def close_handle_def Let_def split: option.split)

lemma module_move_simps [simp]:
  "fst (module_move m) = m" "released (snd (module_move m)) = []"
  by (simp_all add: module_move_def released_def)

lemma erase_from_trace:
  "case erase_from P this ms h of (ms', h') \<Rightarrow> ms' = ms \<and> h_trace h' = h_trace h @ released this"
proof (induction ms arbitrary: this h)
  case (Cons m ms)
  have IH: "case erase_from P (snd (module_move m)) ms (module_destroy P this h) of (ms', h') \<Rightarrow>
      ms' = ms \<and> h_trace h' = h_trace (module_destroy P this h) @ released (snd (module_move m))"
    by (rule Cons.IH)
  then show ?case
    by (auto simp: module_assign_def module_move_def released_def split: prod.splits)
qed simp

lemma destroy_all_trace: "h_trace (destroy_all P ms h) = h_trace h @ concat (map released ms)"
  by (induction ms arbitrary: h) simp_all

lemma trace_initialize: "initialize_instance P i h = (r, h') \<Longrightarrow> h_trace h' = h_trace h @ [Initialized i]"
  by (auto simp: initialize_instance_def split: prod.splits)

lemma trace_shutdown: "shutdown_instance P i h = (r, h') \<Longrightarrow> h_trace h' = h_trace h @ [ShutDown i]"
  by (auto simp: shutdown_instance_def split: prod.splits)

text \<open>Plugins whose \<open>createModule\<close> and \<open>getName\<close> do not throw.\<close>

definition tame :: "('c, 'w) plugin_api \<Rightarrow> bool" where
  "tame P \<longleftrightarrow> (\<forall>x bw. \<exists>r. fst (mod_create P x bw) = Inr r) \<and> (\<forall>i bw. \<exists>n. fst (mod_getName P i bw) = Inr n)"

lemma tame_create: "tame P \<Longrightarrow> mod_create P x bw = (r, bw') \<Longrightarrow> \<exists>i. r = Inr i"
  by (metis fst_conv tame_def)

lemma tame_getName: "tame P \<Longrightarrow> mod_getName P x bw = (r, bw') \<Longrightarrow> \<exists>i. r = Inr i"
  by (metis fst_conv tame_def)

definition module_ok :: "module \<Rightarrow> bool" where
  "module_ok m \<longleftrightarrow> m_instance m \<noteq> None \<and> m_free m \<noteq> None"

lemma loader_load_Some:
  assumes "loader_load P pm name h = (Inr (Some m), h')"
  obtains i x where "m_instance m = Some i" "m_free m = Some x" "m_path m = name"
    "h_trace h' = h_trace h @ [Opened x, Created i]"
  using assms
  by (auto simp: loader_load_def Let_def split: sum.splits prod.splits option.splits bool.splits)

lemma loader_load_None:
  assumes "loader_load P pm name h = (Inr None, h')"
  shows "h_trace h' = h_trace h \<or> (\<exists>x. h_trace h' = h_trace h @ [Opened x, Closed x])"
  using assms
  by (auto simp: loader_load_def Let_def close_handle_def split: sum.splits prod.splits option.splits bool.splits)

lemma loader_load_Inl:
  assumes "tame P" "loader_load P pm name h = (Inl e, h')"
  shows "h' = h"
  using assms(2)
  by (auto simp: loader_load_def Let_def split: sum.splits prod.splits option.splits bool.splits
      dest: tame_create [OF assms(1)] tame_getName [OF assms(1)])

lemma bring_up_trace:
  assumes "m_instance m = Some i" "bring_up P m h = (r, h')"
  shows "h_trace h' = h_trace h @ [Initialized i]"
  using assms by (auto simp: bring_up_def split: prod.splits sum.splits dest: trace_initialize)

section \<open>Replaying a trace\<close>

text \<open>
  The libraries held open and the instances alive; \<open>None\<close> is a release of something that is
  not held, or a call of an instance that is not alive.
\<close>

type_synonym resources = "handle multiset \<times> instance_ptr multiset"

fun replay_step :: "module_step \<Rightarrow> resources \<Rightarrow> resources option" where
  "replay_step (Opened x) (xs, is) = Some (add_mset x xs, is)"
| "replay_step (Closed x) (xs, is) = (if x \<in># xs then Some (xs - {#x#}, is) else None)"
| "replay_step (Created i) (xs, is) = Some (xs, add_mset i is)"
| "replay_step (Destroyed i) (xs, is) = (if i \<in># is then Some (xs, is - {#i#}) else None)"
| "replay_step (Initialized i) (xs, is) = (if i \<in># is then Some (xs, is) else None)"
| "replay_step (ShutDown i) (xs, is) = (if i \<in># is then Some (xs, is) else None)"

fun replay :: "module_step list \<Rightarrow> resources \<Rightarrow> resources option" where
  "replay [] r = Some r"
| "replay (s # ss) r = Option.bind (replay_step s r) (replay ss)"

lemma replay_append: "replay (a @ b) r = Option.bind (replay a r) (replay b)"
  by (induction a arbitrary: r) (auto split: bind_split)

definition held :: "module list \<Rightarrow> resources" where
  "held ms = (mset (map (the \<circ> m_free) ms), mset (map (the \<circ> m_instance) ms))"

definition resources_ok :: "('c, 'w) manager \<Rightarrow> bool" where
  "resources_ok s \<longleftrightarrow> (\<forall>m \<in> set (mm_loaded s). module_ok m) \<and>
     replay (h_trace (mm_host s)) ({#}, {#}) = Some (held (mm_loaded s))"

lemma replay_snoc:
  assumes "replay tr r = Some r1"
  shows "replay (tr @ ss) r = replay ss r1"
  using assms by (simp add: replay_append)

lemma held_snoc: "m_free m = Some x \<Longrightarrow> m_instance m = Some i \<Longrightarrow>
    held (ms @ [m]) = (add_mset x (fst (held ms)), add_mset i (snd (held ms)))"
  by (simp add: held_def)

lemma replay_released:
  assumes "module_ok m" "replay tr r = Some (held (before @ m # after))"
  shows "replay (tr @ released m) r = Some (held (before @ after))"
proof -
  from assms(1) obtain i x where "m_instance m = Some i" "m_free m = Some x" by (auto simp: module_ok_def)
  then show ?thesis using replay_snoc [OF assms(2)] by (simp add: released_def held_def)
qed

text \<open>A module that was loaded and lost again before it reached the vector leaves nothing behind.\<close>

lemma load_one_ok:
  assumes "tame P" "resources_ok s" "loader_load P pm name (mm_host s) = (r, h)"
  shows "case r of
      Inl e \<Rightarrow> h = mm_host s
    | Inr None \<Rightarrow> replay (h_trace h) ({#}, {#}) = Some (held (mm_loaded s))
    | Inr (Some m) \<Rightarrow> module_ok m \<and> (\<forall>r' h'. bring_up P m h = (r', h') \<longrightarrow>
        replay (h_trace h') ({#}, {#}) = Some (held (mm_loaded s @ [m])) \<and>
        replay (h_trace (module_destroy P m h')) ({#}, {#}) = Some (held (mm_loaded s)))"
proof -
  note tr = replay_snoc [OF assms(2) [unfolded resources_ok_def, THEN conjunct2]]
  show ?thesis
  proof (cases r)
    case (Inl e)
    with loader_load_Inl [OF assms(1)] assms(3) show ?thesis by simp
  next
    case (Inr mo)
    show ?thesis
    proof (cases mo)
      case None
      with loader_load_None [of P pm name "mm_host s" h] assms(2,3) Inr tr
      show ?thesis by (auto simp: held_def resources_ok_def)
    next
      case (Some m)
      with assms(3) Inr have "loader_load P pm name (mm_host s) = (Inr (Some m), h)" by simp
      then obtain i x where m: "m_instance m = Some i" "m_free m = Some x"
        and h: "h_trace h = h_trace (mm_host s) @ [Opened x, Created i]"
        by (rule loader_load_Some)
      have "replay (h_trace h') ({#}, {#}) = Some (held (mm_loaded s @ [m])) \<and>
          replay (h_trace (module_destroy P m h')) ({#}, {#}) = Some (held (mm_loaded s))"
        if "bring_up P m h = (r', h')" for r' h'
      proof -
        have h': "h_trace h' = h_trace (mm_host s) @ [Opened x, Created i, Initialized i]"
          using bring_up_trace [OF m(1) that] h by simp
        with tr held_snoc [OF m(2,1)] have 1: "replay (h_trace h') ({#}, {#}) = Some (held (mm_loaded s @ [m]))"
          by (cases "held (mm_loaded s)") simp
        have "module_ok m" using m by (simp add: module_ok_def)
        from replay_released [OF this 1] 1 show ?thesis by simp
      qed
      then show ?thesis using Inr Some m by (simp add: module_ok_def)
    qed
  qed
qed

section \<open>Every operation keeps the resources accounted for\<close>

lemma manager_load_ok:
  assumes "tame P" "resources_ok s" "manager_load J P pm name s = (r, s')"
  shows "resources_ok s'"
proof (cases "manager_isLoaded name s")
  case True
  with assms show ?thesis by (simp add: manager_load_def)
next
  case False
  obtain lr h where l: "loader_load P pm name (mm_host s) = (lr, h)" by (cases "loader_load P pm name (mm_host s)")
  note one = load_one_ok [OF assms(1,2) l]
  show ?thesis
  proof (cases lr)
    case (Inl e)
    with one l False assms(2,3) show ?thesis by (auto simp: manager_load_def resources_ok_def)
  next
    case (Inr mo)
    show ?thesis
    proof (cases mo)
      case None
      with one l False Inr assms(2,3) show ?thesis by (auto simp: manager_load_def resources_ok_def)
    next
      case (Some m)
      obtain r1 h1 where b: "bring_up P m h = (r1, h1)" by (cases "bring_up P m h")
      with one Inr Some have "module_ok m"
        and 1: "replay (h_trace h1) ({#}, {#}) = Some (held (mm_loaded s @ [m]))"
        and 2: "replay (h_trace h1 @ released m) ({#}, {#}) = Some (held (mm_loaded s))" by auto
      with assms(2,3) l False Inr Some b show ?thesis
        by (auto simp: manager_load_def resources_ok_def Let_def split: sum.splits prod.splits)
    qed
  qed
qed

lemma restore_one_ok:
  assumes "tame P" "resources_ok s" "restore_one b P pm name s = (r, s')"
  shows "resources_ok s'"
proof (cases "manager_isLoaded name s")
  case True
  with assms show ?thesis by (simp add: restore_one_def)
next
  case False
  obtain lr h where l: "loader_load P pm name (mm_host s) = (lr, h)" by (cases "loader_load P pm name (mm_host s)")
  note one = load_one_ok [OF assms(1,2) l]
  show ?thesis
  proof (cases lr)
    case (Inl e)
    with one l False assms(2,3) show ?thesis by (auto simp: restore_one_def resources_ok_def)
  next
    case (Inr mo)
    show ?thesis
    proof (cases mo)
      case None
      with one l False Inr assms(2,3) show ?thesis by (auto simp: restore_one_def resources_ok_def)
    next
      case (Some m)
      obtain r1 h1 where b: "bring_up P m h = (r1, h1)" by (cases "bring_up P m h")
      with one Inr Some have "module_ok m"
        and 1: "replay (h_trace h1) ({#}, {#}) = Some (held (mm_loaded s @ [m]))"
        and 2: "replay (h_trace h1 @ released m) ({#}, {#}) = Some (held (mm_loaded s))" by auto
      with assms(2,3) l False Inr Some b show ?thesis
        by (auto simp: restore_one_def resources_ok_def Let_def split: sum.splits prod.splits)
    qed
  qed
qed

lemma run_acts_invariant:
  assumes "\<And>a s r s'. a \<in> set as \<Longrightarrow> I s \<Longrightarrow> a s = (r, s') \<Longrightarrow> I s'" "I s" "run_acts as s = (r, s')"
  shows "I s'"
  using assms
proof (induction as arbitrary: s)
  case (Cons a as)
  obtain r1 s1 where a: "a s = (r1, s1)" by (cases "a s")
  have s1: "I s1" by (rule Cons.prems(1) [of a s r1 s1]) (use Cons.prems(2) a in simp_all)
  show ?case
  proof (cases r1)
    case (Inl e)
    with a Cons.prems(3) s1 show ?thesis by simp
  next
    case (Inr u)
    with a Cons.prems(3) have "run_acts as s1 = (r, s')" by simp
    moreover have "\<And>a s r s'. a \<in> set as \<Longrightarrow> I s \<Longrightarrow> a s = (r, s') \<Longrightarrow> I s'"
      using Cons.prems(1) by (meson list.set_intros(2))
    ultimately show ?thesis using Cons.IH s1 by blast
  qed
qed simp

lemma loadFromState_ok:
  assumes "tame P" "resources_ok s" "loadFromState P pm s = (r, s')"
  shows "resources_ok s'"
  using assms(2,3) unfolding loadFromState_def
  by (rule run_acts_invariant [rotated]) (auto intro: restore_one_ok [OF assms(1)])

lemma loadFromDirectory_ok:
  assumes "tame P" "resources_ok s" "loadFromDirectory J P pm entries s = (r, s')"
  shows "resources_ok s'"
proof -
  let ?as = "map (\<lambda>(regular, path). if regular then restore_one True P pm (path_stem path) else Pair (Inr ())) entries"
  obtain r1 s1 where 1: "run_acts ?as s = (r1, s1)" by (cases "run_acts ?as s")
  have "resources_ok s1"
    by (rule run_acts_invariant [where I = resources_ok, OF _ assms(2) 1]) (auto intro: restore_one_ok [OF assms(1)] split: if_splits)
  with 1 assms(3) show ?thesis
    by (auto simp: loadFromDirectory_def resources_ok_def split: sum.splits prod.splits)
qed

text \<open>\<open>unload\<close>, when a module of that name is loaded.\<close>

lemma manager_unload_found:
  assumes "mm_loaded s = before @ m # after" "m_name m = name" "\<forall>m' \<in> set before. m_name m' \<noteq> name"
  shows "takeWhile (\<lambda>m. m_name m \<noteq> name) (mm_loaded s) = before"
    "dropWhile (\<lambda>m. m_name m \<noteq> name) (mm_loaded s) = m # after"
  using assms by (simp_all add: takeWhile_append2 dropWhile_append2)

lemma manager_unload_ok:
  assumes "resources_ok s" "manager_unload J P name s = (r, s')"
  shows "resources_ok s'"
proof (cases "dropWhile (\<lambda>m. m_name m \<noteq> name) (mm_loaded s)")
  case Nil
  with assms show ?thesis by (simp add: manager_unload_def)
next
  case (Cons m after)
  define before where "before = takeWhile (\<lambda>m. m_name m \<noteq> name) (mm_loaded s)"
  let ?h = "(mm_host s)\<lparr>h_bus := bus_publish \<lparr>ev_name = ''event:disable'', ev_data = AnyString (m_name m)\<rparr> (h_bus (mm_host s))\<rparr>"
  have loaded: "mm_loaded s = before @ m # after"
    using Cons by (metis before_def takeWhile_dropWhile_id)
  then have "m \<in> set (mm_loaded s)" by simp
  then have m: "module_ok m" using assms(1) by (auto simp: resources_ok_def)
  then obtain i where i: "m_instance m = Some i" by (auto simp: module_ok_def)
  obtain r1 h1 where sh: "shutdown_instance P i ?h = (r1, h1)" by (cases "shutdown_instance P i ?h")
  have tr: "h_trace h1 = h_trace (mm_host s) @ [ShutDown i]" using trace_shutdown [OF sh] by simp
  have "i \<in># snd (held (mm_loaded s))" using i loaded by (simp add: held_def)
  then have 1: "replay (h_trace h1) ({#}, {#}) = Some (held (mm_loaded s))"
    using replay_snoc [OF assms(1) [unfolded resources_ok_def, THEN conjunct2]] tr
    by (cases "held (mm_loaded s)") simp
  show ?thesis
  proof (cases r1)
    case (Inl e)
    with Cons i sh assms 1 show ?thesis by (auto simp: manager_unload_def resources_ok_def Let_def)
  next
    case (Inr u)
    obtain ms h2 where er: "erase_from P m after h1 = (ms, h2)" by (cases "erase_from P m after h1")
    with erase_from_trace [where P = P and this = m and ms = after and h = h1] have ms: "ms = after" "h_trace h2 = h_trace h1 @ released m" by auto
    have "replay (h_trace h2) ({#}, {#}) = Some (held (before @ after))"
      using replay_released [OF m, of "h_trace h1" _ before after] 1 loaded ms(2) by simp
    moreover have "\<forall>m \<in> set (before @ after). module_ok m"
      using assms(1) loaded by (simp add: resources_ok_def)
    moreover obtain rs d where "store_save J (store_remove name (mm_names s)) (mm_disk s) = (rs, d)"
      by (cases "store_save J (store_remove name (mm_names s)) (mm_disk s)")
    ultimately show ?thesis
      using Cons i sh Inr er ms(1) assms(2) by (auto simp: before_def manager_unload_def resources_ok_def Let_def)
  qed
qed

lemma shutdown_all_ok:
  assumes "shutdown_all P ms h = (r, h')" "replay (h_trace h) ({#}, {#}) = Some R"
    "\<forall>m \<in> set ms. module_ok m \<and> the (m_instance m) \<in># snd R"
  shows "replay (h_trace h') ({#}, {#}) = Some R"
  using assms
proof (induction ms arbitrary: h)
  case (Cons m ms)
  from Cons.prems(3) obtain i where i: "m_instance m = Some i" "i \<in># snd R" by (auto simp: module_ok_def)
  obtain r1 h1 where sh: "shutdown_instance P i h = (r1, h1)" by (cases "shutdown_instance P i h")
  have 1: "replay (h_trace h1) ({#}, {#}) = Some R"
    using trace_shutdown [OF sh] replay_snoc [OF Cons.prems(2)] i(2) by (cases R) simp
  show ?case
  proof (cases r1)
    case (Inl e)
    with Cons.prems(1) i sh 1 show ?thesis by simp
  next
    case (Inr u)
    with Cons.prems(1) i sh have "shutdown_all P ms h1 = (r, h')" by simp
    with Cons.IH 1 Cons.prems(3) show ?thesis by simp
  qed
qed simp

lemma modules_stop_ok:
  assumes "resources_ok s" "modules_stop P s = (r, s')"
  shows "resources_ok s'"
proof -
  obtain r1 h where sh: "shutdown_all P (mm_loaded s) (mm_host s) = (r1, h)"
    by (cases "shutdown_all P (mm_loaded s) (mm_host s)")
  have "replay (h_trace h) ({#}, {#}) = Some (held (mm_loaded s))"
    by (rule shutdown_all_ok [OF sh]) (use assms(1) in \<open>auto simp: resources_ok_def held_def\<close>)
  with assms sh show ?thesis by (auto simp: modules_stop_def resources_ok_def)
qed

lemma manager_destroy_ok:
  assumes "resources_ok s"
  shows "replay (h_trace (manager_destroy P s)) ({#}, {#}) = Some ({#}, {#})"
proof -
  have "replay (tr @ concat (map released ms)) ({#}, {#}) = Some (held [])"
    if "\<forall>m \<in> set ms. module_ok m" "replay tr ({#}, {#}) = Some (held ms)" for ms tr
    using that
  proof (induction ms arbitrary: tr)
    case (Cons m ms)
    have "replay (tr @ released m) ({#}, {#}) = Some (held ([] @ ms))"
      by (rule replay_released) (use Cons.prems in simp_all)
    then have "replay ((tr @ released m) @ concat (map released ms)) ({#}, {#}) = Some (held [])"
      using Cons.prems(1) by (intro Cons.IH) simp_all
    then show ?case by simp
  qed simp
  from this [of "mm_loaded s" "h_trace (mm_host s)"] assms show ?thesis
    by (simp add: manager_destroy_def destroy_all_trace resources_ok_def held_def)
qed

section \<open>Properties\<close>

datatype module_req = Enable string | Disable string | ScanDir "(bool \<times> string) list" | StopAll

fun module_handle ::
  "'j json_api \<Rightarrow> ('c, 'w) plugin_api \<Rightarrow> path_manager \<Rightarrow> module_req \<Rightarrow> ('c, 'w) manager \<Rightarrow> ('c, 'w) manager" where
  "module_handle J P pm (Enable name) s = snd (modules_enable J P pm name s)"
| "module_handle J P pm (Disable name) s = snd (modules_disable J P name s)"
| "module_handle J P pm (ScanDir entries) s = snd (loadFromDirectory J P pm entries s)"
| "module_handle J P pm StopAll s = snd (modules_stop P s)"

lemma module_handle_ok:
  assumes "tame P" "resources_ok s"
  shows "resources_ok (module_handle J P pm req s)"
proof (cases req)
  case (Enable name)
  with assms manager_load_ok [OF assms] show ?thesis
    by (auto simp: modules_enable_def split: prod.splits)
next
  case (Disable name)
  with assms manager_unload_ok [OF assms(2)] show ?thesis
    by (auto simp: modules_disable_def split: prod.splits)
next
  case (ScanDir entries)
  with loadFromDirectory_ok [OF assms] show ?thesis by (metis module_handle.simps(3) prod.collapse)
next
  case StopAll
  with modules_stop_ok [OF assms(2)] show ?thesis by (metis module_handle.simps(4) prod.collapse)
qed

lemma module_handle_all_ok:
  "tame P \<Longrightarrow> resources_ok s \<Longrightarrow> resources_ok (fold (module_handle J P pm) reqs s)"
  by (induction reqs arbitrary: s) (simp_all add: module_handle_ok)

lemma modules_start_ok:
  assumes "tame P" "h_trace h = []"
  shows "resources_ok (snd (modules_start J P pm d h))"
proof -
  have "resources_ok (manager_new J d h)"
    using assms(2) by (simp add: resources_ok_def manager_new_def held_def)
  with loadFromState_ok [OF assms(1)] show ?thesis by (metis modules_start_def prod.collapse)
qed


definition demo_plugin :: "(nat, nat) plugin_api" where
  "demo_plugin = \<lparr>os_extension = ''.o'', os_load = (\<lambda>p w. (Some w, Suc w)),
     os_symbol = (\<lambda>x n w. (True, w)), os_unload = (\<lambda>x w. (True, w)),
     mod_create = (\<lambda>x (b, w). (Inr (Some w), b, Suc w)),
     mod_getName = (\<lambda>i bw. (Inr ''Lamp'', bw)), mod_initialize = (\<lambda>i bw. (Inr (), bw)),
     mod_shutdown = (\<lambda>i bw. (Inr (), bw)), mod_destroy = (\<lambda>i bw. bw)\<rparr>"

definition demo_host :: "(nat, nat) host" where
  "demo_host = \<lparr>h_bus = new_bus, h_ext = 0, h_trace = []\<rparr>"

definition modules_pm :: path_manager where
  "modules_pm = \<lparr>pm_base = ''/n'', pm_resolvers = [''modules.downloaded'' \<mapsto> (\<lambda>b. path_join b ''d'')]\<rparr>"

lemma demo_tame: "tame demo_plugin"
  by (simp add: tame_def demo_plugin_def)


text \<open>
  Disabling a loaded module shuts it down, then destroys its instance, then closes its
  library, in this order and exactly once; the other modules keep their places, and the name is
  taken from the persisted list.
\<close>

theorem disable_releases_in_order:
  assumes "mm_loaded s = before @ m # after" "m_name m = name" "\<forall>m' \<in> set before. m_name m' \<noteq> name"
    and "m_instance m = Some i" "m_free m = Some x"
    and "\<forall>h. \<exists>h'. shutdown_instance P i h = (Inr (), h')"
    and "store_save J (store_remove name (mm_names s)) (mm_disk s) = (Inr (), d)"
  shows "case modules_disable J P name s of (r, s') \<Rightarrow>
      r = Inr (result_ok (''Module '' @ quoted name @ '' disabled'')) \<and>
      h_trace (mm_host s') = h_trace (mm_host s) @ [ShutDown i, Destroyed i, Closed x] \<and>
      mm_loaded s' = before @ after \<and> mm_names s' = store_remove name (mm_names s) \<and> mm_disk s' = d"
proof -
  let ?h = "(mm_host s)\<lparr>h_bus := bus_publish \<lparr>ev_name = ''event:disable'', ev_data = AnyString (m_name m)\<rparr> (h_bus (mm_host s))\<rparr>"
  obtain h1 where sh: "shutdown_instance P i ?h = (Inr (), h1)" using assms(6) by blast
  obtain ms h2 where er: "erase_from P m after h1 = (ms, h2)" by (cases "erase_from P m after h1")
  with erase_from_trace [where P = P and this = m and ms = after and h = h1] trace_shutdown [OF sh] assms(4,5)
  have "ms = after" "h_trace h2 = h_trace (mm_host s) @ [ShutDown i, Destroyed i, Closed x]"
    by (auto simp: released_def)
  moreover have "manager_isLoaded name s" using assms(1,2) by (auto simp: manager_isLoaded_def)
  ultimately show ?thesis
    using manager_unload_found [OF assms(1-3)] sh er assms(4,7)
    by (simp add: modules_disable_def manager_unload_def Let_def)
qed

definition demo_manager_state :: "(nat, nat) manager" where
  "demo_manager_state = \<lparr>mm_loaded = [\<lparr>m_name = ''a'', m_path = ''a'', m_instance = Some 1, m_free = Some 0\<rparr>,
      \<lparr>m_name = ''b'', m_path = ''b'', m_instance = Some 3, m_free = Some 2\<rparr>],
     mm_names = [''a'', ''b''], mm_disk = demo_disk\<lparr>dk_writable := False\<rparr>, mm_host = demo_host\<rparr>"

lemma disable_releases_in_order_witness:
  "case modules_disable (table_json []) demo_plugin ''a'' demo_manager_state of (r, s') \<Rightarrow>
      r = Inr (result_ok (''Module '' @ quoted ''a'' @ '' disabled'')) \<and>
      h_trace (mm_host s') = h_trace (mm_host demo_manager_state) @ [ShutDown 1, Destroyed 1, Closed 0] \<and>
      mm_loaded s' = [] @ [\<lparr>m_name = ''b'', m_path = ''b'', m_instance = Some 3, m_free = Some 2\<rparr>] \<and>
      mm_names s' = store_remove ''a'' (mm_names demo_manager_state) \<and>
      mm_disk s' = demo_disk\<lparr>dk_writable := False\<rparr>"
  by (rule disable_releases_in_order [where m = "\<lparr>m_name = ''a'', m_path = ''a'', m_instance = Some 1, m_free = Some 0\<rparr>"])
    (simp_all add: demo_manager_state_def store_save_def shutdown_instance_def demo_plugin_def)

text \<open>
  C30: a module that was enabled is in the state file the next start reads, with the other
  modules of the list.
\<close>

theorem enabled_module_is_restored:
  assumes "json_laws J" "\<forall>j t. j_pretty J 4 j = Some t \<longrightarrow> j_parse J t = Some j"
    and "dk_writable (mm_disk s)" "dk_readable (mm_disk s)"
    and "modules_enable J P pm name s = (Inr r, s1)" "isOk r"
  shows "mm_names (manager_new J (mm_disk s1) h) = mm_names s1 \<and> name \<in> set (mm_names s1)"
proof -
  have names: "map_outcomes (j_get_string J) (map (j_string J) ns) = Inr ns" for ns
    by (induction ns) (simp_all add: json_laws_get [OF assms(1)])
  have "store_save J (store_add name (mm_names s)) (mm_disk s) = (Inr (), mm_disk s1)"
    "mm_names s1 = store_add name (mm_names s)"
    using assms(5,6)
    by (auto simp: modules_enable_def manager_load_def Let_def bind_exn_Inr
        split: if_splits prod.splits sum.splits option.splits)
  moreover from this(1) obtain t where
    "j_pretty J 4 (j_object J [(''enabled'', j_array J (map (j_string J) (store_add name (mm_names s))))]) = Some t"
    "mm_disk s1 = (mm_disk s)\<lparr>dk_content := Some t\<rparr>"
    using assms(1,3) by (auto simp: store_save_def store_json_def json_laws_get pretty_exn_def
        split: sum.splits option.splits)
  ultimately show ?thesis
    using assms(1,2,4) names
    by (simp add: manager_new_def store_load_def json_laws_read json_law_simps store_add_def store_contains_def)
qed

definition state_json :: json where
  "state_json = JObject [(''enabled'', JArray [JString ''lamp''])]"

abbreviation empty_manager :: "(nat, nat) manager" where
  "empty_manager \<equiv> \<lparr>mm_loaded = [], mm_names = [], mm_disk = demo_disk, mm_host = demo_host\<rparr>"

abbreviation lamp_module :: module where
  "lamp_module \<equiv> \<lparr>m_name = ''Lamp'', m_path = ''lamp'', m_instance = Some 1, m_free = Some 0\<rparr>"

lemma demo_enable:
  "\<exists>hst. modules_enable (table_json [(''t'', state_json)]) demo_plugin modules_pm ''lamp'' empty_manager =
     (Inr (result_ok (''Module '' @ quoted ''lamp'' @ '' enabled'')),
      \<lparr>mm_loaded = [lamp_module], mm_names = [''lamp''], mm_disk = demo_disk\<lparr>dk_content := Some ''t''\<rparr>, mm_host = hst\<rparr>)"
  by (simp add: modules_enable_def manager_isLoaded_def manager_load_def loader_load_def library_path_def
      pm_get_def modules_pm_def demo_plugin_def demo_host_def Let_def bring_up_def initialize_instance_def
      store_add_def store_contains_def store_save_def store_json_def demo_disk_def pretty_exn_def state_json_def)

lemma enabled_module_is_restored_witness:
  "mm_names (manager_new (table_json [(''t'', state_json)]) (demo_disk\<lparr>dk_content := Some ''t''\<rparr>) demo_host) = [''lamp'']"
proof -
  obtain hst where e: "modules_enable (table_json [(''t'', state_json)]) demo_plugin modules_pm ''lamp'' empty_manager =
     (Inr (result_ok (''Module '' @ quoted ''lamp'' @ '' enabled'')),
      \<lparr>mm_loaded = [lamp_module], mm_names = [''lamp''], mm_disk = demo_disk\<lparr>dk_content := Some ''t''\<rparr>, mm_host = hst\<rparr>)"
    using demo_enable by blast
  show ?thesis
    using enabled_module_is_restored [OF json_laws_table _ _ _ e, of demo_host] by (simp add: demo_disk_def)
qed

text \<open>
  A module whose \<open>getName\<close> differs from the name of its file cannot be switched off for
  good. Enabled under its file name, it is not found under that name, and disabling it under
  any other name leaves the file name in the persisted list, from which the next start loads it.
\<close>

theorem mismatched_name_stays_enabled:
  assumes "modules_enable J P pm name s = (Inr r, s1)" "isOk r" "m_name (last (mm_loaded s1)) \<noteq> name"
  shows "modules_disable J P name s1 = (Inr (module_notLoaded name), s1) \<and>
    (n \<noteq> name \<longrightarrow> name \<in> set (mm_names (snd (modules_disable J P n s1))))"
proof -
  from assms(1,2) have s: "\<not> manager_isLoaded name s" "\<exists>m. mm_loaded s1 = mm_loaded s @ [m]"
    "mm_names s1 = store_add name (mm_names s)"
    by (auto simp: modules_enable_def manager_load_def Let_def bind_exn_Inr
        split: if_splits prod.splits sum.splits option.splits)
  then have "\<not> manager_isLoaded name s1" using assms(3) by (auto simp: manager_isLoaded_def)
  moreover have in1: "name \<in> set (mm_names s1)" using s(3) by (simp add: store_add_def store_contains_def)
  moreover have "mm_names (snd (modules_disable J P n s1)) \<in> {mm_names s1, store_remove n (mm_names s1)}"
    by (auto simp: modules_disable_def manager_unload_def Let_def split: list.split option.split prod.split sum.split)
  then have "n \<noteq> name \<longrightarrow> name \<in> set (mm_names (snd (modules_disable J P n s1)))"
    using in1 by (auto simp: store_remove_def)
  ultimately show ?thesis by (simp add: modules_disable_def)
qed

lemma mismatched_name_stays_enabled_witness:
  "\<exists>s1. modules_disable (table_json [(''t'', state_json)]) demo_plugin ''lamp'' s1 = (Inr (module_notLoaded ''lamp''), s1) \<and>
     ''lamp'' \<in> set (mm_names (snd (modules_disable (table_json [(''t'', state_json)]) demo_plugin ''Lamp'' s1)))"
proof -
  obtain hst where e: "modules_enable (table_json [(''t'', state_json)]) demo_plugin modules_pm ''lamp'' empty_manager =
     (Inr (result_ok (''Module '' @ quoted ''lamp'' @ '' enabled'')),
      \<lparr>mm_loaded = [lamp_module], mm_names = [''lamp''], mm_disk = demo_disk\<lparr>dk_content := Some ''t''\<rparr>, mm_host = hst\<rparr>)"
    using demo_enable by blast
  show ?thesis
    using mismatched_name_stays_enabled [OF e, of "''Lamp''"] by auto
qed

end
