(* ===== verification/Controllers.thy ===== *)
theory Controllers
  imports Rooms Modules
begin

text \<open>
  The HTTP controllers (src/http/controllers) and \<open>HttpService\<close> (src/services). Each handler is
  a function of the request and of the service it forwards to; an exception that leaves it is
  turned into a 500 by cpp-httplib and is \<open>Inl\<close> here. The log lines the handlers write and
  the random number of a new id (an argument) are the only parts not computed.
\<close>

section \<open>Common steps\<close>

definition answer_json :: "'j json_api \<Rightarrow> 'j outcome \<Rightarrow> response \<Rightarrow> response outcome" where
  "answer_json J j res = bind_exn j (\<lambda>x. bind_exn (dump_exn J x) (\<lambda>t. Inr (set_content t res)))"

text \<open>\<open>const auto result = _service...; res.status = ...; res.set_content(...)\<close>\<close>

definition answer_with ::
  "'j json_api \<Rightarrow> response \<Rightarrow> cpp_result outcome \<times> 'w \<Rightarrow> response outcome \<times> 'w" where
  "answer_with J res rw = (bind_exn (fst rw) (\<lambda>x. answer J x res), snd rw)"

text \<open>The \<open>try\<close> block around \<open>json::parse(req.body)\<close> with its early return.\<close>

definition with_body ::
  "'j json_api \<Rightarrow> request \<Rightarrow> response \<Rightarrow> 'w \<Rightarrow> ('j \<Rightarrow> response outcome \<times> 'w) \<Rightarrow> response outcome \<times> 'w" where
  "with_body J req res w k =
     (case j_parse J (rq_body req) of
        None \<Rightarrow> (answer J (result_badRequest ''Invalid JSON body'') res, w)
      | Some body \<Rightarrow> k body)"

definition with_param ::
  "request \<Rightarrow> string \<Rightarrow> 'w \<Rightarrow> (string \<Rightarrow> response outcome \<times> 'w) \<Rightarrow> response outcome \<times> 'w" where
  "with_param req key w k = (case path_param req key of Inl e \<Rightarrow> (Inl e, w) | Inr v \<Rightarrow> k v)"

section \<open>DeviceController\<close>

definition device_routes :: "'h \<Rightarrow> 'h \<Rightarrow> 'h \<Rightarrow> 'h \<Rightarrow> 'h \<Rightarrow> 'h route_entry list" where
  "device_routes index create show_h destroy command =
     [route index GET ''/api/devices'' ''device_list'' ''List all registered devices'',
      route create POST ''/api/devices'' ''device_create'' ''Register a new device'',
      route show_h GET ''/api/devices/:id'' ''device_show'' ''Get a single device by id'',
      route destroy DELETE ''/api/devices/:id'' ''device_destroy'' ''Delete a device by id'',
      route command POST ''/api/devices/:id/command'' ''device_command'' ''Send a command to a device'']"

definition device_index :: "'j json_api \<Rightarrow> response \<Rightarrow> ('j, 'c) device_world \<Rightarrow> response outcome" where
  "device_index J res w =
     answer_json J (bind_exn (devices_list w) (\<lambda>ds. Inr (j_array J (map (device_toJson J) ds)))) res"

definition device_create ::
  "'j json_api \<Rightarrow> u64 \<Rightarrow> request \<Rightarrow> response \<Rightarrow> ('j, 'c) device_world \<Rightarrow> response outcome \<times> ('j, 'c) device_world" where
  "device_create J rnd req res w =
     with_body J req res w (\<lambda>body.
       case bind_exn (j_value_string J body ''name'' []) (\<lambda>n.
              bind_exn (j_value_string J body ''type'' []) (\<lambda>t. Inr (n, t))) of
         Inl e \<Rightarrow> (Inl e, w)
       | Inr (n, t) \<Rightarrow> answer_with J res (devices_add J rnd n t w))"

definition device_show :: "'j json_api \<Rightarrow> request \<Rightarrow> response \<Rightarrow> ('j, 'c) device_world \<Rightarrow> response outcome" where
  "device_show J req res w =
     bind_exn (path_param req ''id'') (\<lambda>k.
     bind_exn (devices_get k w) (\<lambda>d.
       case d of
         None \<Rightarrow> answer J (result_notFound (''Device '' @ quoted k @ '' not found'')) res
       | Some d \<Rightarrow> answer_json J (Inr (device_toJson J d)) res))"

definition device_destroy ::
  "'j json_api \<Rightarrow> request \<Rightarrow> response \<Rightarrow> ('j, 'c) device_world \<Rightarrow> response outcome \<times> ('j, 'c) device_world" where
  "device_destroy J req res w = with_param req ''id'' w (\<lambda>k. answer_with J res (devices_remove J k w))"

definition device_command ::
  "'j json_api \<Rightarrow> request \<Rightarrow> response \<Rightarrow> ('j, 'c) device_world \<Rightarrow> response outcome \<times> ('j, 'c) device_world" where
  "device_command J req res w =
     with_param req ''id'' w (\<lambda>k.
     with_body J req res w (\<lambda>body.
       if \<not> j_contains J body ''command'' then
         (answer J (result_badRequest (''Field '' @ quoted ''command'' @ '' is required'')) res, w)
       else
         case bind_exn (j_index J body ''command'') (\<lambda>c.
              bind_exn (j_get_string J c) (\<lambda>_.
              bind_exn (j_value_json J body ''payload'' (j_object J [])) (\<lambda>payload.
                j_set J payload ''_command'' c))) of
           Inl e \<Rightarrow> (Inl e, w)
         | Inr payload \<Rightarrow> answer_with J res (devices_command J k payload w)))"

section \<open>RoomController\<close>

definition room_routes :: "'h \<Rightarrow> 'h \<Rightarrow> 'h \<Rightarrow> 'h \<Rightarrow> 'h \<Rightarrow> 'h \<Rightarrow> 'h route_entry list" where
  "room_routes index create show_h destroy add_h remove_h =
     [route index GET ''/api/rooms'' ''room_list'' ''List all rooms'',
      route create POST ''/api/rooms'' ''room_create'' ''Create a new room'',
      route show_h GET ''/api/rooms/:id'' ''room_show'' ''Get a room with its devices expanded'',
      route destroy DELETE ''/api/rooms/:id'' ''room_destroy'' ''Delete a room by id'',
      route add_h POST ''/api/rooms/:id/devices/:deviceId'' ''room_add_device'' ''Add a device to a room'',
      route remove_h DELETE ''/api/rooms/:id/devices/:deviceId'' ''room_remove_device'' ''Remove a device from a room'']"

definition room_index :: "'j json_api \<Rightarrow> 'j devices option \<Rightarrow> response \<Rightarrow> room_world \<Rightarrow> response outcome" where
  "room_index J devs res w =
     answer_json J (bind_exn (rooms_list w) (\<lambda>rs.
       bind_exn (map_outcomes (rooms_expand J devs) rs) (\<lambda>js. Inr (j_array J js)))) res"

definition room_create ::
  "'j json_api \<Rightarrow> u64 \<Rightarrow> request \<Rightarrow> response \<Rightarrow> room_world \<Rightarrow> response outcome \<times> room_world" where
  "room_create J rnd req res w =
     with_body J req res w (\<lambda>body.
       case j_value_string J body ''name'' [] of
         Inl e \<Rightarrow> (Inl e, w)
       | Inr n \<Rightarrow> answer_with J res (rooms_add J rnd n w))"

definition room_show ::
  "'j json_api \<Rightarrow> 'j devices option \<Rightarrow> request \<Rightarrow> response \<Rightarrow> room_world \<Rightarrow> response outcome" where
  "room_show J devs req res w =
     bind_exn (path_param req ''id'') (\<lambda>k.
     bind_exn (rooms_get k w) (\<lambda>r.
       case r of
         None \<Rightarrow> answer J (result_notFound (''Room '' @ quoted k @ '' not found'')) res
       | Some r \<Rightarrow> answer_json J (rooms_expand J devs r) res))"

definition room_destroy ::
  "'j json_api \<Rightarrow> request \<Rightarrow> response \<Rightarrow> room_world \<Rightarrow> response outcome \<times> room_world" where
  "room_destroy J req res w = with_param req ''id'' w (\<lambda>k. answer_with J res (rooms_remove J k w))"

definition room_add_device ::
  "'j json_api \<Rightarrow> 'j devices option \<Rightarrow> request \<Rightarrow> response \<Rightarrow> room_world \<Rightarrow> response outcome \<times> room_world" where
  "room_add_device J devs req res w =
     with_param req ''id'' w (\<lambda>k. with_param req ''deviceId'' w (\<lambda>did.
       answer_with J res (rooms_addDevice J devs k did w)))"

definition room_remove_device ::
  "'j json_api \<Rightarrow> request \<Rightarrow> response \<Rightarrow> room_world \<Rightarrow> response outcome \<times> room_world" where
  "room_remove_device J req res w =
     with_param req ''id'' w (\<lambda>k. with_param req ''deviceId'' w (\<lambda>did.
       answer_with J res (rooms_removeDevice J k did w)))"

section \<open>ModuleController\<close>

definition module_routes :: "'h \<Rightarrow> 'h \<Rightarrow> 'h \<Rightarrow> 'h route_entry list" where
  "module_routes index enable disable =
     [route index GET ''/api/modules'' ''modules_list'' ''List all currently loaded modules'',
      route enable POST ''/api/modules/:name/enable'' ''module_enable'' ''Load and initialise a module by name'',
      route disable POST ''/api/modules/:name/disable'' ''module_disable'' ''Shut down and unload a module by name'']"

definition module_index :: "'j json_api \<Rightarrow> response \<Rightarrow> ('c, 'w) manager \<Rightarrow> response outcome" where
  "module_index J res s =
     answer_json J (Inr (j_array J (map (\<lambda>(n, p). j_object J [(''name'', j_string J n), (''path'', j_string J p)])
       (modules_list s)))) res"

definition module_enable ::
  "'j json_api \<Rightarrow> ('c, 'w) plugin_api \<Rightarrow> path_manager \<Rightarrow> request \<Rightarrow> response \<Rightarrow> ('c, 'w) manager
     \<Rightarrow> response outcome \<times> ('c, 'w) manager" where
  "module_enable J P pm req res s = with_param req ''name'' s (\<lambda>n. answer_with J res (modules_enable J P pm n s))"

definition module_disable ::
  "'j json_api \<Rightarrow> ('c, 'w) plugin_api \<Rightarrow> request \<Rightarrow> response \<Rightarrow> ('c, 'w) manager
     \<Rightarrow> response outcome \<times> ('c, 'w) manager" where
  "module_disable J P req res s = with_param req ''name'' s (\<lambda>n. answer_with J res (modules_disable J P n s))"

section \<open>HttpService\<close>

text \<open>The handlers by name; the state of the application behind them.\<close>

datatype handler =
    HStatus | HHealth | HMetrics
  | HModuleIndex | HModuleEnable | HModuleDisable
  | HDeviceIndex | HDeviceCreate | HDeviceShow | HDeviceDestroy | HDeviceCommand
  | HRoomIndex | HRoomCreate | HRoomShow | HRoomDestroy | HRoomAddDevice | HRoomRemoveDevice
  | HConfigShow | HConfigUpdate

text \<open>\<open>start\<close>: a new server, given the four controllers in this order, and started.\<close>

definition service_tables :: "handler route_entry list list" where
  "service_tables =
     [module_routes HModuleIndex HModuleEnable HModuleDisable,
      device_routes HDeviceIndex HDeviceCreate HDeviceShow HDeviceDestroy HDeviceCommand,
      room_routes HRoomIndex HRoomCreate HRoomShow HRoomDestroy HRoomAddDevice HRoomRemoveDevice,
      config_routes HConfigShow HConfigUpdate]"

definition http_service_start :: "handler http_server" where
  "http_service_start =
     fst (server_start HStatus HHealth HMetrics
       (fold (\<lambda>t s. snd (server_use t s)) service_tables http_server_new))"

definition http_service_stop :: "handler http_server option \<Rightarrow> handler http_server option" where
  "http_service_stop s = map_option server_stop s"

record ('j, 'c, 'w) app =
  ap_devices :: "('j, 'c) device_world"
  ap_rooms :: room_world
  ap_modules :: "('c, 'w) manager"
  ap_config :: nexus_config
  ap_config_file :: disk

text \<open>
  \<open>endpoint.handle(req, res)\<close> for the endpoints of the service; \<open>up\<close>, \<open>mq\<close> and \<open>rss\<close> are the
  uptime, the connection flag and the memory figure the built-ins report.
\<close>

definition handle ::
  "'j json_api \<Rightarrow> ('c, 'w) plugin_api \<Rightarrow> path_manager \<Rightarrow> nat \<Rightarrow> bool \<Rightarrow> int \<Rightarrow> u64 \<Rightarrow> handler \<Rightarrow> request \<Rightarrow> response
     \<Rightarrow> ('j, 'c, 'w) app \<Rightarrow> response outcome \<times> ('j, 'c, 'w) app" where
  "handle J P pm up mq rss rnd h req res a =
     (let dev = (\<lambda>(r, w). (r, a\<lparr>ap_devices := w\<rparr>)); rm = (\<lambda>(r, w). (r, a\<lparr>ap_rooms := w\<rparr>));
          md = (\<lambda>(r, s). (r, a\<lparr>ap_modules := s\<rparr>)); devs = dv_reg (ap_devices a)
      in case h of
           HStatus \<Rightarrow> (Inr (status_handler res), a)
         | HHealth \<Rightarrow> (Inr (set_content (health_body up mq (length (mm_loaded (ap_modules a)))) res), a)
         | HMetrics \<Rightarrow> (Inr (set_content (metrics_body up mq (length (mm_loaded (ap_modules a))) rss
               (length (hs_routes http_service_start))) res), a)
         | HModuleIndex \<Rightarrow> (module_index J res (ap_modules a), a)
         | HModuleEnable \<Rightarrow> md (module_enable J P pm req res (ap_modules a))
         | HModuleDisable \<Rightarrow> md (module_disable J P req res (ap_modules a))
         | HDeviceIndex \<Rightarrow> (device_index J res (ap_devices a), a)
         | HDeviceCreate \<Rightarrow> dev (device_create J rnd req res (ap_devices a))
         | HDeviceShow \<Rightarrow> (device_show J req res (ap_devices a), a)
         | HDeviceDestroy \<Rightarrow> dev (device_destroy J req res (ap_devices a))
         | HDeviceCommand \<Rightarrow> dev (device_command J req res (ap_devices a))
         | HRoomIndex \<Rightarrow> (room_index J devs res (ap_rooms a), a)
         | HRoomCreate \<Rightarrow> rm (room_create J rnd req res (ap_rooms a))
         | HRoomShow \<Rightarrow> (room_show J devs req res (ap_rooms a), a)
         | HRoomDestroy \<Rightarrow> rm (room_destroy J req res (ap_rooms a))
         | HRoomAddDevice \<Rightarrow> rm (room_add_device J devs req res (ap_rooms a))
         | HRoomRemoveDevice \<Rightarrow> rm (room_remove_device J req res (ap_rooms a))
         | HConfigShow \<Rightarrow> (config_show J (ap_config a) res, a)
         | HConfigUpdate \<Rightarrow>
             (case config_update J pm req res (ap_config a) (ap_config_file a) of
                (r, c, d) \<Rightarrow> (r, a\<lparr>ap_config := c, ap_config_file := d\<rparr>)))"

section \<open>Properties\<close>

lemma service_tables_ok: "\<forall>t \<in> set service_tables. \<forall>e \<in> set t. entry_ok e"
  by (simp add: service_tables_def module_routes_def device_routes_def room_routes_def config_routes_def
      route_def entry_ok_def)

lemma http_service_routes:
  "hs_routes http_service_start = builtins HStatus HHealth HMetrics @ map endpoint_of (concat service_tables)"
  by (simp add: http_service_start_def server_start_def uses_ok [OF service_tables_ok] http_server_new_def
      server_registerRoutes_def Let_def)

lemma http_service_bound:
  "hs_bound http_service_start = map (\<lambda>ep. (ep_method ep, ep_path ep, ep)) (hs_routes http_service_start)"
  unfolding http_service_routes
  by (simp add: http_service_start_def server_start_def uses_ok [OF service_tables_ok] http_server_new_def
      server_registerRoutes_def Let_def bindRoutes_filter)
    (simp add: builtins_def builtin_endpoint_def endpoint_describe_def service_tables_def module_routes_def
      device_routes_def room_routes_def config_routes_def route_def endpoint_of_def)

lemmas service_endpoint_defs = http_service_routes builtins_def builtin_endpoint_def endpoint_describe_def
  service_tables_def module_routes_def device_routes_def room_routes_def config_routes_def route_def endpoint_of_def

lemma service_paths:
  "map (\<lambda>ep. (ep_method ep, ep_path ep)) (hs_routes http_service_start) =
     [(GET, ''/api/status''), (GET, ''/api/health''), (GET, ''/api/metrics''), (GET, ''/api/modules''),
      (POST, ''/api/modules/:name/enable''), (POST, ''/api/modules/:name/disable''), (GET, ''/api/devices''),
      (POST, ''/api/devices''), (GET, ''/api/devices/:id''), (DELETE, ''/api/devices/:id''),
      (POST, ''/api/devices/:id/command''), (GET, ''/api/rooms''), (POST, ''/api/rooms''), (GET, ''/api/rooms/:id''),
      (DELETE, ''/api/rooms/:id''), (POST, ''/api/rooms/:id/devices/:deviceId''),
      (DELETE, ''/api/rooms/:id/devices/:deviceId''), (GET, ''/api/config''), (PATCH, ''/api/config'')]"
  by (simp add: service_endpoint_defs)

lemma service_names:
  "map ep_name (hs_routes http_service_start) = [''status'', ''health'', ''metrics'', ''modules_list'', ''module_enable'',
      ''module_disable'', ''device_list'', ''device_create'', ''device_show'', ''device_destroy'', ''device_command'',
      ''room_list'', ''room_create'', ''room_show'', ''room_destroy'', ''room_add_device'', ''room_remove_device'',
      ''config_show'', ''config_update'']"
  by (simp add: service_endpoint_defs)

lemma service_handlers:
  "map ep_handler (hs_routes http_service_start) = map Some [HStatus, HHealth, HMetrics, HModuleIndex, HModuleEnable, HModuleDisable,
      HDeviceIndex, HDeviceCreate, HDeviceShow, HDeviceDestroy, HDeviceCommand, HRoomIndex, HRoomCreate, HRoomShow,
      HRoomDestroy, HRoomAddDevice, HRoomRemoveDevice, HConfigShow, HConfigUpdate]"
  by (simp add: service_endpoint_defs)

lemma service_methods:
  "list_all (\<lambda>ep. ep_method ep \<in> {GET, POST, PATCH, DELETE}) (hs_routes http_service_start)"
  by (simp add: service_endpoint_defs)

lemma service_no_params:
  "list_all (\<lambda>ep. ep_params ep = []) (hs_routes http_service_start)"
  by (simp add: service_endpoint_defs)

text \<open>
  The started HTTP service binds its 19 endpoints unambiguously. No method and path and no
  name occurs twice, every handler of the application is bound exactly once, and none of the
  endpoints declares a parameter.
\<close>

theorem http_service_binds_all_handlers:
  "let eps = hs_routes http_service_start
   in hs_bound http_service_start = map (\<lambda>ep. (ep_method ep, ep_path ep, ep)) eps \<and> length eps = 19 \<and>
      distinct (map (\<lambda>ep. (ep_method ep, ep_path ep)) eps) \<and> distinct (map ep_name eps) \<and>
      distinct (map ep_handler eps) \<and> (\<forall>h. \<exists>ep \<in> set eps. ep_handler ep = Some h) \<and>
      list_all (\<lambda>ep. ep_params ep = []) eps"
proof -
  let ?eps = "hs_routes http_service_start"
  have "Some h \<in> set (map ep_handler ?eps)" for h
    unfolding service_handlers by (cases h) simp_all
  then have "\<exists>ep \<in> set ?eps. ep_handler ep = Some h" for h by (metis imageE set_map)
  moreover have "distinct (map (\<lambda>ep. (ep_method ep, ep_path ep)) ?eps)" unfolding service_paths by simp
  moreover have "distinct (map ep_name ?eps)" unfolding service_names by simp
  moreover have "distinct (map ep_handler ?eps)" unfolding service_handlers by simp
  moreover have "length ?eps = 19" using arg_cong [OF service_names, of length] by simp
  ultimately show ?thesis using service_no_params http_service_bound by (simp add: Let_def)
qed

text \<open>
  C38: a request whose body is not JSON changes nothing. Every endpoint that reads a body then
  answers 400 (\<open>POST /api/devices/:id/command\<close> once it has its path parameter) and leaves the
  devices, rooms, modules, configuration and files as they were.
\<close>

theorem malformed_body_changes_nothing:
  assumes "j_parse J (rq_body req) = None" "rq_params req ''id'' = Some k"
    and "result_toJson J (result_badRequest ''Invalid JSON body'') = Inr t"
    and "h \<in> {HDeviceCreate, HDeviceCommand, HRoomCreate, HConfigUpdate}"
  shows "handle J P pm up mq rss rnd h req res a =
    (Inr \<lparr>rs_status = 400, rs_body = t, rs_type = ''application/json''\<rparr>, a)"
proof -
  have "answer J (result_badRequest ''Invalid JSON body'') res =
      Inr \<lparr>rs_status = 400, rs_body = t, rs_type = ''application/json''\<rparr>"
    using assms(3) by (simp add: answer_def set_content_def result_badRequest_def)
  then show ?thesis
    using assms(1,2,4)
    by (auto simp: handle_def device_create_def device_command_def room_create_def config_update_def
        with_body_def with_param_def path_param_def Let_def)
qed

lemma malformed_body_changes_nothing_witness:
  "handle (table_json [(''e'', JObject [(''success'', JBool False), (''output'', JString ''Invalid JSON body'')])])
     demo_plugin modules_pm 0 True 0 7 HDeviceCommand
     \<lparr>rq_method = ''POST'', rq_path = ''/api/devices/x/command'', rq_body = ''{'', rq_params = [''id'' \<mapsto> ''x'']\<rparr> demo_res
     \<lparr>ap_devices = demo_world, ap_rooms = demo_room_world, ap_modules = empty_manager, ap_config = default_config,
      ap_config_file = demo_disk\<rparr>
   = (Inr \<lparr>rs_status = 400, rs_body = ''e'', rs_type = ''application/json''\<rparr>,
     \<lparr>ap_devices = demo_world, ap_rooms = demo_room_world, ap_modules = empty_manager, ap_config = default_config,
      ap_config_file = demo_disk\<rparr>)"
  by (rule malformed_body_changes_nothing [where k = "''x''"])
    (simp_all add: result_toJson_def dump_exn_def result_badRequest_def isOk_def)

lemma devices_add_created:
  assumes "devices_add J rnd n t w = (Inr x, w')" "r_status x = 201"
  shows "devices_get (generateId rnd) w' =
    Inr (Some \<lparr>d_id = generateId rnd, d_name = n, d_type = t, d_state = j_object J [], d_online = False\<rparr>)"
  using assms
  by (auto simp: devices_add_def with_registry_def device_add_def device_get_def persist_def devices_get_def
      result_defs Let_def map_add_def split: if_splits option.splits prod.splits sum.splits)


definition created_json :: json where
  "created_json = JObject [(''success'', JBool True), (''output'', JString (''Device '' @ quoted (generateId 1) @ '' registered''))]"

definition lamp_json :: json where
  "lamp_json = device_toJson (table_json []) demo_device"

definition lamp_api :: "json json_api" where
  "lamp_api = table_json [(''b'', JObject [(''name'', JString ''lamp''), (''type'', JString ''light'')]),
     (''1'', JArray [lamp_json]), (''c'', created_json), (''d'', lamp_json)]"

definition demo_app :: "(json, nat, nat) app" where
  "demo_app = \<lparr>ap_devices = demo_world, ap_rooms = demo_room_world, ap_modules = empty_manager,
     ap_config = default_config, ap_config_file = demo_disk\<rparr>"

definition lamp_app :: "(json, nat, nat) app" where
  "lamp_app = snd (handle lamp_api demo_plugin modules_pm 0 True 0 1 HDeviceCreate (demo_req ''b'') demo_res demo_app)"

lemma lamp_created:
  "handle lamp_api demo_plugin modules_pm 0 True 0 1 HDeviceCreate (demo_req ''b'') demo_res demo_app =
     (Inr (set_content ''c'' (demo_res\<lparr>rs_status := 201\<rparr>)), lamp_app)"
proof -
  have "j_parse lamp_api ''b'' = Some (JObject [(''name'', JString ''lamp''), (''type'', JString ''light'')])"
    by (simp add: lamp_api_def)
  moreover have "j_pretty lamp_api 2 (devices_json lamp_api [(generateId 1, demo_device)]) = Some ''1''"
    by (simp add: lamp_api_def devices_json_def lamp_json_def device_toJson_def)
  moreover have "result_toJson lamp_api (result_created (''Device '' @ quoted (generateId 1) @ '' registered'')) = Inr ''c''"
    by (simp add: lamp_api_def result_toJson_def dump_exn_def lamp_json_def device_toJson_def created_json_def
        result_created_def isOk_def)
  moreover have "json_laws lamp_api" "j_object lamp_api [] = JObject []" by (simp_all add: lamp_api_def)
  moreover have "j_value_string lamp_api = tj_value tj_string" by (simp add: lamp_api_def)
  ultimately show ?thesis
    unfolding lamp_app_def
    by (simp add: handle_def device_create_def with_body_def answer_with_def answer_def devices_add_def
        with_registry_def demo_app_def demo_world_def device_add_def persist_def device_save_def disk_save_def
        pretty_exn_def demo_device_def Let_def result_created_def)
qed


end
