(* ===== verification/Mcp.thy ===== *)
theory Mcp
  imports Controllers
begin

text \<open>
  \<open>McpServer\<close> (src/mcp) and \<open>McpService\<close> (src/services): JSON-RPC requests answered from the
  endpoint metadata, and tool calls forwarded to the HTTP API. The HTTP client is cpp-httplib's;
  what a call answers is the parameter \<open>client\<close>, a function of the call on a state that stands
  for the rest of the world.
\<close>

section \<open>JSON-RPC replies\<close>

definition mcp_ok :: "'j json_api \<Rightarrow> 'j \<Rightarrow> 'j \<Rightarrow> 'j" where
  "mcp_ok J i result = j_object J [(''jsonrpc'', j_string J ''2.0''), (''id'', i), (''result'', result)]"

definition mcp_err :: "'j json_api \<Rightarrow> 'j \<Rightarrow> int \<Rightarrow> string \<Rightarrow> 'j" where
  "mcp_err J i code msg = j_object J
     [(''jsonrpc'', j_string J ''2.0''), (''id'', i),
      (''error'', j_object J [(''code'', j_int J code), (''message'', j_string J msg)])]"

definition mcp_text :: "'j json_api \<Rightarrow> string \<Rightarrow> 'j" where
  "mcp_text J content = j_object J [(''type'', j_string J ''text''), (''text'', j_string J content)]"

section \<open>The HTTP proxy\<close>

text \<open>\<open>std::stoi\<close>: leading white space, a sign, digits up to the first other character.\<close>

definition is_digit :: "char \<Rightarrow> bool" where
  "is_digit c \<longleftrightarrow> of_char c \<ge> (48 :: nat) \<and> of_char c \<le> (57 :: nat)"

definition digits_value :: "string \<Rightarrow> nat" where
  "digits_value s = foldl (\<lambda>a c. a * 10 + (of_char c - 48)) 0 s"

definition std_stoi :: "string \<Rightarrow> int outcome" where
  "std_stoi s =
     (let t = dropWhile (\<lambda>c. of_char c \<in> {9, 10, 11, 12, 13, 32 :: nat}) s;
          neg = (t \<noteq> [] \<and> hd t = CHR ''-'');
          u = (if t \<noteq> [] \<and> (hd t = CHR ''-'' \<or> hd t = CHR ''+'') then tl t else t);
          ds = takeWhile is_digit u;
          v = (if neg then - int (digits_value ds) else int (digits_value ds))
      in if ds = [] then Inl (StdException ''stoi'')
         else if v < - 2147483648 \<or> v > 2147483647 then Inl (StdException ''stoi'')
         else Inr v)"

definition parse_api_base :: "string \<Rightarrow> (string \<times> int) outcome" where
  "parse_api_base base =
     (let s1 = (if prefix ''http://'' base then drop 7 base else base);
          s2 = (if prefix ''https://'' s1 then drop 8 s1 else s1)
      in case chr_rfind CHR '':'' s2 of
           None \<Rightarrow> Inr (s2, 8080)
         | Some colon \<Rightarrow> bind_exn (std_stoi (drop (colon + 1) s2)) (\<lambda>port. Inr (take colon s2, port)))"

fun url_loop :: "'j json_api \<Rightarrow> 'j \<Rightarrow> endpoint_param list \<Rightarrow> string \<Rightarrow> string \<Rightarrow> string outcome" where
  "url_loop J args [] url query = Inr (url @ query)"
| "url_loop J args (p # ps) url query =
     (if \<not> j_contains J args (pa_name p) then url_loop J args ps url query
      else bind_exn (j_index J args (pa_name p)) (\<lambda>v.
           bind_exn (if j_is_string J v then j_get_string J v else dump_exn J v) (\<lambda>val.
             if pa_in p = ''path'' then
               (case str_find (CHR '':'' # pa_name p) url of
                  None \<Rightarrow> url_loop J args ps url query
                | Some pos \<Rightarrow>
                    url_loop J args ps (take pos url @ val @ drop (pos + (length (pa_name p) + 1)) url) query)
             else if pa_in p = ''query'' then
               url_loop J args ps url
                 (query @ (if query = [] then ''?'' else ''&'') @ pa_name p @ ''='' @ val)
             else url_loop J args ps url query)))"

definition buildUrl :: "'j json_api \<Rightarrow> 'h endpoint \<Rightarrow> 'j \<Rightarrow> string outcome" where
  "buildUrl J ep args = url_loop J args (ep_params ep) (ep_path ep) []"

fun body_loop :: "'j json_api \<Rightarrow> 'j \<Rightarrow> endpoint_param list \<Rightarrow> 'j \<Rightarrow> 'j outcome" where
  "body_loop J args [] body = Inr body"
| "body_loop J args (p # ps) body =
     (if pa_in p = ''body'' \<and> j_contains J args (pa_name p)
      then bind_exn (j_index J args (pa_name p)) (\<lambda>v.
           bind_exn (j_set J body (pa_name p) v) (body_loop J args ps))
      else body_loop J args ps body)"

definition buildBody :: "'j json_api \<Rightarrow> 'h endpoint \<Rightarrow> 'j \<Rightarrow> 'j outcome" where
  "buildBody J ep args = body_loop J args (ep_params ep) (j_object J [])"

record client_call =
  cl_host :: string
  cl_port :: int
  cl_method :: http_method
  cl_url :: string
  cl_body :: "string option"

datatype client_result = ClientError string | ClientOk int string

type_synonym 'w client = "client_call \<Rightarrow> 'w \<Rightarrow> client_result \<times> 'w"

text \<open>The answer of the API as JSON, or wrapped when it is not.\<close>

definition reply_json :: "'j json_api \<Rightarrow> client_result \<Rightarrow> 'j" where
  "reply_json J r =
     (case r of
        ClientError e \<Rightarrow> j_object J [(''error'', j_string J (''HTTP request failed: '' @ e))]
      | ClientOk st body \<Rightarrow>
          (case j_parse J body of
             Some j \<Rightarrow> j
           | None \<Rightarrow> j_object J [(''raw'', j_string J body), (''status'', j_int J st)]))"

definition callEndpoint ::
  "'j json_api \<Rightarrow> 'w client \<Rightarrow> string \<Rightarrow> 'h endpoint \<Rightarrow> 'j \<Rightarrow> 'w \<Rightarrow> 'j outcome \<times> 'w" where
  "callEndpoint J client base ep args w =
     (case bind_exn (buildUrl J ep args) (\<lambda>url.
           bind_exn (buildBody J ep args) (\<lambda>body.
           bind_exn (if j_empty J body then Inr [] else dump_exn J body) (\<lambda>bodyStr.
           bind_exn (parse_api_base base) (\<lambda>(host, port). Inr (url, bodyStr, host, port))))) of
        Inl e \<Rightarrow> (Inl e, w)
      | Inr (url, bodyStr, host, port) \<Rightarrow>
          let call = (\<lambda>b. \<lparr>cl_host = host, cl_port = port, cl_method = ep_method ep, cl_url = url, cl_body = b\<rparr>);
              run = (\<lambda>b. case client (call b) w of (r, w') \<Rightarrow> (Inr (reply_json J r), w'))
          in case ep_method ep of
               GET \<Rightarrow> run None
             | POST \<Rightarrow> run (Some bodyStr)
             | PUT \<Rightarrow> run (Some bodyStr)
             | PATCH \<Rightarrow> run (Some bodyStr)
             | _ \<Rightarrow> (Inr (j_object J [(''error'', j_string J ''Unsupported HTTP method'')]), w))"

section \<open>Dispatch\<close>

definition handleInitialize :: "'j json_api \<Rightarrow> 'j \<Rightarrow> 'j" where
  "handleInitialize J i = mcp_ok J i (j_object J
     [(''protocolVersion'', j_string J ''2025-03-26''),
      (''serverInfo'', j_object J [(''name'', j_string J ''nexus-mcp''), (''version'', j_string J ''1.0.0'')]),
      (''capabilities'', j_object J [(''tools'', j_object J [])])])"

definition tool_json :: "'j json_api \<Rightarrow> 'h endpoint \<Rightarrow> 'j outcome" where
  "tool_json J ep = bind_exn (buildInputSchema J ep) (\<lambda>schema. Inr (j_object J
     [(''name'', j_string J (ep_name ep)),
      (''description'', j_string J (if ep_description ep = [] then endpoint_toString ep else ep_description ep)),
      (''inputSchema'', schema)]))"

definition handleToolsList :: "'j json_api \<Rightarrow> 'h endpoint list \<Rightarrow> 'j \<Rightarrow> 'j outcome" where
  "handleToolsList J routes i =
     bind_exn (map_outcomes (tool_json J) routes) (\<lambda>tools.
       Inr (mcp_ok J i (j_object J [(''tools'', j_array J tools)])))"

definition find_tool :: "string \<Rightarrow> 'h endpoint list \<Rightarrow> 'h endpoint option" where
  "find_tool name routes = List.find (\<lambda>ep. ep_name ep = name) routes"

definition handleToolsCall ::
  "'j json_api \<Rightarrow> 'w client \<Rightarrow> string \<Rightarrow> 'h endpoint list \<Rightarrow> 'j \<Rightarrow> 'j \<Rightarrow> 'w \<Rightarrow> 'j outcome \<times> 'w" where
  "handleToolsCall J client base routes params i w =
     (case bind_exn (j_value_string J params ''name'' []) (\<lambda>name.
           bind_exn (j_value_json J params ''arguments'' (j_object J [])) (\<lambda>args. Inr (name, args))) of
        Inl e \<Rightarrow> (Inl e, w)
      | Inr (name, args) \<Rightarrow>
          (case find_tool name routes of
             None \<Rightarrow> (Inr (mcp_err J i (-32602) (''Unknown tool: '' @ name)), w)
           | Some ep \<Rightarrow>
               (case callEndpoint J client base ep args w of
                  (r, w') \<Rightarrow>
                    (bind_exn r (\<lambda>j. bind_exn (pretty_exn J 2 j) (\<lambda>t.
                       Inr (mcp_ok J i (j_object J [(''content'', j_array J [mcp_text J t])])))), w'))))"

definition dispatch ::
  "'j json_api \<Rightarrow> 'w client \<Rightarrow> string \<Rightarrow> 'h endpoint list \<Rightarrow> 'j \<Rightarrow> 'w \<Rightarrow> 'j outcome \<times> 'w" where
  "dispatch J client base routes req w =
     (case bind_exn (j_value_json J req ''id'' (j_null J)) (\<lambda>i.
           bind_exn (j_value_string J req ''method'' []) (\<lambda>mth.
           bind_exn (j_value_json J req ''params'' (j_object J [])) (\<lambda>params. Inr (i, mth, params)))) of
        Inl e \<Rightarrow> (Inl e, w)
      | Inr (i, mth, params) \<Rightarrow>
          if mth = ''initialize'' then (Inr (handleInitialize J i), w)
          else if mth = ''notifications/initialized'' then (Inr (j_null J), w)
          else if mth = ''ping'' then (Inr (mcp_ok J i (j_object J [])), w)
          else if mth = ''tools/list'' then (handleToolsList J routes i, w)
          else if mth = ''tools/call'' then handleToolsCall J client base routes params i w
          else (Inr (mcp_err J i (-32601) (''Method not found: '' @ mth)), w))"

section \<open>The server\<close>

text \<open>The handler of \<open>POST /mcp\<close>; \<open>catch (...)\<close> answers 400 with a parse error.\<close>

definition mcp_post ::
  "'j json_api \<Rightarrow> 'w client \<Rightarrow> string \<Rightarrow> 'h endpoint list \<Rightarrow> request \<Rightarrow> response \<Rightarrow> 'w \<Rightarrow> response outcome \<times> 'w" where
  "mcp_post J client base routes req res w =
     (let caught = bind_exn (dump_exn J (mcp_err J (j_null J) (-32700) ''Parse error''))
            (\<lambda>t. Inr (set_content t (res\<lparr>rs_status := 400\<rparr>)))
      in case parse_exn J (rq_body req) of
           Inl _ \<Rightarrow> (caught, w)
         | Inr j \<Rightarrow>
             (case dispatch J client base routes j w of
                (r, w') \<Rightarrow>
                  (catch_any (bind_exn r (\<lambda>reply.
                     if j_is_null J reply then Inr (res\<lparr>rs_status := 204\<rparr>)
                     else bind_exn (dump_exn J reply) (\<lambda>t. Inr (set_content t res)))) (\<lambda>_. caught), w')))"

definition mcp_health :: "response \<Rightarrow> response" where
  "mcp_health res = set_content
     (''{'' @ dq @ ''status'' @ dq @ '':'' @ dq @ ''ok'' @ dq @ '','' @ dq @ ''server'' @ dq @ '':'' @ dq @ ''nexus-mcp'' @ dq @ ''}'') res"

record 'h mcp_server =
  mc_routes :: "'h endpoint list"
  mc_base :: string
  mc_running :: bool

definition mcp_start :: "'h mcp_server \<Rightarrow> 'h mcp_server" where
  "mcp_start s = s\<lparr>mc_running := True\<rparr>"

definition mcp_stop :: "'h mcp_server \<Rightarrow> 'h mcp_server" where
  "mcp_stop s = (if \<not> mc_running s then s else s\<lparr>mc_running := False\<rparr>)"

text \<open>\<open>McpService\<close>: nothing is started while the HTTP service has no server.\<close>

definition mcp_service_start ::
  "'h http_server option \<Rightarrow> 'h mcp_server option \<Rightarrow> 'h mcp_server option" where
  "mcp_service_start srv cur =
     (case srv of
        None \<Rightarrow> cur
      | Some s \<Rightarrow> Some (mcp_start \<lparr>mc_routes = hs_routes s, mc_base = ''http://localhost:8080'', mc_running = False\<rparr>))"

definition mcp_service_stop :: "'h mcp_server option \<Rightarrow> 'h mcp_server option" where
  "mcp_service_stop cur = map_option mcp_stop cur"

section \<open>Properties\<close>

lemma find_tool_distinct:
  "distinct (map ep_name eps) \<Longrightarrow> ep \<in> set eps \<Longrightarrow> find_tool (ep_name ep) eps = Some ep"
  unfolding find_tool_def by (induction eps) (auto simp: rev_image_eqI)

lemma buildUrl_no_params: "ep_params ep = [] \<Longrightarrow> buildUrl J ep args = Inr (ep_path ep)"
  by (simp add: buildUrl_def)

lemma buildBody_no_params: "ep_params ep = [] \<Longrightarrow> buildBody J ep args = Inr (j_object J [])"
  by (simp add: buildBody_def)

lemma default_base: "parse_api_base ''http://localhost:8080'' = Inr (''localhost'', 8080)"
  by code_simp

lemma callEndpoint_no_params:
  assumes "json_laws J" "ep_params ep = []"
  shows "callEndpoint J client ''http://localhost:8080'' ep args w =
    (let call = (\<lambda>b. client \<lparr>cl_host = ''localhost'', cl_port = 8080, cl_method = ep_method ep, cl_url = ep_path ep, cl_body = b\<rparr> w)
     in case ep_method ep of
          GET \<Rightarrow> (case call None of (r, w') \<Rightarrow> (Inr (reply_json J r), w'))
        | POST \<Rightarrow> (case call (Some []) of (r, w') \<Rightarrow> (Inr (reply_json J r), w'))
        | PUT \<Rightarrow> (case call (Some []) of (r, w') \<Rightarrow> (Inr (reply_json J r), w'))
        | PATCH \<Rightarrow> (case call (Some []) of (r, w') \<Rightarrow> (Inr (reply_json J r), w'))
        | _ \<Rightarrow> (Inr (j_object J [(''error'', j_string J ''Unsupported HTTP method'')]), w))"
proof -
  have "j_empty J (j_object J [])" using assms(1) by (simp add: json_laws_get)
  with assms(2) show ?thesis
    by (simp add: callEndpoint_def buildUrl_no_params buildBody_no_params default_base Let_def split: http_method.split)
qed

text \<open>
  A tool call of the running service reaches the API without its arguments. For every
  endpoint of the HTTP service and every \<open>arguments\<close> value, the call goes to port 8080 of
  localhost with the path as it is registered, placeholders like \<open>:id\<close> included, and with an
  empty body; for the endpoints with method DELETE nothing is sent and the answer is an error.
\<close>

theorem tool_calls_ignore_their_arguments:
  assumes "json_laws J" "mcp_service_start (Some http_service_start) cur = Some s" "ep \<in> set (mc_routes s)"
    and "params = j_object J [(''name'', j_string J (ep_name ep)), (''arguments'', args)]"
    and "client \<lparr>cl_host = ''localhost'', cl_port = 8080, cl_method = ep_method ep, cl_url = ep_path ep,
           cl_body = (if ep_method ep = GET then None else Some [])\<rparr> w = (r, w')"
    and "j_pretty J 2 (if ep_method ep = DELETE then j_object J [(''error'', j_string J ''Unsupported HTTP method'')]
           else reply_json J r) = Some t"
  shows "handleToolsCall J client (mc_base s) (mc_routes s) params i w =
    (Inr (mcp_ok J i (j_object J [(''content'', j_array J [mcp_text J t])])), if ep_method ep = DELETE then w else w')"
proof -
  from assms(2) have s: "mc_routes s = hs_routes http_service_start" "mc_base s = ''http://localhost:8080''"
    by (auto simp: mcp_service_start_def mcp_start_def)
  have "distinct (map ep_name (hs_routes http_service_start))" unfolding service_names by simp
  then have find: "find_tool (ep_name ep) (mc_routes s) = Some ep"
    using find_tool_distinct assms(3) s(1) by metis
  have np: "ep_params ep = []" using service_no_params assms(3) s(1) by (auto simp: list_all_iff)
  have m: "ep_method ep \<in> {GET, POST, PATCH, DELETE}"
    using service_methods assms(3) s(1) by (auto simp: list_all_iff)
  have call: "callEndpoint J client ''http://localhost:8080'' ep args w =
      (Inr (if ep_method ep = DELETE then j_object J [(''error'', j_string J ''Unsupported HTTP method'')] else reply_json J r),
       if ep_method ep = DELETE then w else w')"
    unfolding callEndpoint_no_params [OF assms(1) np] using m assms(5) by (auto simp: Let_def)
  show ?thesis
    using find s(2) assms(1,4,6) by (simp add: handleToolsCall_def call json_laws_get json_laws_object pretty_exn_def)
qed

abbreviation mcp_api :: "json json_api" where
  "mcp_api \<equiv> table_json [(''r'', JObject [(''ok'', JBool True)])]"

lemma tool_calls_ignore_their_arguments_witness:
  "handleToolsCall mcp_api (\<lambda>c w. (ClientOk 200 ''r'', w @ [(cl_url c, cl_body c)]))
     ''http://localhost:8080'' (hs_routes http_service_start)
     (JObject [(''name'', JString ''device_show''), (''arguments'', JObject [(''id'', JString ''42'')])]) (JInt 1) []
   = (Inr (mcp_ok mcp_api (JInt 1) (JObject [(''content'', JArray [mcp_text mcp_api ''r''])])),
      [(''/api/devices/:id'', None)])"
proof -
  let ?ep = "endpoint_of (route HDeviceShow GET ''/api/devices/:id'' ''device_show'' ''Get a single device by id'')"
  have "?ep \<in> set (hs_routes http_service_start)" by (simp add: service_endpoint_defs)
  then show ?thesis
    using tool_calls_ignore_their_arguments [of mcp_api None
        "mcp_start \<lparr>mc_routes = hs_routes http_service_start, mc_base = ''http://localhost:8080'', mc_running = False\<rparr>" ?ep
        "JObject [(''name'', JString ''device_show''), (''arguments'', JObject [(''id'', JString ''42'')])]"
        "JObject [(''id'', JString ''42'')]" "\<lambda>c w. (ClientOk 200 ''r'', w @ [(cl_url c, cl_body c)])" "[]"
        "ClientOk 200 ''r''" "[(''/api/devices/:id'', None)]" "''r''" "JInt 1"]
    by (simp add: mcp_service_start_def mcp_start_def endpoint_of_def route_def reply_json_def)
qed

text \<open>
  Every JSON-RPC request object is answered under its own id: with nothing for the
  initialized notification, and otherwise with an object of three members, the version, the id
  of the request and either a result or an error.
\<close>

theorem replies_carry_the_request_id:
  assumes "json_laws J" "distinct (map fst kvs)" "map_of kvs ''id'' = Some i"
    and "dispatch J client base routes (j_object J kvs) w = (Inr reply, w')"
  shows "reply = j_null J \<and> map_of kvs ''method'' \<noteq> None \<and> w' = w \<or>
    (\<exists>k v. k \<in> {''result'', ''error''} \<and>
      reply = j_object J [(''jsonrpc'', j_string J ''2.0''), (''id'', i), (k, v)])"
proof -
  have "j_value_json J (j_object J kvs) ''id'' (j_null J) = Inr i"
    using assms(1-3) by (simp add: json_laws_object find_or_def)
  with assms(4) obtain mth params where "j_value_string J (j_object J kvs) ''method'' [] = Inr mth"
    and d: "(if mth = ''initialize'' then (Inr (handleInitialize J i), w)
          else if mth = ''notifications/initialized'' then (Inr (j_null J), w)
          else if mth = ''ping'' then (Inr (mcp_ok J i (j_object J [])), w)
          else if mth = ''tools/list'' then (handleToolsList J routes i, w)
          else if mth = ''tools/call'' then handleToolsCall J client base routes params i w
          else (Inr (mcp_err J i (-32601) (''Method not found: '' @ mth)), w)) = (Inr reply, w')"
    by (auto simp: dispatch_def bind_exn_def split: sum.splits)
  then have "map_of kvs ''method'' = None \<Longrightarrow> mth = []"
    using assms(1,2) by (simp add: json_laws_object find_or_def)
  with d show ?thesis
    by (auto simp: handleInitialize_def handleToolsList_def handleToolsCall_def mcp_ok_def mcp_err_def bind_exn_Inr
        split: if_splits sum.splits option.splits prod.splits)
qed

lemma replies_carry_the_request_id_witness:
  "\<exists>k v. k \<in> {''result'', ''error''} \<and>
     mcp_err mcp_api (JInt 7) (-32601) ''Method not found: x'' =
       JObject [(''jsonrpc'', JString ''2.0''), (''id'', JInt 7), (k, v)]"
proof -
  have "dispatch mcp_api (\<lambda>c w. (ClientError [], w)) [] ([] :: nat endpoint list)
      (j_object mcp_api [(''id'', JInt 7), (''method'', JString ''x'')]) () =
      (Inr (mcp_err mcp_api (JInt 7) (-32601) ''Method not found: x''), ())"
    by (simp add: dispatch_def)
  from replies_carry_the_request_id [OF json_laws_table _ _ this] show ?thesis
    by (simp add: mcp_err_def)
qed

end
