(* ===== verification/Mainframe.thy ===== *)
theory Mainframe
  imports Mcp Ws_Service Scheduling
begin

text \<open>
  \<open>NexusMainFrame\<close> (src/NexusMainFrame.cpp), the service hosts (src/mainframe, includes/mainframe)
  and \<open>main\<close>: paths, service table, start-up, the main loop and shutdown. A service is the record
  of its virtual functions on the state of the application, which contains the event bus; the
  calls the framework makes are recorded in order, as are the lines it writes to \<open>cerr\<close>.
\<close>

section \<open>Paths\<close>

definition ensured_keys :: "string list" where
  "ensured_keys =
     [''modules.builtin'', ''modules.downloaded'', ''config'', ''cache.downloads'', ''logs'', ''data.scans'']"

definition registered_paths :: "(string \<times> string) list" where
  "registered_paths =
     [(''modules.registry'', ''modules/available-modules.json''), (''data.devices'', ''data/devices.json''),
      (''data.rooms'', ''data/rooms.json''), (''config.nexus'', ''config/nexus.json'')]"

fun ensure_all :: "'f fs \<Rightarrow> path_manager \<Rightarrow> string list \<Rightarrow> 'f \<Rightarrow> unit outcome \<times> 'f" where
  "ensure_all F pm [] d = (Inr (), d)"
| "ensure_all F pm (k # ks) d =
     (case ensureExists F pm k d of (Inl e, d') \<Rightarrow> (Inl e, d') | (Inr _, d') \<Rightarrow> ensure_all F pm ks d')"

fun register_rel :: "(string \<times> string) list \<Rightarrow> path_manager \<Rightarrow> path_manager outcome" where
  "register_rel [] pm = Inr pm"
| "register_rel ((k, p) # kps) pm = bind_exn (registerPath k p pm) (register_rel kps)"

definition initPaths :: "'f fs \<Rightarrow> path_manager \<Rightarrow> 'f \<Rightarrow> path_manager outcome \<times> 'f" where
  "initPaths F pm d =
     (case ensure_all F pm ensured_keys d of
        (Inl e, d') \<Rightarrow> (Inl e, d')
      | (Inr _, d') \<Rightarrow> (register_rel registered_paths pm, d'))"

section \<open>Services\<close>

record ('c, 'w) service =
  sv_name :: string
  sv_start :: "'c bus \<times> 'w \<Rightarrow> unit outcome \<times> 'c bus \<times> 'w"
  sv_update :: "'c bus \<times> 'w \<Rightarrow> unit outcome \<times> 'c bus \<times> 'w"
  sv_stop :: "'c bus \<times> 'w \<Rightarrow> unit outcome \<times> 'c bus \<times> 'w"

text \<open>
  \<open>registerBuiltinServices\<close>: the names and the port or address arguments of the built-in
  services, in the order they are pushed. The other arguments are references to one another.
\<close>

definition builtin_services :: "nexus_config \<Rightarrow> (string \<times> string option \<times> int option) list" where
  "builtin_services cfg =
     [(''LogService'', None, None),
      (''ModuleService'', None, None),
      (''MqttService'', Some (mq_host (cf_mqtt cfg)), Some (mq_port (cf_mqtt cfg))),
      (''DeviceService'', None, None),
      (''RoomService'', None, None),
      (''HttpService'', None, Some (ht_port (cf_http cfg))),
      (''McpService'', None, None),
      (''WsService'', None, Some (wc_port (cf_ws cfg)))]"

text \<open>
  \<open>mk\<close> constructs a service from its row; \<open>added\<close> are the services of \<open>addService\<close>, which
  were pushed before. \<open>LogService\<close> is pushed before the configuration is read.
\<close>

definition registerBuiltinServices ::
  "'j json_api \<Rightarrow> path_manager \<Rightarrow> (string \<times> string option \<times> int option \<Rightarrow> ('c, 'w) service)
     \<Rightarrow> disk \<Rightarrow> ('c, 'w) service list \<Rightarrow> nexus_config outcome \<times> ('c, 'w) service list \<times> disk" where
  "registerBuiltinServices J pm mk d added =
     (let log = added @ [mk (''LogService'', None, None)]
      in case pm_get pm ''config.nexus'' of
           Inl e \<Rightarrow> (Inl e, log, d)
         | Inr path \<Rightarrow>
             (case loadOrCreate J d of
                (Inl e, d') \<Rightarrow> (Inl e, log, d')
              | (Inr cfg, d') \<Rightarrow> (Inr cfg, log @ map mk (tl (builtin_services cfg)), d')))"

section \<open>The framework\<close>

datatype call = CStart string | CUpdate string | CStop string | CShutdownBus

record ('c, 'w, 't, 'k) frame =
  fr_world :: "'c bus \<times> 'w"
  fr_tasks :: "('t, 'k) scheduled list"
  fr_calls :: "call list"
  fr_err :: "string list"

definition call_service ::
  "call \<Rightarrow> ('c bus \<times> 'w \<Rightarrow> unit outcome \<times> 'c bus \<times> 'w) \<Rightarrow> ('c, 'w, 't, 'k) frame \<Rightarrow> unit outcome \<times> ('c, 'w, 't, 'k) frame" where
  "call_service c f s =
     (case f (fr_world s) of (r, w) \<Rightarrow> (r, s\<lparr>fr_world := w, fr_calls := fr_calls s @ [c]\<rparr>))"

definition report :: "string \<Rightarrow> ('c, 'w, 't, 'k) frame \<Rightarrow> ('c, 'w, 't, 'k) frame" where
  "report m s = s\<lparr>fr_err := fr_err s @ [m]\<rparr>"

fun startAll :: "('c, 'w) service list \<Rightarrow> ('c, 'w, 't, 'k) frame \<Rightarrow> unit outcome \<times> ('c, 'w, 't, 'k) frame" where
  "startAll [] s = (Inr (), s)"
| "startAll (v # vs) s =
     (case call_service (CStart (sv_name v)) (sv_start v) s of
        (Inr _, s') \<Rightarrow> startAll vs s'
      | (Inl (StdException m), s') \<Rightarrow> (Inl (StdException m), report (''['' @ sv_name v @ ''::start] '' @ m) s')
      | (Inl e, s') \<Rightarrow> (Inl e, s'))"

fun stop_each :: "('c, 'w) service list \<Rightarrow> ('c, 'w, 't, 'k) frame \<Rightarrow> unit outcome \<times> ('c, 'w, 't, 'k) frame" where
  "stop_each [] s = (Inr (), s)"
| "stop_each (v # vs) s =
     (case call_service (CStop (sv_name v)) (sv_stop v) s of
        (Inr _, s') \<Rightarrow> stop_each vs s'
      | (Inl (StdException m), s') \<Rightarrow> stop_each vs (report (''['' @ sv_name v @ ''::stop] '' @ m) s')
      | (Inl e, s') \<Rightarrow> (Inl e, s'))"

definition stopAll :: "('c, 'w) service list \<Rightarrow> ('c, 'w, 't, 'k) frame \<Rightarrow> unit outcome \<times> ('c, 'w, 't, 'k) frame" where
  "stopAll vs s =
     (let s1 = s\<lparr>fr_world := apfst bus_shutdown (fr_world s), fr_calls := fr_calls s @ [CShutdownBus]\<rparr>
      in stop_each (rev vs) s1)"

fun update_each :: "('c, 'w) service list \<Rightarrow> ('c, 'w, 't, 'k) frame \<Rightarrow> unit outcome \<times> ('c, 'w, 't, 'k) frame" where
  "update_each [] s = (Inr (), s)"
| "update_each (v # vs) s =
     (case call_service (CUpdate (sv_name v)) (sv_update v) s of
        (Inr _, s') \<Rightarrow> update_each vs s'
      | (Inl (StdException m), s') \<Rightarrow> update_each vs (report (''['' @ sv_name v @ ''::update] '' @ m) s')
      | (Inl OtherException, s') \<Rightarrow> update_each vs (report (''['' @ sv_name v @ ''::update] unknown exception'') s')
      | (Inl Undefined, s') \<Rightarrow> (Inl Undefined, s'))"

text \<open>
  One round of the loop at time \<open>now\<close>: the listeners' code, the tasks' code and the cron
  library are parameters. \<open>dispatchPending\<close> handles what listeners throw itself; of what a
  task throws only \<open>std::exception\<close> is caught.
\<close>

definition iteration ::
  "('c, 'w) code \<Rightarrow> ('t \<Rightarrow> 'c bus \<times> 'w \<Rightarrow> unit outcome \<times> 'c bus \<times> 'w) \<Rightarrow> ('k \<Rightarrow> int \<Rightarrow> int) \<Rightarrow> int
     \<Rightarrow> ('c, 'w) service list \<Rightarrow> ('c, 'w, 't, 'k) frame \<Rightarrow> unit outcome \<times> ('c, 'w, 't, 'k) frame" where
  "iteration code exec cron_next now vs s =
     (case update_each vs s of
        (Inl e, s1) \<Rightarrow> (Inl e, s1)
      | (Inr _, s1) \<Rightarrow>
          let s2 = s1\<lparr>fr_world := bus_dispatchPending code (fr_world s1)\<rparr>
          in case scheduler_tick exec cron_next now (fr_tasks s2) (fr_world s2) of
               (r, tasks, w) \<Rightarrow>
                 let s3 = s2\<lparr>fr_tasks := tasks, fr_world := w\<rparr>
                 in case r of
                      Inl (StdException m) \<Rightarrow> (Inr (), report (''[Scheduler] '' @ m) s3)
                    | _ \<Rightarrow> (r, s3))"

text \<open>
  The loop. The list holds, for each evaluation of the condition, the value of \<open>_running\<close> that
  it reads and the time of the round; when the list ends the loop is still running, \<open>None\<close>.
\<close>

fun main_loop ::
  "('c, 'w) code \<Rightarrow> ('t \<Rightarrow> 'c bus \<times> 'w \<Rightarrow> unit outcome \<times> 'c bus \<times> 'w) \<Rightarrow> ('k \<Rightarrow> int \<Rightarrow> int)
     \<Rightarrow> ('c, 'w) service list \<Rightarrow> (bool \<times> int) list \<Rightarrow> ('c, 'w, 't, 'k) frame
     \<Rightarrow> unit outcome option \<times> ('c, 'w, 't, 'k) frame" where
  "main_loop code exec cron_next vs [] s = (None, s)"
| "main_loop code exec cron_next vs ((running, now) # reads) s =
     (if running then
        (case iteration code exec cron_next now vs s of
           (Inl e, s') \<Rightarrow> (Some (Inl e), s')
         | (Inr _, s') \<Rightarrow> main_loop code exec cron_next vs reads s')
      else case stopAll vs s of (r, s') \<Rightarrow> (Some r, s'))"

text \<open>\<open>run\<close>, once the paths are there and the services registered.\<close>

definition run_services ::
  "('c, 'w) code \<Rightarrow> ('t \<Rightarrow> 'c bus \<times> 'w \<Rightarrow> unit outcome \<times> 'c bus \<times> 'w) \<Rightarrow> ('k \<Rightarrow> int \<Rightarrow> int)
     \<Rightarrow> ('c, 'w) service list \<Rightarrow> (bool \<times> int) list \<Rightarrow> ('c, 'w, 't, 'k) frame
     \<Rightarrow> unit outcome option \<times> ('c, 'w, 't, 'k) frame" where
  "run_services code exec cron_next vs reads s =
     (case startAll vs s of
        (Inl e, s') \<Rightarrow> (Some (Inl e), s')
      | (Inr _, s') \<Rightarrow> main_loop code exec cron_next vs reads s')"

section \<open>Start and stop across threads\<close>

text \<open>
  \<open>main\<close> runs \<open>mainFrame.run()\<close> in a thread of its own (\<open>safe_thread\<close> swallows every exception)
  and calls \<open>mainFrame.stop()\<close> and \<open>join\<close> from the host's stop callback. The control state of
  that thread and the atomic flag:
\<close>

datatype run_phase = Starting | Testing | Round | Stopping | Finished

record run_state =
  rn_phase :: run_phase
  rn_flag :: bool

definition run_initial :: run_state where
  "run_initial = \<lparr>rn_phase = Starting, rn_flag = False\<rparr>"

datatype run_label = SetFlag | StartFails | EnterRound | RoundEnds | RoundFails | LeaveLoop | Stopped | StopCall

inductive run_step :: "run_label \<Rightarrow> run_state \<Rightarrow> run_state \<Rightarrow> bool" where
  "rn_phase s = Starting \<Longrightarrow> run_step SetFlag s \<lparr>rn_phase = Testing, rn_flag = True\<rparr>"
| "rn_phase s = Starting \<Longrightarrow> run_step StartFails s (s\<lparr>rn_phase := Finished\<rparr>)"
| "rn_phase s = Testing \<Longrightarrow> rn_flag s \<Longrightarrow> run_step EnterRound s (s\<lparr>rn_phase := Round\<rparr>)"
| "rn_phase s = Testing \<Longrightarrow> \<not> rn_flag s \<Longrightarrow> run_step LeaveLoop s (s\<lparr>rn_phase := Stopping\<rparr>)"
| "rn_phase s = Round \<Longrightarrow> run_step RoundEnds s (s\<lparr>rn_phase := Testing\<rparr>)"
| "rn_phase s = Round \<Longrightarrow> run_step RoundFails s (s\<lparr>rn_phase := Finished\<rparr>)"
| "rn_phase s = Stopping \<Longrightarrow> run_step Stopped s (s\<lparr>rn_phase := Finished\<rparr>)"
| "run_step StopCall s (s\<lparr>rn_flag := False\<rparr>)"

inductive_cases run_step_cases: "run_step l s s'"

inductive run_trace :: "run_state \<Rightarrow> run_label list \<Rightarrow> run_state \<Rightarrow> bool" where
  run_refl: "run_trace s [] s"
| run_snoc: "run_trace s ls s' \<Longrightarrow> run_step l s' s'' \<Longrightarrow> run_trace s (ls @ [l]) s''"

section \<open>The service hosts\<close>

text \<open>
  \<open>ForegroundServiceHost::run\<close>: the start callback, rounds of waiting while the flag read is
  true, and the stop callback; \<open>None\<close> while it waits. The callbacks do not throw in \<open>main\<close>.
\<close>

definition foreground_run :: "('w \<Rightarrow> 'w) \<Rightarrow> ('w \<Rightarrow> 'w) \<Rightarrow> bool list \<Rightarrow> 'w \<Rightarrow> bool \<times> 'w" where
  "foreground_run onStart onStop reads w =
     (let w1 = onStart w in if list_all id reads then (False, w1) else (True, onStop w1))"

text \<open>\<open>WindowsServiceHost\<close>: the states it reports to the service manager, around the callbacks.\<close>

datatype scm_state = StartPending | Running | StopPending | ScmStopped

datatype scm_event = Status scm_state bool | OnStart | OnStop

text \<open>The flag of a status is whether the shutdown control is accepted besides stop.\<close>

record windows_host =
  wh_handle :: bool
  wh_shutdown :: bool
  wh_events :: "scm_event list"

definition updateStatus :: "scm_state \<Rightarrow> windows_host \<Rightarrow> windows_host" where
  "updateStatus st h = h\<lparr>wh_events := wh_events h @ [Status st (wh_shutdown h)]\<rparr>"

definition host_callback :: "scm_event \<Rightarrow> windows_host \<Rightarrow> windows_host" where
  "host_callback e h = h\<lparr>wh_events := wh_events h @ [e]\<rparr>"

definition ServiceMain :: "bool \<Rightarrow> windows_host \<Rightarrow> windows_host" where
  "ServiceMain registered h =
     (let h1 = h\<lparr>wh_handle := registered\<rparr>
      in if \<not> registered then h1
         else updateStatus Running
                ((host_callback OnStart (updateStatus StartPending (h1\<lparr>wh_shutdown := False\<rparr>)))\<lparr>wh_shutdown := True\<rparr>))"

definition ServiceCtrlHandler :: "bool \<Rightarrow> windows_host \<Rightarrow> windows_host" where
  "ServiceCtrlHandler stop_or_shutdown h =
     (if stop_or_shutdown then updateStatus ScmStopped (host_callback OnStop (updateStatus StopPending h)) else h)"

text \<open>\<open>ServiceHostFactory\<close>: on Windows the session of the process decides; session 0 runs services.\<close>

datatype platform = Windows | Unix

datatype host = WindowsHost string | ForegroundHost

definition IsRunningAsService :: "nat \<Rightarrow> bool" where
  "IsRunningAsService sid \<longleftrightarrow> sid = 0"

definition service_host_create :: "platform \<Rightarrow> nat \<Rightarrow> host" where
  "service_host_create p sid =
     (if p = Windows \<and> IsRunningAsService sid then WindowsHost ''NexusService'' else ForegroundHost)"

text \<open>
  The wrappers of main.cpp around the thread of the framework and around the callbacks of the
  host: every exception ends in a line on the error stream.
\<close>

definition caught_line :: "string \<Rightarrow> exn \<Rightarrow> string" where
  "caught_line what e = ''['' @ what @ '' Exception] ''
     @ (case e of StdException m \<Rightarrow> (if what = ''Main'' then [] else ''std::exception: '') @ m | _ \<Rightarrow> ''Unknown exception'')"

definition safely :: "string \<Rightarrow> ('w \<Rightarrow> unit outcome \<times> 'w) \<Rightarrow> 'w \<times> string list \<Rightarrow> unit outcome \<times> 'w \<times> string list" where
  "safely what f s =
     (case f (fst s) of
        (Inr _, w) \<Rightarrow> (Inr (), w, snd s)
      | (Inl Undefined, w) \<Rightarrow> (Inl Undefined, w, snd s)
      | (Inl e, w) \<Rightarrow> (Inr (), w, snd s @ [caught_line what e]))"

definition safe_thread :: "('w \<Rightarrow> unit outcome \<times> 'w) \<Rightarrow> 'w \<times> string list \<Rightarrow> unit outcome \<times> 'w \<times> string list" where
  "safe_thread f s = safely ''Thread'' f s"

definition safe_callback :: "('w \<Rightarrow> unit outcome \<times> 'w) \<Rightarrow> 'w \<times> string list \<Rightarrow> unit outcome \<times> 'w \<times> string list" where
  "safe_callback f s = safely ''Callback'' f s"

lemma safe_wrappers_catch:
  "fst (safe_thread f s) \<in> {Inr (), Inl Undefined}" "fst (safe_callback f s) \<in> {Inr (), Inl Undefined}"
  by (auto simp: safe_thread_def safe_callback_def safely_def split: prod.split sum.split exn.split)

text \<open>
  \<open>main\<close>: its exit code, from what constructing the host and the framework and running the
  host throws.
\<close>

definition main_exit :: "unit outcome \<Rightarrow> int outcome" where
  "main_exit r = (case r of
     Inr _ \<Rightarrow> Inr 0
   | Inl (StdException _) \<Rightarrow> Inr 1
   | Inl OtherException \<Rightarrow> Inr 2
   | Inl Undefined \<Rightarrow> Inl Undefined)"

subsection \<open>The states reported to the service manager\<close>

text \<open>The states in the order in which a service goes through them.\<close>

fun scm_rank :: "scm_state \<Rightarrow> nat" where
  "scm_rank StartPending = 0"
| "scm_rank Running = 1"
| "scm_rank StopPending = 2"
| "scm_rank ScmStopped = 3"

lemma scm_rank_inject: "scm_rank a = scm_rank b \<Longrightarrow> a = b"
  by (cases a; cases b) simp_all

instantiation scm_state :: linorder
begin

definition less_eq_scm_state :: "scm_state \<Rightarrow> scm_state \<Rightarrow> bool" where
  "less_eq_scm_state a b \<longleftrightarrow> scm_rank a \<le> scm_rank b"

definition less_scm_state :: "scm_state \<Rightarrow> scm_state \<Rightarrow> bool" where
  "less_scm_state a b \<longleftrightarrow> scm_rank a < scm_rank b"

instance
  by standard (auto simp: less_eq_scm_state_def less_scm_state_def intro: scm_rank_inject)

end

definition reported :: "windows_host \<Rightarrow> scm_state list" where
  "reported h = List.map_filter (\<lambda>e. case e of Status st _ \<Rightarrow> Some st | _ \<Rightarrow> None) (wh_events h)"

lemma reported_sel [simp]:
  "reported (updateStatus st h) = reported h @ [st]"
  "e = OnStart \<or> e = OnStop \<Longrightarrow> reported (host_callback e h) = reported h"
  "reported (h\<lparr>wh_handle := b\<rparr>) = reported h" "reported (h\<lparr>wh_shutdown := b\<rparr>) = reported h"
  by (auto simp: reported_def updateStatus_def host_callback_def map_filter_def)

text \<open>
  A start and the stop or shutdown control report each state once and never go back. The manager
  sends no control to a service in a pending or stopped state, so this is the whole life of it.
\<close>

lemma reported_states_advance:
  assumes "reported h = []"
  shows "sorted (reported (ServiceCtrlHandler c (ServiceMain registered h)))"
    and "registered \<Longrightarrow> distinct (reported (ServiceCtrlHandler c (ServiceMain registered h)))"
  using assms by (simp_all add: ServiceMain_def ServiceCtrlHandler_def Let_def less_eq_scm_state_def)

text \<open>A second stop control would take the service back from stopped to pending.\<close>

lemma second_stop_goes_back:
  "reported h = [] \<Longrightarrow>
     \<not> sorted (reported (ServiceCtrlHandler True (ServiceCtrlHandler True (ServiceMain registered h))))"
  by (simp add: ServiceMain_def ServiceCtrlHandler_def Let_def less_eq_scm_state_def)

section \<open>Properties\<close>

lemma call_service_sel:
  "call_service c f s = (r, s') \<Longrightarrow> fr_calls s' = fr_calls s @ [c] \<and> fr_err s' = fr_err s \<and> r = fst (f (fr_world s))"
  by (auto simp: call_service_def split: prod.splits)

lemma report_sel [simp]: "fr_calls (report m s) = fr_calls s" "fr_err (report m s) = fr_err s @ [m]"
  by (simp_all add: report_def)

definition throws_std_only :: "('c, 'w) service \<Rightarrow> bool" where
  "throws_std_only v \<longleftrightarrow> (\<forall>w. fst (sv_stop v w) \<noteq> Inl OtherException \<and> fst (sv_stop v w) \<noteq> Inl Undefined)"

lemma stop_each_calls:
  assumes "\<forall>v \<in> set vs. throws_std_only v"
  shows "case stop_each vs s of (r, s') \<Rightarrow> r = Inr () \<and> fr_calls s' = fr_calls s @ map (\<lambda>v. CStop (sv_name v)) vs"
  using assms
proof (induction vs arbitrary: s)
  case (Cons v vs)
  obtain r s1 where c: "call_service (CStop (sv_name v)) (sv_stop v) s = (r, s1)"
    by (cases "call_service (CStop (sv_name v)) (sv_stop v) s")
  note sel = call_service_sel [OF c]
  have "\<forall>v \<in> set vs. throws_std_only v" using Cons.prems by simp
  note IH = Cons.IH [OF this]
  have "throws_std_only v" using Cons.prems by simp
  then have "r \<noteq> Inl OtherException" "r \<noteq> Inl Undefined"
    using sel unfolding throws_std_only_def by metis+
  then consider "r = Inr ()" | m where "r = Inl (StdException m)" by (metis exn.exhaust old.unit.exhaust sum.exhaust)
  then show ?case
  proof cases
    case 1
    have c1: "call_service (CStop (sv_name v)) (sv_stop v) s = (Inr (), s1)" using c 1 by simp
    show ?thesis using c1 call_service_sel [OF c1, THEN conjunct1] IH [of s1] by (auto split: prod.splits)
  next
    case 2
    have c2: "call_service (CStop (sv_name v)) (sv_stop v) s = (Inl (StdException m), s1)" using c 2 by simp
    show ?thesis
      using c2 call_service_sel [OF c2, THEN conjunct1] IH [of "report (''['' @ sv_name v @ ''::stop] '' @ m) s1"]
      by (auto split: prod.splits)
  qed
qed simp


definition demo_service :: "string \<Rightarrow> unit outcome \<Rightarrow> unit outcome \<Rightarrow> (nat, nat) service" where
  "demo_service n st sp = \<lparr>sv_name = n, sv_start = Pair st, sv_update = Pair (Inr ()), sv_stop = Pair sp\<rparr>"

abbreviation demo_frame :: "(nat, nat, nat, nat) frame" where
  "demo_frame \<equiv> \<lparr>fr_world = (new_bus, 0), fr_tasks = [], fr_calls = [], fr_err = []\<rparr>"


lemma startAll_fails:
  assumes "\<forall>u \<in> set pre. \<forall>w. fst (sv_start u w) = Inr ()" "\<forall>w. fst (sv_start v w) = Inl (StdException m)"
  shows "case startAll (pre @ v # post) s of (r, s') \<Rightarrow> r = Inl (StdException m) \<and>
    fr_calls s' = fr_calls s @ map (\<lambda>u. CStart (sv_name u)) (pre @ [v]) \<and>
    fr_err s' = fr_err s @ [''['' @ sv_name v @ ''::start] '' @ m]"
  using assms(1)
proof (induction pre arbitrary: s)
  case Nil
  obtain r s1 where c: "call_service (CStart (sv_name v)) (sv_start v) s = (r, s1)"
    by (cases "call_service (CStart (sv_name v)) (sv_start v) s")
  moreover have "r = Inl (StdException m)" using call_service_sel [OF c] assms(2) by metis
  ultimately show ?case using call_service_sel [OF c] by simp
next
  case (Cons u pre)
  obtain r s1 where c: "call_service (CStart (sv_name u)) (sv_start u) s = (r, s1)"
    by (cases "call_service (CStart (sv_name u)) (sv_start u) s")
  have IH: "case startAll (pre @ v # post) s1 of (r, s') \<Rightarrow> r = Inl (StdException m) \<and>
    fr_calls s' = fr_calls s1 @ map (\<lambda>u. CStart (sv_name u)) (pre @ [v]) \<and>
    fr_err s' = fr_err s1 @ [''['' @ sv_name v @ ''::start] '' @ m]"
    using Cons.prems by (intro Cons.IH) simp
  have "r = Inr ()" using call_service_sel [OF c] Cons.prems by (metis list.set_intros(1))
  with c have c2: "call_service (CStart (sv_name u)) (sv_start u) s = (Inr (), s1)" by simp
  have "fr_calls s1 = fr_calls s @ [CStart (sv_name u)]" "fr_err s1 = fr_err s"
    using call_service_sel [OF c2] by simp_all
  with c2 IH show ?case by (auto split: prod.splits)
qed

text \<open>
  When a service fails to start, \<open>run\<close> ends with its exception. The services before it
  have been started and are never stopped, those after it are never started, and the loop does
  not run.
\<close>

theorem failed_start_stops_nobody:
  assumes "\<forall>u \<in> set pre. \<forall>w. fst (sv_start u w) = Inr ()" "\<forall>w. fst (sv_start v w) = Inl (StdException m)"
  shows "case run_services code exec cron_next (pre @ v # post) reads s of (r, s') \<Rightarrow>
    r = Some (Inl (StdException m)) \<and> fr_calls s' = fr_calls s @ map (\<lambda>u. CStart (sv_name u)) (pre @ [v])"
  using startAll_fails [where post = post and s = s, OF assms] by (auto simp: run_services_def split: prod.splits)

lemma failed_start_stops_nobody_witness:
  "case run_services (\<lambda>c e s. (Inr (result_ok []), s)) (\<lambda>t w. (Inr (), w)) (\<lambda>k n. n + 1)
      ([demo_service ''A'' (Inr ()) (Inr ())] @ demo_service ''B'' (Inl (StdException ''port in use'')) (Inr ())
        # [demo_service ''C'' (Inr ()) (Inr ())]) [(True, 0), (False, 1)] demo_frame of (r, s') \<Rightarrow>
    r = Some (Inl (StdException ''port in use'')) \<and>
    fr_calls s' = fr_calls demo_frame @ map (\<lambda>u. CStart (sv_name u))
      ([demo_service ''A'' (Inr ()) (Inr ())] @ [demo_service ''B'' (Inl (StdException ''port in use'')) (Inr ())])"
  by (rule failed_start_stops_nobody) (simp_all add: demo_service_def)

subsection \<open>Requests to stop\<close>

lemma run_trace_append:
  "run_trace s ls s'' \<Longrightarrow> ls = xs @ ys \<Longrightarrow> \<exists>s'. run_trace s xs s' \<and> run_trace s' ys s''"
proof (induction arbitrary: ys rule: run_trace.induct)
  case (run_snoc s ls s' l s'')
  show ?case
  proof (cases ys rule: rev_cases)
    case Nil
    with run_snoc show ?thesis by (metis append_Nil2 run_trace.run_refl run_trace.run_snoc)
  next
    case (snoc zs z)
    with run_snoc.prems have ls: "ls = xs @ zs" "z = l" by simp_all
    from run_snoc.IH [OF ls(1)] obtain t where "run_trace s xs t" "run_trace t zs s'" by blast
    with run_snoc.hyps(2) snoc ls(2) show ?thesis by (blast intro: run_trace.run_snoc)
  qed
qed (auto intro: run_trace.run_refl)

lemma run_trace_Cons:
  assumes "run_trace s (l # ls) s''"
  shows "\<exists>s'. run_step l s s' \<and> run_trace s' ls s''"
proof -
  from run_trace_append [OF assms, of "[l]" ls] obtain s' where 1: "run_trace s [l] s'" "run_trace s' ls s''" by auto
  from 1(1) have "run_step l s s'"
    by (cases rule: run_trace.cases) (auto elim: run_trace.cases)
  with 1(2) show ?thesis by blast
qed

text \<open>Without a stop call the flag stays set, so that the loop is not left.\<close>

lemma no_stop_call:
  "run_trace s ls s' \<Longrightarrow> rn_flag s \<Longrightarrow> rn_phase s \<in> {Testing, Round} \<Longrightarrow> StopCall \<notin> set ls \<Longrightarrow>
     rn_flag s' \<and> rn_phase s' \<in> {Testing, Round, Finished} \<and> LeaveLoop \<notin> set ls \<and> Stopped \<notin> set ls"
proof (induction rule: run_trace.induct)
  case (run_snoc s ls s' l s'')
  from run_snoc.IH run_snoc.prems have IH: "rn_flag s'" "rn_phase s' \<in> {Testing, Round, Finished}"
    "LeaveLoop \<notin> set ls" "Stopped \<notin> set ls" by auto
  from run_snoc.hyps(2) show ?case
    using IH run_snoc.prems by (cases rule: run_step.cases) auto
qed auto

text \<open>After a stop call the flag stays clear, so that no round is entered.\<close>

lemma after_stop_call:
  "run_trace s ls s' \<Longrightarrow> \<not> rn_flag s \<Longrightarrow> rn_phase s \<noteq> Starting \<Longrightarrow>
     \<not> rn_flag s' \<and> rn_phase s' \<noteq> Starting \<and> EnterRound \<notin> set ls"
proof (induction rule: run_trace.induct)
  case (run_snoc s ls s' l s'')
  from run_snoc.IH run_snoc.prems have IH: "\<not> rn_flag s'" "rn_phase s' \<noteq> Starting" "EnterRound \<notin> set ls" by auto
  from run_snoc.hyps(2) show ?case
    using IH by (cases rule: run_step.cases) auto
qed auto

lemma set_flag_state:
  assumes "run_trace run_initial (before @ SetFlag # after) s"
  shows "run_trace \<lparr>rn_phase = Testing, rn_flag = True\<rparr> after s"
proof -
  from run_trace_append [OF assms refl] obtain t where "run_trace t (SetFlag # after) s" by blast
  with run_trace_Cons obtain u where "run_step SetFlag t u" "run_trace u after s" by blast
  moreover from this(1) have "u = \<lparr>rn_phase = Testing, rn_flag = True\<rparr>" by (cases rule: run_step.cases) auto
  ultimately show ?thesis by simp
qed

text \<open>
  A request to stop works only once the main thread has set its flag. Whatever stop calls
  were made before, as long as none follows, the loop is never left and the services are never
  stopped; after one that follows no further round is entered.
\<close>

theorem early_stop_is_lost:
  assumes "run_trace run_initial (before @ SetFlag # after) s"
  shows "(StopCall \<notin> set after \<longrightarrow> LeaveLoop \<notin> set after \<and> Stopped \<notin> set after) \<and>
    (\<forall>xs ys. after = xs @ StopCall # ys \<longrightarrow> EnterRound \<notin> set ys)"
proof -
  note tr = set_flag_state [OF assms]
  have "EnterRound \<notin> set ys" if "after = xs @ StopCall # ys" for xs ys
  proof -
    from run_trace_append [OF tr that] obtain t where t: "run_trace \<lparr>rn_phase = Testing, rn_flag = True\<rparr> xs t"
      "run_trace t (StopCall # ys) s" by blast
    have ns: "rn_phase t \<noteq> Starting" using t(1)
    proof (induction "\<lparr>rn_phase = Testing, rn_flag = True\<rparr>" xs t rule: run_trace.induct)
      case (run_snoc ls s' l s'')
      from run_snoc(3) show ?case using run_snoc(2) by (cases rule: run_step.cases) auto
    qed simp
    from run_trace_Cons [OF t(2)] obtain u where u: "run_step StopCall t u" "run_trace u ys s" by blast
    from u(1) have "u = t\<lparr>rn_flag := False\<rparr>" by (cases rule: run_step.cases) auto
    with after_stop_call [OF u(2)] ns show ?thesis by simp
  qed
  with no_stop_call [OF tr] show ?thesis by auto
qed

lemma early_stop_is_lost_witness:
  "\<exists>s. run_trace run_initial ([StopCall] @ SetFlag # [EnterRound, RoundEnds]) s \<and>
     LeaveLoop \<notin> set [EnterRound, RoundEnds] \<and> Stopped \<notin> set [EnterRound, RoundEnds]"
proof -
  have "run_trace run_initial ((((([] @ [StopCall]) @ [SetFlag]) @ [EnterRound]) @ [RoundEnds])) \<lparr>rn_phase = Testing, rn_flag = True\<rparr>"
    by (rule run_snoc [where s' = "\<lparr>rn_phase = Round, rn_flag = True\<rparr>"]
        run_snoc [where s' = "\<lparr>rn_phase = Testing, rn_flag = True\<rparr>"]
        run_snoc [where s' = "\<lparr>rn_phase = Starting, rn_flag = False\<rparr>"] run_refl)+
      (auto simp: run_step.simps run_initial_def run_refl intro: run_trace.intros)
  then have tr: "run_trace run_initial ([StopCall] @ SetFlag # [EnterRound, RoundEnds]) \<lparr>rn_phase = Testing, rn_flag = True\<rparr>"
    by simp
  from early_stop_is_lost [OF tr] tr show ?thesis by (intro exI conjI) auto
qed

subsection \<open>Paths of the services\<close>

lemma register_rel_get:
  "register_rel kps pm = Inr pm' \<Longrightarrow> distinct (map fst kps) \<Longrightarrow>
     pm_base pm' = pm_base pm \<and>
     (\<forall>k. pm_get pm' k = (case map_of kps k of None \<Rightarrow> pm_get pm k | Some p \<Rightarrow> Inr (path_join (pm_base pm) p)))"
proof (induction kps arbitrary: pm)
  case (Cons kp kps)
  obtain k p where kp: "kp = (k, p)" by (cases kp)
  with Cons.prems obtain pm1 where 1: "registerPath k p pm = Inr pm1" "register_rel kps pm1 = Inr pm'"
    by (auto simp: bind_exn_Inr)
  then have pm1: "pm_base pm1 = pm_base pm"
    "\<And>k'. pm_get pm1 k' = (if k' = k then Inr (path_join (pm_base pm) p) else pm_get pm k')"
    by (auto simp: registerPath_def registerResolver_def pm_get_def split: if_splits option.split)
  have "map_of kps k = None" using Cons.prems(2) kp by (simp add: map_of_eq_None_iff)
  with Cons.IH [OF 1(2)] Cons.prems(2) pm1 kp show ?case by (auto split: option.split)
qed simp

text \<open>
  After \<open>initPaths\<close> every key the services look up is known: the module directory, the
  configuration directory and the files of the configuration, the devices and the rooms, each
  below the base directory.
\<close>

theorem services_find_their_paths:
  assumes "initPaths F pm d = (Inr pm', d')"
    and "pm_base pm = base" "base \<noteq> []" "last base \<noteq> CHR ''/''"
    and "\<forall>k \<in> {''modules.downloaded'', ''config''}. \<exists>p. pm_get pm k = Inr p \<and> below base p"
  shows "\<forall>k \<in> {''modules.downloaded'', ''config'', ''config.nexus'', ''data.devices'', ''data.rooms''}.
    \<exists>p. pm_get pm' k = Inr p \<and> below base p"
proof -
  from assms(1) have reg: "register_rel registered_paths pm = Inr pm'"
    by (auto simp: initPaths_def split: sum.splits prod.splits)
  have "distinct (map fst registered_paths)" by (simp add: registered_paths_def)
  note get = register_rel_get [OF reg this, THEN conjunct2]
  have rel: "below base (path_join base p)" if "\<not> path_is_absolute p" for p
    using below_join [OF below_refl assms(3,4) that] .
  show ?thesis
    using assms(2,5) get rel by (auto simp: registered_paths_def path_is_absolute_def)
qed

lemma services_find_their_paths_witness:
  "\<exists>pm'. \<forall>k \<in> {''modules.downloaded'', ''config'', ''config.nexus'', ''data.devices'', ''data.rooms''}.
    \<exists>p. pm_get pm' k = Inr p \<and> below ''/n'' p"
proof -
  let ?pm = "\<lparr>pm_base = ''/n'', pm_resolvers = map_of core_paths\<rparr>"
  have "fst (initPaths demo_fs ?pm ()) \<noteq> Inl e" for e
    by (simp add: initPaths_def ensured_keys_def registered_paths_def ensureExists_def pm_get_def core_paths_def
        demo_fs_def validateIsDirectory_def registerPath_def registerResolver_def)
  then obtain pm' d' where "initPaths demo_fs ?pm () = (Inr pm', d')"
    by (metis prod.collapse sum.exhaust)
  from services_find_their_paths [OF this, of "''/n''"] show ?thesis
    by (intro exI [of _ pm']) (simp add: pm_get_def core_paths_def below_def path_join_def path_is_absolute_def)
qed

end
