(* ===== verification/Cast_Proto.thy ===== *)
theory Cast_Proto
  imports NexusPrelude
begin

text \<open>
  The protocol-buffer encoding of \<open>CastMessage\<close> in the Chromecast module
  (src/modules/NexusChromecastModule/src/cast/CastProto.cpp). The decoder's cursor
  \<open>data + pos\<close> is the list of bytes from there to the end, so that \<open>pos\<close> is the size of the
  whole buffer less the length of that list. \<open>size_t\<close> has 64 bits.
\<close>

record cast_message =
  cm_source :: string
  cm_destination :: string
  cm_namespace :: string
  cm_payload :: string

definition cast_message_new :: cast_message where
  "cast_message_new = \<lparr>cm_source = [], cm_destination = [], cm_namespace = [], cm_payload = []\<rparr>"

section \<open>Encoder\<close>

lemma drop7_less: "(0x7F :: u64) < v \<Longrightarrow> unat (drop_bit 7 v) < unat v"
proof -
  assume "0x7F < v"
  then have "0 < unat v" by (simp add: word_less_nat_alt)
  then show ?thesis by (simp add: drop_bit_eq_div unat_div)
qed

function writeVarint :: "u64 \<Rightarrow> byte list" where
  "writeVarint v =
     (if 0x7F < v then ucast ((v AND 0x7F) OR 0x80) # writeVarint (drop_bit 7 v) else [ucast v])"
  by pat_completeness auto
termination
  by (relation "measure unat") (auto intro: drop7_less)

declare writeVarint.simps [simp del]

definition writeTag :: "u64 \<Rightarrow> u64 \<Rightarrow> byte list" where
  "writeTag field wireType = writeVarint (push_bit 3 field OR wireType)"

definition writeVarintField :: "u64 \<Rightarrow> u64 \<Rightarrow> byte list" where
  "writeVarintField field v = writeTag field 0 @ writeVarint v"

definition writeStringField :: "u64 \<Rightarrow> string \<Rightarrow> byte list" where
  "writeStringField field s = writeTag field 2 @ writeVarint (of_nat (length s)) @ bytes_of s"

definition encodeCastMessage :: "cast_message \<Rightarrow> byte list" where
  "encodeCastMessage msg =
     writeVarintField 1 0 @
     writeStringField 2 (cm_source msg) @
     writeStringField 3 (cm_destination msg) @
     writeStringField 4 (cm_namespace msg) @
     writeVarintField 5 0 @
     writeStringField 6 (cm_payload msg)"

section \<open>Decoder\<close>

text \<open>The loop of \<open>readVarint\<close>, from \<open>out\<close> and \<open>shift\<close> on; \<open>None\<close> is \<open>return false\<close>.\<close>

fun varint_loop :: "nat \<Rightarrow> u64 \<Rightarrow> byte list \<Rightarrow> (u64 \<times> byte list) option" where
  "varint_loop shift out [] = None"
| "varint_loop shift out (b # rest) =
     (let out' = out OR push_bit shift (ucast (b AND 0x7F))
      in if b AND 0x80 = 0 then Some (out', rest)
         else if 64 \<le> shift + 7 then None
         else varint_loop (shift + 7) out' rest)"

definition readVarint :: "byte list \<Rightarrow> (u64 \<times> byte list) option" where
  "readVarint rest = varint_loop 0 0 rest"

text \<open>
  \<open>pos + len > size\<close> is computed on \<open>size_t\<close> and may wrap around; a string longer than
  \<open>max_size\<close> makes \<open>assign\<close> throw.
\<close>

definition string_max_size :: nat where
  "string_max_size = 2 ^ 63 - 1"

definition readStringField :: "nat \<Rightarrow> byte list \<Rightarrow> (string \<times> byte list) option outcome" where
  "readStringField buflen rest =
     (case readVarint rest of
        None \<Rightarrow> Inr None
      | Some (len, rest') \<Rightarrow>
          let pos = of_nat (buflen - length rest') :: u64
          in if of_nat buflen < pos + len then Inr None
             else if string_max_size < unat len then Inl (StdException ''basic_string::assign'')
             else if length rest' < unat len then Inl Undefined
             else Inr (Some (str_of (take (unat len) rest'), drop (unat len) rest')))"

definition set_field :: "u32 \<Rightarrow> string \<Rightarrow> cast_message \<Rightarrow> cast_message" where
  "set_field fieldNum s msg =
     (if fieldNum = 2 then msg\<lparr>cm_source := s\<rparr>
      else if fieldNum = 3 then msg\<lparr>cm_destination := s\<rparr>
      else if fieldNum = 4 then msg\<lparr>cm_namespace := s\<rparr>
      else if fieldNum = 6 then msg\<lparr>cm_payload := s\<rparr>
      else msg)"

lemma varint_loop_shorter:
  "varint_loop shift out bs = Some (v, rest) \<Longrightarrow> length rest < length bs"
  by (induction shift out bs rule: varint_loop.induct) (fastforce simp: Let_def split: if_splits)+

lemma readStringField_shorter:
  "readStringField buflen bs = Inr (Some (s, rest)) \<Longrightarrow> length rest < length bs"
  unfolding readStringField_def readVarint_def
  by (auto simp: Let_def split: option.splits if_splits dest!: varint_loop_shorter)

function decode_loop :: "nat \<Rightarrow> byte list \<Rightarrow> cast_message \<Rightarrow> cast_message option outcome" where
  "decode_loop buflen rest msg =
     (if rest = [] then Inr (Some msg)
      else case readVarint rest of
             None \<Rightarrow> Inr None
           | Some (tag, rest1) \<Rightarrow>
               let fieldNum = ucast (drop_bit 3 tag) :: u32; wireType = tag AND 0x7
               in if wireType = 0 then
                    (case readVarint rest1 of
                       None \<Rightarrow> Inr None
                     | Some (v, rest2) \<Rightarrow> decode_loop buflen rest2 msg)
                  else if wireType = 2 then
                    (case readStringField buflen rest1 of
                       Inl e \<Rightarrow> Inl e
                     | Inr None \<Rightarrow> Inr None
                     | Inr (Some (s, rest2)) \<Rightarrow> decode_loop buflen rest2 (set_field fieldNum s msg))
                  else Inr None)"
  by pat_completeness auto
termination
  by (relation "measure (\<lambda>(buflen, rest, msg). length rest)")
    (auto simp: readVarint_def dest!: varint_loop_shorter readStringField_shorter)

declare decode_loop.simps [simp del]

definition decodeCastMessage :: "byte list \<Rightarrow> cast_message option outcome" where
  "decodeCastMessage data = decode_loop (length data) data cast_message_new"

section \<open>Varints\<close>

lemma and_7F: "(v :: 'a :: len word) AND 0x7F = take_bit 7 v"
proof -
  have "(0x7F :: 'a word) = mask 7" by (simp add: mask_eq_exp_minus_1)
  then show ?thesis by (simp add: take_bit_eq_mask)
qed

lemma and_80_eq_0: "(b :: byte) AND 0x80 = 0 \<longleftrightarrow> \<not> bit b 7"
  using and_exp_eq_0_iff_not_bit [of b 7] by simp

lemma bit_80: "bit (0x80 :: 'a :: len word) n \<longleftrightarrow> n = 7 \<and> 7 < LENGTH('a)"
proof -
  have "(0x80 :: 'a word) = 2 ^ 7" by simp
  then show ?thesis by (simp only: bit_simps) auto
qed

lemma cont_byte_gen:
  assumes "\<And>n. bit (c :: u64) n \<longleftrightarrow> n = 7"
  shows "\<not> bit (ucast (take_bit 7 v OR c) :: byte) 7 = False"
    "(ucast (take_bit 7 (ucast (take_bit 7 v OR c :: u64) :: byte)) :: u64) = take_bit 7 v"
proof -
  show "\<not> bit (ucast (take_bit 7 v OR c) :: byte) 7 = False"
    using assms by (simp add: bit_simps)
  show "(ucast (take_bit 7 (ucast (take_bit 7 v OR c :: u64) :: byte)) :: u64) = take_bit 7 v"
    by (rule bit_word_eqI) (auto simp: bit_simps assms)
qed

lemma cont_byte:
  "(ucast ((v AND 0x7F) OR 0x80 :: u64) :: byte) AND 0x80 \<noteq> 0"
  "(ucast ((ucast ((v AND 0x7F) OR 0x80 :: u64) :: byte) AND 0x7F) :: u64) = v AND 0x7F"
proof -
  have "\<And>n. bit (0x80 :: u64) n \<longleftrightarrow> n = 7" by (simp only: bit_80) simp
  note gen = cont_byte_gen [OF this, of v]
  show "(ucast ((v AND 0x7F) OR 0x80 :: u64) :: byte) AND 0x80 \<noteq> 0"
    using gen(1) unfolding and_80_eq_0 and_7F by blast
  show "(ucast ((ucast ((v AND 0x7F) OR 0x80 :: u64) :: byte) AND 0x7F) :: u64) = v AND 0x7F"
    using gen(2) unfolding and_7F .
qed

lemma last_byte:
  assumes "\<not> (0x7F :: u64) < v"
  shows "(ucast v :: byte) AND 0x80 = 0" "(ucast ((ucast v :: byte) AND 0x7F) :: u64) = v"
proof -
  have "unat v < 2 ^ 7" using assms by (simp add: not_less word_le_nat_alt)
  then have v: "take_bit 7 v = v" by (simp add: word_unat_eq_iff unsigned_take_bit_eq take_bit_nat_eq_self)
  then have "\<not> bit v 7" by (metis bit_take_bit_iff less_irrefl)
  then show "(ucast v :: byte) AND 0x80 = 0" unfolding and_80_eq_0 by (simp add: bit_simps)
  have "(ucast (take_bit 7 (ucast (take_bit 7 v) :: byte)) :: u64) = take_bit 7 v"
    by (rule bit_word_eqI) (auto simp: bit_simps)
  then show "(ucast ((ucast v :: byte) AND 0x7F) :: u64) = v"
    unfolding and_7F by (simp add: v)
qed

text \<open>The seven bits of one byte and the remaining bits are the whole value.\<close>

lemma join_7_bits: "push_bit n (v AND 0x7F) OR push_bit (n + 7) (drop_bit 7 v) = push_bit n (v :: u64)"
  unfolding and_7F
proof (rule bit_word_eqI)
  fix k
  show "bit (push_bit n (take_bit 7 v) OR push_bit (n + 7) (drop_bit 7 v)) k = bit (push_bit n v) k"
  proof (cases "n + 7 \<le> k")
    case True
    then have "k - n = 7 + (k - (n + 7))" by simp
    with True show ?thesis by (auto simp: bit_simps)
  next
    case False
    then show ?thesis by (auto simp: bit_simps)
  qed
qed

lemma drop_7_bits:
  assumes "0x7F < (v :: u64)" "n < 64" "unat v < 2 ^ (64 - n)"
  shows "n + 7 < 64" "unat (drop_bit 7 v) < 2 ^ (64 - (n + 7))"
proof -
  have "2 ^ 7 \<le> unat v" using assms(1) by (simp add: word_less_nat_alt)
  with assms(3) have "(2::nat) ^ 7 < 2 ^ (64 - n)" by linarith
  then show s: "n + 7 < 64" by (simp only: power_strict_increasing_iff)
  then have "64 - n = (64 - (n + 7)) + 7" by simp
  then have "(2::nat) ^ (64 - n) = 2 ^ (64 - (n + 7)) * 2 ^ 7" by (metis power_add)
  moreover have "unat (drop_bit 7 v) = unat v div 2 ^ 7" by (simp add: drop_bit_eq_div unat_div)
  ultimately show "unat (drop_bit 7 v) < 2 ^ (64 - (n + 7))"
    using assms(3) by (simp add: less_mult_imp_div_less)
qed

lemma varint_loop_write:
  assumes "shift < 64" "unat v < 2 ^ (64 - shift)"
  shows "varint_loop shift out (writeVarint v @ rest) = Some (out OR push_bit shift v, rest)"
  using assms
proof (induction v arbitrary: shift out rule: writeVarint.induct)
  case (1 v)
  show ?case
  proof (cases "0x7F < v")
    case False
    with last_byte [OF False] show ?thesis by (simp add: writeVarint.simps)
  next
    case True
    note d = drop_7_bits [OF True "1.prems"]
    from "1.IH" [OF True d] have IH: "varint_loop (shift + 7) out' (writeVarint (drop_bit 7 v) @ rest) =
        Some (out' OR push_bit (shift + 7) (drop_bit 7 v), rest)" for out'
      by simp
    have "(out OR push_bit shift (v AND 0x7F)) OR push_bit (shift + 7) (drop_bit 7 v) = out OR push_bit shift v"
      by (simp only: or.assoc join_7_bits)
    with True d(1) cont_byte [of v] IH show ?thesis by (simp add: writeVarint.simps [of v] Let_def)
  qed
qed

lemma readVarint_write: "readVarint (writeVarint v @ rest) = Some (v, rest)"
  using varint_loop_write [of 0 v 0 rest] unsigned_less [of v, where ?'a = nat]
  by (simp add: readVarint_def)

lemma writeVarint_not_Nil [simp]: "writeVarint v \<noteq> []"
  by (simp add: writeVarint.simps)

section \<open>Messages\<close>

lemma readStringField_write:
  assumes "length (bytes_of s @ rest) \<le> buflen" "buflen < 2 ^ 63"
  shows "readStringField buflen (writeVarint (of_nat (length s)) @ bytes_of s @ rest) = Inr (Some (s, rest))"
proof -
  let ?r = "bytes_of s @ rest"
  have len: "unat (of_nat (length s) :: u64) = length s"
    using assms by (simp add: unat_of_nat)
  have "(of_nat (buflen - length ?r) + of_nat (length s) :: u64) = of_nat (buflen - length ?r + length s)"
    by simp
  moreover have "buflen - length ?r + length s \<le> buflen" using assms(1) by simp
  ultimately have "\<not> (of_nat buflen :: u64) < of_nat (buflen - length ?r) + of_nat (length s)"
    using assms(2) by (simp add: word_less_nat_alt unat_of_nat del: of_nat_add length_append)
  moreover have "\<not> string_max_size < length s" using assms by (simp add: string_max_size_def)
  ultimately show ?thesis
    using len by (simp add: readStringField_def readVarint_write Let_def del: length_append)
      (simp add: string_max_size_def)
qed

lemma tag_fields:
  assumes "f \<in> {1, 2, 3, 4, 5, 6 :: u64}" "wt \<in> {0, 2 :: u64}"
  shows "drop_bit 3 (push_bit 3 f OR wt) = f" "(push_bit 3 f OR wt) AND 0x7 = wt"
  using assms by auto

lemma decode_string:
  assumes "f \<in> {2, 3, 4, 6}" "length (bytes_of s @ rest) \<le> buflen" "buflen < 2 ^ 63"
  shows "decode_loop buflen (writeStringField f s @ rest) m = decode_loop buflen rest (set_field (ucast f) s m)"
proof -
  have f: "f \<in> {1, 2, 3, 4, 5, 6}" "(2 :: u64) \<in> {0, 2}" using assms(1) by auto
  show ?thesis
    using readStringField_write [OF assms(2,3)] tag_fields [OF f]
    by (subst decode_loop.simps) (simp add: writeStringField_def writeTag_def
        readVarint_write Let_def)
qed

lemma decode_varint:
  assumes "f \<in> {1, 5}"
  shows "decode_loop buflen (writeVarintField f v @ rest) m = decode_loop buflen rest m"
proof -
  have f: "f \<in> {1, 2, 3, 4, 5, 6}" "(0 :: u64) \<in> {0, 2}" using assms by auto
  show ?thesis
    using tag_fields [OF f]
    by (subst decode_loop.simps) (simp add: writeVarintField_def writeTag_def
        readVarint_write Let_def)
qed

lemma decode_encode:
  assumes "length (encodeCastMessage m) < 2 ^ 63"
  shows "decodeCastMessage (encodeCastMessage m) = Inr (Some m)"
proof -
  let ?n = "length (encodeCastMessage m)"
  have len: "length (bytes_of (cm_payload m)) \<le> ?n"
    "length (bytes_of (cm_namespace m) @ writeVarintField 5 0 @ writeStringField 6 (cm_payload m)) \<le> ?n"
    "length (bytes_of (cm_destination m) @ writeStringField 4 (cm_namespace m) @ writeVarintField 5 0
       @ writeStringField 6 (cm_payload m)) \<le> ?n"
    "length (bytes_of (cm_source m) @ writeStringField 3 (cm_destination m) @ writeStringField 4 (cm_namespace m)
       @ writeVarintField 5 0 @ writeStringField 6 (cm_payload m)) \<le> ?n"
    by (simp_all add: encodeCastMessage_def writeStringField_def)
  have 1: "decode_loop ?n (writeStringField 6 (cm_payload m)) c = decode_loop ?n [] (c\<lparr>cm_payload := cm_payload m\<rparr>)" for c
    using decode_string [of 6 "cm_payload m" "[]" ?n c] len(1) assms by (simp add: set_field_def)
  have 2: "decode_loop ?n (writeStringField 4 (cm_namespace m) @ writeVarintField 5 0 @ writeStringField 6 (cm_payload m)) c =
      decode_loop ?n (writeVarintField 5 0 @ writeStringField 6 (cm_payload m)) (c\<lparr>cm_namespace := cm_namespace m\<rparr>)" for c
    using decode_string [OF _ len(2) assms, of 4 c] by (simp add: set_field_def)
  have 3: "decode_loop ?n (writeStringField 3 (cm_destination m) @ writeStringField 4 (cm_namespace m)
       @ writeVarintField 5 0 @ writeStringField 6 (cm_payload m)) c =
      decode_loop ?n (writeStringField 4 (cm_namespace m) @ writeVarintField 5 0 @ writeStringField 6 (cm_payload m))
        (c\<lparr>cm_destination := cm_destination m\<rparr>)" for c
    using decode_string [OF _ len(3) assms, of 3 c] by (simp add: set_field_def)
  have 4: "decode_loop ?n (writeStringField 2 (cm_source m) @ writeStringField 3 (cm_destination m)
       @ writeStringField 4 (cm_namespace m) @ writeVarintField 5 0 @ writeStringField 6 (cm_payload m)) c =
      decode_loop ?n (writeStringField 3 (cm_destination m) @ writeStringField 4 (cm_namespace m)
       @ writeVarintField 5 0 @ writeStringField 6 (cm_payload m)) (c\<lparr>cm_source := cm_source m\<rparr>)" for c
    using decode_string [OF _ len(4) assms, of 2 c] by (simp add: set_field_def)
  have "decode_loop ?n (encodeCastMessage m) cast_message_new =
      decode_loop ?n (writeStringField 2 (cm_source m) @ writeStringField 3 (cm_destination m)
       @ writeStringField 4 (cm_namespace m) @ writeVarintField 5 0 @ writeStringField 6 (cm_payload m)) cast_message_new"
    unfolding encodeCastMessage_def using decode_varint [of 1] by simp
  also have "\<dots> = decode_loop ?n [] \<lparr>cm_source = cm_source m, cm_destination = cm_destination m,
      cm_namespace = cm_namespace m, cm_payload = cm_payload m\<rparr>"
    by (simp add: 1 2 3 4 decode_varint [of 5] cast_message_new_def)
  also have "\<dots> = decode_loop ?n [] m"
    by (rule arg_cong [of _ _ "decode_loop ?n []"]) simp
  finally show ?thesis by (simp add: decodeCastMessage_def decode_loop.simps)
qed

section \<open>Properties\<close>

text \<open>
  C12: a message that was encoded is decoded to itself, whatever bytes its four strings hold,
  as long as the encoding fits into memory.
\<close>

theorem cast_messages_are_decoded:
  assumes "length (encodeCastMessage m) < 2 ^ 63"
  shows "decodeCastMessage (encodeCastMessage m) = Inr (Some m)"
  by (rule decode_encode [OF assms])

lemma cast_messages_are_decoded_witness:
  "decodeCastMessage (encodeCastMessage \<lparr>cm_source = ''s'', cm_destination = [], cm_namespace = ''n'', cm_payload = ''p''\<rparr>) =
     Inr (Some \<lparr>cm_source = ''s'', cm_destination = [], cm_namespace = ''n'', cm_payload = ''p''\<rparr>)"
  by (rule cast_messages_are_decoded)
    (simp add: encodeCastMessage_def writeStringField_def writeVarintField_def writeTag_def writeVarint.simps)

text \<open>The two ways the length check of \<open>readStringField\<close> is passed.\<close>

lemma length_check:
  assumes "k \<le> n" "n < 2 ^ 63" "\<not> (of_nat n :: u64) < of_nat k + len"
  shows "k + unat len \<le> n \<or> string_max_size < unat len"
proof (cases "k + unat len < 2 ^ 64")
  case True
  have "unat (of_nat k + len :: u64) = k + unat len"
    using True assms(1,2) by (simp add: unat_word_ariths unat_of_nat)
  with assms(2,3) show ?thesis by (simp add: word_less_nat_alt unat_of_nat not_less)
next
  case False
  with assms(1,2) show ?thesis by (simp add: string_max_size_def)
qed

lemma readStringField_safe:
  assumes "length rest \<le> n" "n < 2 ^ 63"
  shows "readStringField n rest \<noteq> Inl Undefined"
proof (cases "readVarint rest")
  case (Some lr)
  obtain len rest' where lr: "lr = (len, rest')" by (cases lr)
  have "length rest' \<le> n" using Some lr assms(1) varint_loop_shorter by (fastforce simp: readVarint_def)
  show ?thesis
  proof (cases "(of_nat n :: u64) < of_nat (n - length rest') + len")
    case True
    with Some lr show ?thesis by (simp add: readStringField_def Let_def del: of_nat_diff)
  next
    case False
    have "n - length rest' + unat len \<le> n \<or> string_max_size < unat len"
      by (rule length_check) (use assms(2) False in simp_all)
    with \<open>length rest' \<le> n\<close> have "\<not> length rest' < unat len \<or> string_max_size < unat len" by linarith
    with Some lr show ?thesis by (auto simp: readStringField_def Let_def)
  qed
qed (simp add: readStringField_def)

text \<open>
  C27: the decoder never reads outside its buffer. For every buffer of less than \<open>2 ^ 63\<close> bytes
  it returns a message, or no message, or throws, although its length check is an addition
  that can wrap around.
\<close>

theorem decoder_stays_in_its_buffer:
  assumes "length data < 2 ^ 63"
  shows "decodeCastMessage data \<noteq> Inl Undefined"
proof -
  have "decode_loop n rest msg \<noteq> Inl Undefined" if "length rest \<le> n" "n < 2 ^ 63" for n rest msg
    using that
  proof (induction n rest msg rule: decode_loop.induct)
    case (1 n rest msg)
    show ?case
    proof (cases "rest = [] \<or> readVarint rest = None")
      case True
      then show ?thesis by (subst decode_loop.simps) auto
    next
      case False
      then obtain tag rest1 where t: "readVarint rest = Some (tag, rest1)" by (cases "readVarint rest") auto
      have len1: "length rest1 \<le> n" using t "1.prems"(1) varint_loop_shorter by (fastforce simp: readVarint_def)
      have a: "decode_loop n rest2 msg \<noteq> Inl Undefined"
        if "tag AND 7 = 0" "readVarint rest1 = Some (v, rest2)" for v rest2
      proof -
        have "length rest2 \<le> n" using that(2) len1 varint_loop_shorter by (fastforce simp: readVarint_def)
        then show ?thesis using "1.IH"(1) [OF _ t refl refl refl that(1) that(2) refl] False "1.prems"(2) by simp
      qed
      have b: "decode_loop n rest2 (set_field (ucast (drop_bit 3 tag)) s msg) \<noteq> Inl Undefined"
        if "tag AND 7 = 2" "readStringField n rest1 = Inr (Some (s, rest2))" for s rest2
      proof -
        have "length rest2 \<le> n" using readStringField_shorter [OF that(2)] len1 by simp
        moreover have "tag AND 7 \<noteq> 0" using that(1) by simp
        ultimately show ?thesis
          using "1.IH"(2) [OF _ t refl refl refl _ that(1) that(2) refl refl] False "1.prems"(2) by simp
      qed
      show ?thesis
        using False t a b readStringField_safe [OF len1 "1.prems"(2)]
        by (subst decode_loop.simps) (auto simp: Let_def split: option.split sum.split)
    qed
  qed
  with assms show ?thesis by (simp add: decodeCastMessage_def)
qed

lemma decoder_stays_in_its_buffer_witness:
  "decodeCastMessage [0x12, 0x05, 0x61] \<noteq> Inl Undefined"
  by (rule decoder_stays_in_its_buffer) simp

text \<open>
  A length close to \<open>2 ^ 64\<close> passes the check by wrapping around, and the decoder throws
  instead of rejecting the message. Any message that starts with a string field of such a length
  does this, whatever follows.
\<close>

theorem wrapping_length_throws:
  assumes "f \<in> {1, 2, 3, 4, 5, 6}" "length data < 2 ^ 63"
    and "data = writeTag f 2 @ writeVarint len @ rest"
    and "2 ^ 64 \<le> length (writeTag f 2 @ writeVarint len) + unat len"
  shows "decodeCastMessage data = Inl (StdException ''basic_string::assign'')"
proof -
  define k where "k = length (writeTag f 2 @ writeVarint len)"
  let ?n = "length data"
  have k: "?n - length rest = k" "k \<le> ?n" using assms(3) by (simp_all add: k_def)
  have wrap: "2 ^ 64 \<le> k + unat len" using assms(4) by (simp add: k_def)
  have "unat (of_nat k :: u64) = k" using k(2) assms(2) by (simp add: unat_of_nat)
  then have "unat (of_nat k + len) = (k + unat len) mod 2 ^ 64" by (simp add: unat_word_ariths)
  also have "\<dots> \<le> k"
  proof -
    have "k + unat len = (k + unat len - 2 ^ 64) + 2 ^ 64" using wrap by simp
    moreover have "k + unat len - 2 ^ 64 < 2 ^ 64"
      using k(2) assms(2) unsigned_less [of len, where ?'a = nat] by simp
    ultimately have "(k + unat len) mod 2 ^ 64 = k + unat len - 2 ^ 64"
      by (metis mod_add_self2 mod_less)
    then show ?thesis using unsigned_less [of len, where ?'a = nat] by simp
  qed
  finally have "unat (of_nat k + len) \<le> ?n" using k(2) by simp
  then have "\<not> (of_nat ?n :: u64) < of_nat k + len"
    using assms(2) by (simp add: word_less_nat_alt unat_of_nat not_less)
  moreover have "string_max_size < unat len" using assms(2) wrap k(2) by (simp add: string_max_size_def)
  ultimately have s: "readStringField ?n (writeVarint len @ rest) = Inl (StdException ''basic_string::assign'')"
    unfolding readStringField_def readVarint_write using k(1) by (simp add: Let_def del: of_nat_diff)
  have wt: "(2 :: u64) \<in> {0, 2}" by simp
  have "decode_loop ?n (writeTag f 2 @ writeVarint len @ rest) c = Inl (StdException ''basic_string::assign'')" for c
    using tag_fields [OF assms(1) wt] s
    by (subst decode_loop.simps) (simp add: writeTag_def readVarint_write Let_def)
  then show ?thesis using assms(3) by (simp add: decodeCastMessage_def)
qed

lemma wrapping_length_throws_witness:
  "decodeCastMessage (writeTag 2 2 @ writeVarint (- 1) @ []) = Inl (StdException ''basic_string::assign'')"
proof -
  have "length (writeTag 2 2 @ writeVarint (- 1)) = 11"
    by (simp add: writeTag_def writeVarint.simps drop_bit_eq_div)
  then show ?thesis
    by (intro wrapping_length_throws [where f = 2 and len = "- 1" and rest = "[]"]) (simp_all add: unsigned_minus_1_eq_mask mask_eq_exp_minus_1)
qed

end
