(* ===== verification/Cast_Channel.thy ===== *)
theory Cast_Channel
  imports Cast_Proto JsonApi "HOL-Library.Multiset"
begin

text \<open>
  \<open>TlsSocket\<close> and \<open>CastChannel\<close> of the Chromecast module
  (src/modules/NexusChromecastModule/src/cast): the resources of a TLS connection, framed
  messages, the receive loop and the heartbeat. OpenSSL and the socket calls are parameters:
  what each of them returns is an argument. Reading follows the inbound model of the prelude,
  with \<open>SSL_read\<close> in the place of \<open>recv\<close>.
\<close>

section \<open>TlsSocket\<close>

datatype resource = RAddrInfo | RSocket int | RCtx nat | RSsl nat

datatype resource_step = Acquire resource | Release resource

text \<open>\<open>None\<close> is a null pointer or the invalid socket value.\<close>

record tls_socket =
  tls_connected :: bool
  tls_sock :: "int option"
  tls_ctx :: "nat option"
  tls_ssl :: "nat option"
  tls_trace :: "resource_step list"

definition tls_new :: tls_socket where
  "tls_new = \<lparr>tls_connected = False, tls_sock = None, tls_ctx = None, tls_ssl = None, tls_trace = []\<rparr>"

text \<open>What the calls of one \<open>connect\<close> return.\<close>

record net =
  nt_resolved :: bool
  nt_socket :: "int option"
  nt_connected :: bool
  nt_ctx :: "nat option"
  nt_ssl :: "nat option"
  nt_handshake :: bool

definition tls_log :: "resource_step list \<Rightarrow> tls_socket \<Rightarrow> tls_socket" where
  "tls_log steps t = t\<lparr>tls_trace := tls_trace t @ steps\<rparr>"

definition tls_disconnect :: "tls_socket \<Rightarrow> tls_socket" where
  "tls_disconnect t =
     (let t1 = (case tls_ssl t of None \<Rightarrow> t | Some x \<Rightarrow> (tls_log [Release (RSsl x)] t)\<lparr>tls_ssl := None\<rparr>);
          t2 = (case tls_ctx t1 of None \<Rightarrow> t1 | Some x \<Rightarrow> (tls_log [Release (RCtx x)] t1)\<lparr>tls_ctx := None\<rparr>);
          t3 = (case tls_sock t2 of None \<Rightarrow> t2 | Some x \<Rightarrow> (tls_log [Release (RSocket x)] t2)\<lparr>tls_sock := None\<rparr>)
      in t3\<lparr>tls_connected := False\<rparr>)"

definition tls_connect :: "net \<Rightarrow> tls_socket \<Rightarrow> bool \<times> tls_socket" where
  "tls_connect n t0 =
     (let t = tls_disconnect t0
      in if \<not> nt_resolved n then (False, t)
         else let t = tls_log [Acquire RAddrInfo] t
         in case nt_socket n of
              None \<Rightarrow> (False, tls_log [Release RAddrInfo] t)
            | Some sock \<Rightarrow>
                let t = tls_log [Acquire (RSocket sock)] t
                in if \<not> nt_connected n then (False, tls_log [Release (RSocket sock), Release RAddrInfo] t)
                   else let t = tls_log [Release RAddrInfo] t
                   in case nt_ctx n of
                        None \<Rightarrow> (False, tls_log [Release (RSocket sock)] t)
                      | Some ctx \<Rightarrow>
                          let t = tls_log [Acquire (RCtx ctx)] t
                          in case nt_ssl n of
                               None \<Rightarrow> (False, tls_log [Release (RCtx ctx), Release (RSocket sock)] t)
                             | Some ssl \<Rightarrow>
                                 let t = tls_log [Acquire (RSsl ssl)] t
                                 in if \<not> nt_handshake n
                                    then (False, tls_log [Release (RSsl ssl), Release (RCtx ctx), Release (RSocket sock)] t)
                                    else (True, t\<lparr>tls_sock := Some sock, tls_ctx := Some ctx, tls_ssl := Some ssl,
                                            tls_connected := True\<rparr>))"

definition tls_destroy :: "tls_socket \<Rightarrow> tls_socket" where
  "tls_destroy t = tls_disconnect t"

text \<open>
  \<open>sendAll\<close>: \<open>writes\<close> are the results of the successive \<open>SSL_write\<close> calls; when the list is
  exhausted the connection is gone. The second component is what has been written.
\<close>

fun write_loop :: "byte list \<Rightarrow> int list \<Rightarrow> bool \<times> byte list" where
  "write_loop [] ws = (True, [])"
| "write_loop (b # bs) [] = (False, [])"
| "write_loop (b # bs) (n # ws) =
     (if n \<le> 0 then (False, [])
      else case write_loop (drop (nat n) (b # bs)) ws of (ok, sent) \<Rightarrow> (ok, take (nat n) (b # bs) @ sent))"

definition tls_sendAll :: "byte list \<Rightarrow> int list \<Rightarrow> tls_socket \<Rightarrow> bool \<times> byte list \<times> tls_socket" where
  "tls_sendAll data ws t =
     (if \<not> tls_connected t \<or> tls_ssl t = None then (False, [], t)
      else case write_loop data ws of
             (ok, sent) \<Rightarrow> (ok, sent, if ok then t else t\<lparr>tls_connected := False\<rparr>))"

definition tls_recvAll :: "nat \<Rightarrow> inbound \<Rightarrow> tls_socket \<Rightarrow> byte list option \<times> inbound \<times> tls_socket" where
  "tls_recvAll n s t =
     (if \<not> tls_connected t \<or> tls_ssl t = None then (None, s, t)
      else case recv_all s n of
             (Some d, s') \<Rightarrow> (Some d, s', t) | (None, s') \<Rightarrow> (None, s', t\<lparr>tls_connected := False\<rparr>))"

section \<open>Messages on the channel\<close>

definition MAX_MESSAGE_SIZE :: u32 where "MAX_MESSAGE_SIZE = 1000000"
definition NS_CONNECTION :: string where "NS_CONNECTION = ''urn:x-cast:com.google.cast.tp.connection''"
definition NS_HEARTBEAT :: string where "NS_HEARTBEAT = ''urn:x-cast:com.google.cast.tp.heartbeat''"

text \<open>\<open>send\<close>: the header and the body in one packet.\<close>

definition cast_packet :: "cast_message \<Rightarrow> byte list" where
  "cast_packet msg =
     (let body = encodeCastMessage msg; len = of_nat (length body) :: u32
      in [ucast (drop_bit 24 len AND 0xFF), ucast (drop_bit 16 len AND 0xFF),
          ucast (drop_bit 8 len AND 0xFF), ucast (len AND 0xFF)] @ body)"

definition channel_send :: "cast_message \<Rightarrow> int list \<Rightarrow> tls_socket \<Rightarrow> bool \<times> byte list \<times> tls_socket" where
  "channel_send msg ws t = tls_sendAll (cast_packet msg) ws t"

definition connect_message :: "string \<Rightarrow> string \<Rightarrow> cast_message" where
  "connect_message src dst = \<lparr>cm_source = src, cm_destination = dst, cm_namespace = NS_CONNECTION,
     cm_payload = ''{'' @ [CHR 0x22] @ ''type'' @ [CHR 0x22] @ '':'' @ [CHR 0x22] @ ''CONNECT'' @ [CHR 0x22] @ '',''
       @ [CHR 0x22] @ ''userAgent'' @ [CHR 0x22] @ '':'' @ [CHR 0x22] @ ''NexusChromecastModule/1.0'' @ [CHR 0x22] @ ''}''\<rparr>"

definition typed_payload :: "string \<Rightarrow> string" where
  "typed_payload ty = ''{'' @ [CHR 0x22] @ ''type'' @ [CHR 0x22] @ '':'' @ [CHR 0x22] @ ty @ [CHR 0x22] @ ''}''"

definition heartbeat_message :: "string \<Rightarrow> string \<Rightarrow> cast_message" where
  "heartbeat_message src dst = \<lparr>cm_source = src, cm_destination = dst, cm_namespace = NS_HEARTBEAT,
     cm_payload = typed_payload ''PING''\<rparr>"

definition pong_message :: "cast_message \<Rightarrow> cast_message" where
  "pong_message msg = \<lparr>cm_source = cm_destination msg, cm_destination = cm_source msg, cm_namespace = NS_HEARTBEAT,
     cm_payload = typed_payload ''PONG''\<rparr>"

definition header_length :: "byte list \<Rightarrow> u32" where
  "header_length h =
     push_bit 24 (ucast (h ! 0)) OR push_bit 16 (ucast (h ! 1)) OR push_bit 8 (ucast (h ! 2)) OR ucast (h ! 3)"

definition readMessage :: "inbound \<Rightarrow> cast_message option outcome \<times> inbound" where
  "readMessage s =
     (case recv_all s 4 of
        (None, s1) \<Rightarrow> (Inr None, s1)
      | (Some h, s1) \<Rightarrow>
          let len = header_length h
          in if len = 0 \<or> MAX_MESSAGE_SIZE < len then (Inr None, s1)
             else case recv_all s1 (unat len) of
                    (None, s2) \<Rightarrow> (Inr None, s2)
                  | (Some body, s2) \<Rightarrow> (decodeCastMessage body, s2))"

text \<open>Whether a message is a ping that the loop answers itself; exceptions are caught.\<close>

definition is_ping :: "'j json_api \<Rightarrow> cast_message \<Rightarrow> bool" where
  "is_ping J msg \<longleftrightarrow> cm_namespace msg = NS_HEARTBEAT \<and>
     bind_exn (parse_exn J (cm_payload msg)) (\<lambda>j. j_value_string J j ''type'' []) = Inr ''PING''"

datatype channel_step = SentMessage cast_message | Callback cast_message | DisconnectCallback

lemma recv_all_Some:
  "recv_all s n = (Some xs, s') \<Longrightarrow> concat s = xs @ concat s' \<and> length xs = n"
proof (induction s n arbitrary: xs s' rule: recv_all.induct)
  case (1 s n)
  show ?case
  proof (cases "n = 0")
    case True
    with "1.prems" show ?thesis by simp
  next
    case False
    obtain d t where dt: "sock_recv s n = (d, t)" by (cases "sock_recv s n")
    obtain q u where qu: "recv_all t (n - length d) = (q, u)" by (cases "recv_all t (n - length d)")
    from "1.prems" False dt qu have d: "d \<noteq> []" "map_option ((@) d) q = Some xs" "s' = u"
      by (auto simp: recv_all.simps [of s n] split: if_splits)
    then obtain ys where q: "q = Some ys" "xs = d @ ys" by auto
    from "1.IH" [OF False dt [symmetric] d(1) qu [unfolded q(1)]]
    have "concat t = ys @ concat u" "length ys = n - length d" by simp_all
    moreover have "concat s = d @ concat t" "length d \<le> n" using dt by (cases s; auto split: if_splits)+
    ultimately show ?thesis using q d(3) by simp
  qed
qed

lemma readMessage_consumes:
  "readMessage s = (Inr (Some m), s') \<Longrightarrow> length (concat s') < length (concat s)"
  by (auto simp: readMessage_def Let_def split: prod.splits option.splits if_splits dest!: recv_all_Some)

text \<open>
  \<open>receiveLoop\<close> on everything the connection still delivers. \<open>still\<close> is whether \<open>running_\<close> is
  still set when reading fails; until then it is. An exception of the decoder leaves the thread.
\<close>

function receiveLoop_cast :: "'j json_api \<Rightarrow> bool \<Rightarrow> inbound \<Rightarrow> unit outcome \<times> channel_step list" where
  "receiveLoop_cast J still s =
     (case readMessage s of
        (Inl e, s') \<Rightarrow> (Inl e, [])
      | (Inr None, s') \<Rightarrow> (Inr (), if still then [DisconnectCallback] else [])
      | (Inr (Some msg), s') \<Rightarrow>
          (case receiveLoop_cast J still s' of
             (r, steps) \<Rightarrow> (r, (if is_ping J msg then SentMessage (pong_message msg) else Callback msg) # steps)))"
  by pat_completeness auto
termination
  by (relation "measure (\<lambda>(J, still, s). length (concat s))") (auto dest: readMessage_consumes [OF sym])

declare receiveLoop_cast.simps [simp del]

text \<open>\<open>heartbeatLoop\<close>: for each round the flag at the loop test and after the wait.\<close>

fun heartbeatLoop :: "(bool \<times> bool) list \<Rightarrow> channel_step list" where
  "heartbeatLoop [] = []"
| "heartbeatLoop ((running, after) # rounds) =
     (if \<not> running then []
      else (if after then [SentMessage (heartbeat_message ''sender-0'' ''receiver-0'')] else []) @ heartbeatLoop rounds)"

section \<open>CastChannel\<close>

record channel =
  ch_socket :: tls_socket
  ch_running :: bool

definition channel_new :: channel where
  "channel_new = \<lparr>ch_socket = tls_new, ch_running = False\<rparr>"

definition channel_connect :: "net \<Rightarrow> channel \<Rightarrow> bool \<times> channel" where
  "channel_connect n c =
     (case tls_connect n (ch_socket c) of
        (False, t) \<Rightarrow> (False, c\<lparr>ch_socket := t\<rparr>)
      | (True, t) \<Rightarrow> (True, c\<lparr>ch_socket := t, ch_running := True\<rparr>))"

definition channel_disconnect :: "channel \<Rightarrow> channel" where
  "channel_disconnect c = \<lparr>ch_socket = tls_disconnect (ch_socket c), ch_running = False\<rparr>"

definition channel_isConnected :: "channel \<Rightarrow> bool" where
  "channel_isConnected c \<longleftrightarrow> ch_running c \<and> tls_connected (ch_socket c)"

section \<open>Framing\<close>

text \<open>The header written by \<open>send\<close> is the one \<open>readMessage\<close> reads.\<close>

lemma header_length_split:
  "header_length ([ucast (drop_bit 24 len AND 0xFF), ucast (drop_bit 16 len AND 0xFF),
      ucast (drop_bit 8 len AND 0xFF), ucast (len AND 0xFF)]) = (len :: u32)"
proof (rule bit_word_eqI)
  have m: "(0xFF :: u32) = mask 8" by (simp add: mask_eq_exp_minus_1)
  fix n assume n: "n < LENGTH(32)"
  consider "n < 8" | "8 \<le> n" "n < 16" | "16 \<le> n" "n < 24" | "24 \<le> n" by linarith
  then show "bit (header_length ([ucast (drop_bit 24 len AND 0xFF), ucast (drop_bit 16 len AND 0xFF),
      ucast (drop_bit 8 len AND 0xFF), ucast (len AND 0xFF)])) n = bit len n"
    using n by cases (auto simp: header_length_def m bit_simps)
qed

lemma encode_nonempty: "0 < length (encodeCastMessage m)"
  by (simp add: encodeCastMessage_def writeVarintField_def writeTag_def)

lemma readMessage_packet:
  assumes "length (encodeCastMessage m) \<le> 1000000" "live s" "concat s = cast_packet m @ rest"
  shows "\<exists>s'. readMessage s = (Inr (Some m), s') \<and> concat s' = rest \<and> live s'"
proof -
  define len :: u32 where "len = of_nat (length (encodeCastMessage m))"
  define h :: "byte list" where "h = [ucast (drop_bit 24 len AND 0xFF), ucast (drop_bit 16 len AND 0xFF),
      ucast (drop_bit 8 len AND 0xFF), ucast (len AND 0xFF)]"
  have u: "unat len = length (encodeCastMessage m)" using assms(1) by (simp add: len_def unat_of_nat)
  have ok: "len \<noteq> 0" "\<not> MAX_MESSAGE_SIZE < len"
    using assms(1) u encode_nonempty [of m] by (auto simp: MAX_MESSAGE_SIZE_def word_less_nat_alt)
  have h: "length h = 4" "header_length h = len" unfolding h_def header_length_split by simp_all
  have "concat s = h @ (encodeCastMessage m @ rest)"
    using assms(3) by (simp add: cast_packet_def Let_def h_def len_def)
  from recv_all_live_Some [OF assms(2) this] h(1) obtain s1 where
    s1: "recv_all s 4 = (Some h, s1)" "concat s1 = encodeCastMessage m @ rest" "live s1" by auto
  from recv_all_live_Some [OF s1(3,2)] obtain s2 where
    s2: "recv_all s1 (length (encodeCastMessage m)) = (Some (encodeCastMessage m), s2)" "concat s2 = rest" "live s2" .
  from assms(1) have "decodeCastMessage (encodeCastMessage m) = Inr (Some m)" by (intro decode_encode) simp
  with s1 s2 ok u h show ?thesis by (simp add: readMessage_def Let_def)
qed

definition cast_decode :: "inbound \<Rightarrow> cast_message option \<times> inbound" where
  "cast_decode s = (case readMessage s of (Inr r, s') \<Rightarrow> (r, s') | (Inl e, s') \<Rightarrow> (None, s'))"

interpretation cast_stream: stream_codec cast_packet cast_decode "\<lambda>m. length (encodeCastMessage m) \<le> 1000000"
  by unfold_locales (use readMessage_packet in \<open>fastforce simp: cast_decode_def\<close>)

definition answer_message :: "'j json_api \<Rightarrow> cast_message \<Rightarrow> channel_step" where
  "answer_message J m = (if is_ping J m then SentMessage (pong_message m) else Callback m)"

lemma receiveLoop_messages:
  "(\<forall>m \<in> set ms. length (encodeCastMessage m) \<le> 1000000) \<Longrightarrow> live s \<Longrightarrow> concat s = concat (map cast_packet ms) @ rest \<Longrightarrow>
     \<exists>s'. concat s' = rest \<and> live s' \<and> receiveLoop_cast J still s =
       (fst (receiveLoop_cast J still s'), map (answer_message J) ms @ snd (receiveLoop_cast J still s'))"
proof (induction ms arbitrary: s)
  case (Cons m ms)
  from Cons.prems have "length (encodeCastMessage m) \<le> 1000000" "concat s = cast_packet m @ (concat (map cast_packet ms) @ rest)" by simp_all
  from readMessage_packet [OF this(1) Cons.prems(2) this(2)] obtain t where
    t: "readMessage s = (Inr (Some m), t)" "concat t = concat (map cast_packet ms) @ rest" "live t" by blast
  from Cons.IH [OF _ t(3,2)] Cons.prems(1) obtain u where u: "concat u = rest" "live u"
    "receiveLoop_cast J still t = (fst (receiveLoop_cast J still u), map (answer_message J) ms @ snd (receiveLoop_cast J still u))" by auto
  then show ?case
    by (intro exI [of _ u]) (subst receiveLoop_cast.simps, simp add: t(1) answer_message_def)
qed auto

text \<open>The end of the connection, and a message cut off by it.\<close>

lemma readMessage_short:
  assumes "live s" "length (concat s) < 4" shows "fst (readMessage s) = Inr None"
  using recv_all_live_None [OF assms] by (auto simp: readMessage_def split: prod.splits)

lemma receiveLoop_ends:
  assumes "live s" "length (concat s) < 4"
  shows "receiveLoop_cast J still s = (Inr (), if still then [DisconnectCallback] else [])"
  using readMessage_short [OF assms] by (subst receiveLoop_cast.simps) (auto split: prod.splits)

lemma readMessage_truncated:
  assumes "length (encodeCastMessage m) \<le> 1000000" "live s" "concat s @ tl_bytes = cast_packet m" "tl_bytes \<noteq> []"
  shows "fst (readMessage s) = Inr None"
proof (cases "length (concat s) < 4")
  case True
  with readMessage_short [OF assms(2)] show ?thesis by simp
next
  case False
  define len :: u32 where "len = of_nat (length (encodeCastMessage m))"
  define h :: "byte list" where "h = [ucast (drop_bit 24 len AND 0xFF), ucast (drop_bit 16 len AND 0xFF),
      ucast (drop_bit 8 len AND 0xFF), ucast (len AND 0xFF)]"
  have u: "unat len = length (encodeCastMessage m)" using assms(1) by (simp add: len_def unat_of_nat)
  have h: "length h = 4" "header_length h = len" unfolding h_def header_length_split by simp_all
  have p: "cast_packet m = h @ encodeCastMessage m" by (simp add: cast_packet_def Let_def h_def len_def)
  with assms(3) have "take 4 (concat s @ tl_bytes) = h" using h(1) by simp
  then have t: "take 4 (concat s) = h" using False by simp
  have split: "concat s = h @ drop 4 (concat s)"
    using t by (metis append_take_drop_id)
  from recv_all_live_Some [OF assms(2) split] h(1) obtain s1 where
    s1: "recv_all s 4 = (Some h, s1)" "concat s1 = drop 4 (concat s)" "live s1" by auto
  have "length (concat s) + length tl_bytes = 4 + length (encodeCastMessage m)"
    using arg_cong [OF assms(3), of length] p h(1) by simp
  with assms(4) have "length (drop 4 (concat s)) < length (encodeCastMessage m)"
    using False by (cases tl_bytes) auto
  with s1 u have "length (concat s1) < unat len" by simp
  from recv_all_live_None [OF s1(3) this] s1 h show ?thesis
    by (auto simp: readMessage_def Let_def split: prod.splits)
qed

lemma receiveLoop_stops:
  "fst (readMessage s) = Inr None \<Longrightarrow>
     receiveLoop_cast J still s = (Inr (), if still then [DisconnectCallback] else [])"
  by (subst receiveLoop_cast.simps) (auto split: prod.splits)

text \<open>A header beyond the limit is refused before anything is allocated.\<close>

lemma readMessage_oversized:
  assumes "live s" "concat s = h @ rest" "length h = 4" "MAX_MESSAGE_SIZE < header_length h"
  shows "fst (readMessage s) = Inr None"
proof -
  from recv_all_live_Some [OF assms(1,2)] assms(3) obtain s1 where "recv_all s 4 = (Some h, s1)" by auto
  with assms(4) show ?thesis by (simp add: readMessage_def Let_def)
qed

lemma readMessage_bounded:
  assumes "readMessage s = (Inr (Some m), s')"
  shows "length (concat s) \<le> length (concat s') + 1000004"
  using assms by (auto simp: readMessage_def Let_def MAX_MESSAGE_SIZE_def word_le_nat_alt not_less
      split: prod.splits option.splits if_splits dest!: recv_all_Some)

lemma write_loop_prefix:
  "write_loop data ws = (ok, sent) \<Longrightarrow> \<exists>tl_bytes. data = sent @ tl_bytes \<and> (ok \<longrightarrow> tl_bytes = [])"
proof (induction data ws arbitrary: ok sent rule: write_loop.induct)
  case (3 b bs n ws)
  show ?case
  proof (cases "n \<le> 0")
    case False
    obtain ok' sent' where w: "write_loop (drop (nat n) (b # bs)) ws = (ok', sent')"
      by (cases "write_loop (drop (nat n) (b # bs)) ws")
    from "3.IH" [OF False w] obtain tl_bytes where
      "drop (nat n) (b # bs) = sent' @ tl_bytes" "ok' \<longrightarrow> tl_bytes = []" by blast
    moreover have "ok = ok'" "sent = take (nat n) (b # bs) @ sent'" using "3.prems" False w by simp_all
    ultimately show ?thesis by (metis append_assoc append_take_drop_id)
  qed (use "3.prems" in simp)
qed auto

lemma channel_send_writes:
  "channel_send m ws t = (True, sent, t') \<Longrightarrow> sent = cast_packet m \<and> t' = t"
  by (auto simp: channel_send_def tls_sendAll_def split: prod.splits if_splits dest!: write_loop_prefix)

section \<open>Resources of the TLS connection\<close>

text \<open>
  What is held after a trace: \<open>None\<close> when something is released that is not held.
\<close>

fun resources_after :: "resource_step list \<Rightarrow> resource multiset \<Rightarrow> resource multiset option" where
  "resources_after [] h = Some h"
| "resources_after (Acquire r # ts) h = resources_after ts (add_mset r h)"
| "resources_after (Release r # ts) h = (if r \<in># h then resources_after ts (h - {#r#}) else None)"

lemma resources_after_append:
  "resources_after (xs @ ys) h = Option.bind (resources_after xs h) (resources_after ys)"
  by (induction xs h rule: resources_after.induct) simp_all

definition tls_held :: "tls_socket \<Rightarrow> resource multiset" where
  "tls_held t =
     (case tls_sock t of None \<Rightarrow> {#} | Some x \<Rightarrow> {#RSocket x#}) + (case tls_ctx t of None \<Rightarrow> {#} | Some x \<Rightarrow> {#RCtx x#})
     + (case tls_ssl t of None \<Rightarrow> {#} | Some x \<Rightarrow> {#RSsl x#})"

definition tls_wf :: "tls_socket \<Rightarrow> bool" where
  "tls_wf t \<longleftrightarrow> resources_after (tls_trace t) {#} = Some (tls_held t) \<and>
     (tls_connected t \<longrightarrow> tls_sock t \<noteq> None \<and> tls_ctx t \<noteq> None \<and> tls_ssl t \<noteq> None)"

lemma tls_new_wf: "tls_wf tls_new"
  by (simp add: tls_wf_def tls_new_def tls_held_def)

lemma tls_disconnect_fields [simp]:
  "tls_connected (tls_disconnect t) = False" "tls_sock (tls_disconnect t) = None"
  "tls_ctx (tls_disconnect t) = None" "tls_ssl (tls_disconnect t) = None"
  by (auto simp: tls_disconnect_def Let_def tls_log_def split: option.splits)

lemma tls_disconnect_held [simp]: "tls_held (tls_disconnect t) = {#}"
  by (simp add: tls_held_def)

lemma tls_disconnect_wf: "tls_wf t \<Longrightarrow> tls_wf (tls_disconnect t)"
  unfolding tls_wf_def
  by (cases "tls_sock t"; cases "tls_ctx t"; cases "tls_ssl t")
    (simp_all add: tls_disconnect_def tls_log_def tls_held_def Let_def resources_after_append)

lemma tls_connect_wf:
  assumes "tls_wf t" shows "tls_wf (snd (tls_connect n t))"
proof -
  define d where "d = tls_disconnect t"
  have d: "resources_after (tls_trace d) {#} = Some {#}" "tls_sock d = None" "tls_ctx d = None" "tls_ssl d = None" "tls_connected d = False"
    using tls_disconnect_wf [OF assms] by (simp_all add: d_def tls_wf_def)
  show ?thesis
    unfolding tls_connect_def Let_def d_def [symmetric]
    by (auto simp: tls_wf_def tls_log_def tls_held_def d resources_after_append split: option.splits)
qed

datatype tls_op = TlsConnect net | TlsDisconnect | TlsSend "byte list" "int list" | TlsRecv nat inbound

fun tls_do :: "tls_op \<Rightarrow> tls_socket \<Rightarrow> tls_socket" where
  "tls_do (TlsConnect n) t = snd (tls_connect n t)"
| "tls_do TlsDisconnect t = tls_disconnect t"
| "tls_do (TlsSend data ws) t = snd (snd (tls_sendAll data ws t))"
| "tls_do (TlsRecv n s) t = snd (snd (tls_recvAll n s t))"

lemma tls_do_wf: "tls_wf t \<Longrightarrow> tls_wf (tls_do op t)"
proof (cases op)
  case (TlsSend data ws)
  then show "tls_wf t \<Longrightarrow> ?thesis"
    by (auto simp: tls_sendAll_def tls_wf_def tls_held_def split: prod.splits)
next
  case (TlsRecv n s)
  then show "tls_wf t \<Longrightarrow> ?thesis"
    by (auto simp: tls_recvAll_def tls_wf_def tls_held_def split: prod.splits option.splits)
qed (simp_all add: tls_connect_wf tls_disconnect_wf)

lemma tls_fold_wf: "tls_wf t \<Longrightarrow> tls_wf (fold tls_do ops t)"
  by (induction ops arbitrary: t) (simp_all add: tls_do_wf)

definition ping_example :: cast_message where
  "ping_example = \<lparr>cm_source = ''s'', cm_destination = [], cm_namespace = NS_HEARTBEAT, cm_payload = typed_payload ''PING''\<rparr>"

definition status_example :: cast_message where
  "status_example = \<lparr>cm_source = ''d'', cm_destination = [], cm_namespace = ''media'', cm_payload = [CHR 0x7B]\<rparr>"

section \<open>Properties\<close>



text \<open>
  C29: over any sequence of connects, disconnects, sends and receives, whatever fails and at which
  point, every socket, context, session and address list is released at most once and only while
  held, the socket holds exactly what its fields name, and destroying it leaves nothing behind.
\<close>

theorem tls_resources_are_released_once:
  "resources_after (tls_trace (fold tls_do ops tls_new)) {#} = Some (tls_held (fold tls_do ops tls_new)) \<and>
   resources_after (tls_trace (tls_destroy (fold tls_do ops tls_new))) {#} = Some {#}"
  using tls_fold_wf [OF tls_new_wf, of ops] tls_disconnect_wf [OF tls_fold_wf [OF tls_new_wf, of ops]]
  by (simp add: tls_wf_def tls_destroy_def)

end
