(* ===== verification/Cast_Device.thy ===== *)
theory Cast_Device
  imports Cast_Channel
begin

text \<open>
  \<open>CastDevice\<close> (src/modules/NexusChromecastModule/src/cast/CastDevice.cpp): the commands to one
  Chromecast and the status messages it sends back. The state of the callbacks is the type
  \<open>'w\<close>; the mutex of the class protects single assignments, so that an operation is a step.
  What the network does is an argument: the results of a connection attempt, and in
  \<open>wire\<close> the results of the writes of each message still to be sent, with a log of the
  messages handed to \<open>CastChannel::send\<close> and whether they went out.
\<close>

section \<open>State\<close>

definition NS_RECEIVER :: string where "NS_RECEIVER = ''urn:x-cast:com.google.cast.receiver''"
definition NS_MEDIA :: string where "NS_MEDIA = ''urn:x-cast:com.google.cast.media''"
definition APP_DMR :: string where "APP_DMR = ''CC1AD845''"
definition SENDER_ID :: string where "SENDER_ID = ''sender-0''"
definition RECEIVER_ID :: string where "RECEIVER_ID = ''receiver-0''"

record receiver_status =
  rs_sessionId :: string
  rs_transportId :: string
  rs_appId :: string
  rs_displayName :: string
  rs_isIdleScreen :: bool
  rs_volumeLevel :: double
  rs_muted :: bool

definition receiver_status_new :: receiver_status where
  "receiver_status_new = \<lparr>rs_sessionId = [], rs_transportId = [], rs_appId = [], rs_displayName = [],
     rs_isIdleScreen = True, rs_volumeLevel = dbl_one, rs_muted = False\<rparr>"

record media_status =
  ms_sessionId :: int
  ms_playerState :: string
  ms_currentTime :: double
  ms_duration :: double
  ms_title :: string
  ms_contentId :: string
  ms_contentType :: string

definition media_status_new :: media_status where
  "media_status_new = \<lparr>ms_sessionId = -1, ms_playerState = [], ms_currentTime = dbl_zero, ms_duration = dbl_zero,
     ms_title = [], ms_contentId = [], ms_contentType = []\<rparr>"

type_synonym 'w effect = "'w \<Rightarrow> unit outcome \<times> 'w"

record 'w cast_device =
  cd_host :: string
  cd_port :: int
  cd_channel :: "channel option"
  cd_requestId :: u32
  cd_lastStatus :: "receiver_status option"
  cd_lastMedia :: "media_status option"
  cd_sessionId :: string
  cd_transportId :: string
  cd_mediaSessionId :: int
  cd_onStatus :: "(receiver_status \<Rightarrow> 'w effect) option"
  cd_onMedia :: "(media_status \<Rightarrow> 'w effect) option"
  cd_onError :: "(string \<Rightarrow> 'w effect) option"

definition cast_device_new :: "string \<Rightarrow> int \<Rightarrow> 'w cast_device" where
  "cast_device_new host port = \<lparr>cd_host = host, cd_port = port, cd_channel = None, cd_requestId = 0,
     cd_lastStatus = None, cd_lastMedia = None, cd_sessionId = [], cd_transportId = [], cd_mediaSessionId = -1,
     cd_onStatus = None, cd_onMedia = None, cd_onError = None\<rparr>"

record wire =
  wi_writes :: "int list list"
  wi_sent :: "(cast_message \<times> bool) list"

type_synonym 'w device_io = "'w cast_device \<times> wire"

section \<open>Sending\<close>

text \<open>\<open>++requestId_\<close> on an atomic \<open>int\<close>.\<close>

definition nextId :: "'w cast_device \<Rightarrow> int \<times> 'w cast_device" where
  "nextId d = (let r = cd_requestId d + 1 in (sint r, d\<lparr>cd_requestId := r\<rparr>))"

text \<open>\<open>channel_->send(msg)\<close>; dereferencing a null channel is undefined.\<close>

definition device_send :: "cast_message \<Rightarrow> 'w device_io \<Rightarrow> bool outcome \<times> 'w device_io" where
  "device_send msg s =
     (case cd_channel (fst s) of
        None \<Rightarrow> (Inl Undefined, s)
      | Some c \<Rightarrow>
          case channel_send msg (case wi_writes (snd s) of [] \<Rightarrow> [] | ws # _ \<Rightarrow> ws) (ch_socket c) of
            (ok, sent, t) \<Rightarrow>
              (Inr ok, (fst s)\<lparr>cd_channel := Some (c\<lparr>ch_socket := t\<rparr>)\<rparr>,
               \<lparr>wi_writes = tl (wi_writes (snd s)), wi_sent = wi_sent (snd s) @ [(msg, ok)]\<rparr>))"

definition sendReceiverMsg :: "'j json_api \<Rightarrow> 'j \<Rightarrow> 'w device_io \<Rightarrow> unit outcome \<times> 'w device_io" where
  "sendReceiverMsg J payload s =
     (if cd_channel (fst s) = None then (Inr (), s)
      else case dump_exn J payload of
             Inl e \<Rightarrow> (Inl e, s)
           | Inr p \<Rightarrow>
               case device_send \<lparr>cm_source = SENDER_ID, cm_destination = RECEIVER_ID, cm_namespace = NS_RECEIVER, cm_payload = p\<rparr> s of
                 (r, s') \<Rightarrow> (map_sum id (\<lambda>_. ()) r, s'))"

definition sendMediaMsg :: "'j json_api \<Rightarrow> 'j \<Rightarrow> 'w device_io \<Rightarrow> unit outcome \<times> 'w device_io" where
  "sendMediaMsg J payload s =
     (let transport = cd_transportId (fst s)
      in if cd_channel (fst s) = None \<or> transport = [] then (Inr (), s)
         else case dump_exn J payload of
                Inl e \<Rightarrow> (Inl e, s)
              | Inr p \<Rightarrow>
                  case device_send \<lparr>cm_source = SENDER_ID, cm_destination = transport, cm_namespace = NS_MEDIA, cm_payload = p\<rparr> s of
                    (r, s') \<Rightarrow> (map_sum id (\<lambda>_. ()) r, s'))"

section \<open>Receiver control\<close>

definition device_getStatus :: "'j json_api \<Rightarrow> 'w device_io \<Rightarrow> unit outcome \<times> 'w device_io" where
  "device_getStatus J s =
     (case nextId (fst s) of (i, d) \<Rightarrow>
        sendReceiverMsg J (j_object J [(''type'', j_string J ''GET_STATUS''), (''requestId'', j_int J i)]) (d, snd s))"

definition launchDefaultMediaReceiver :: "'j json_api \<Rightarrow> 'w device_io \<Rightarrow> unit outcome \<times> 'w device_io" where
  "launchDefaultMediaReceiver J s =
     (case nextId (fst s) of (i, d) \<Rightarrow>
        sendReceiverMsg J (j_object J [(''type'', j_string J ''LAUNCH''), (''appId'', j_string J APP_DMR),
          (''requestId'', j_int J i)]) (d, snd s))"

definition stopApp :: "'j json_api \<Rightarrow> 'w device_io \<Rightarrow> unit outcome \<times> 'w device_io" where
  "stopApp J s =
     (let sid = cd_sessionId (fst s)
      in if sid = [] then (Inr (), s)
         else case nextId (fst s) of (i, d) \<Rightarrow>
                sendReceiverMsg J (j_object J [(''type'', j_string J ''STOP''), (''sessionId'', j_string J sid),
                  (''requestId'', j_int J i)]) (d, snd s))"

definition setVolume :: "'j json_api \<Rightarrow> double \<Rightarrow> 'w device_io \<Rightarrow> unit outcome \<times> 'w device_io" where
  "setVolume J level s =
     (case nextId (fst s) of (i, d) \<Rightarrow>
        sendReceiverMsg J (j_object J [(''type'', j_string J ''SET_VOLUME''),
          (''volume'', j_object J [(''level'', j_double J level)]), (''requestId'', j_int J i)]) (d, snd s))"

definition setMuted :: "'j json_api \<Rightarrow> bool \<Rightarrow> 'w device_io \<Rightarrow> unit outcome \<times> 'w device_io" where
  "setMuted J muted s =
     (case nextId (fst s) of (i, d) \<Rightarrow>
        sendReceiverMsg J (j_object J [(''type'', j_string J ''SET_VOLUME''),
          (''volume'', j_object J [(''muted'', j_bool J muted)]), (''requestId'', j_int J i)]) (d, snd s))"

section \<open>Media control\<close>

definition loadMedia :: "'j json_api \<Rightarrow> string \<Rightarrow> string \<Rightarrow> string \<Rightarrow> 'w device_io \<Rightarrow> unit outcome \<times> 'w device_io" where
  "loadMedia J url contentType title s =
     (let transport = cd_transportId (fst s)
      in if transport = [] then (Inr (), s)
         else case device_send (connect_message SENDER_ID transport) s of
                (Inl e, s') \<Rightarrow> (Inl e, s')
              | (Inr _, s') \<Rightarrow>
                  case nextId (fst s') of (i, d) \<Rightarrow>
                    sendMediaMsg J
                      (j_object J [(''type'', j_string J ''LOAD''), (''requestId'', j_int J i),
                         (''autoplay'', j_bool J True), (''currentTime'', j_int J 0),
                         (''media'', j_object J [(''contentId'', j_string J url), (''contentType'', j_string J contentType),
                            (''streamType'', j_string J ''BUFFERED''),
                            (''metadata'', j_object J [(''metadataType'', j_int J 0),
                               (''title'', j_string J (if title = [] then url else title))])])])
                      (d, snd s'))"

text \<open>The body that \<open>play\<close>, \<open>pause\<close>, \<open>stopMedia\<close> and \<open>seek\<close> share, after \<open>mediaSessionId\<close> come the extra members.\<close>

definition media_command :: "'j json_api \<Rightarrow> string \<Rightarrow> (string \<times> 'j) list \<Rightarrow> 'w device_io \<Rightarrow> unit outcome \<times> 'w device_io" where
  "media_command J ty extra s =
     (let mid = cd_mediaSessionId (fst s); transport = cd_transportId (fst s)
      in if transport = [] \<or> mid < 0 then (Inr (), s)
         else case nextId (fst s) of (i, d) \<Rightarrow>
                sendMediaMsg J (j_object J ([(''type'', j_string J ty), (''requestId'', j_int J i),
                  (''mediaSessionId'', j_int J mid)] @ extra)) (d, snd s))"

definition device_play :: "'j json_api \<Rightarrow> 'w device_io \<Rightarrow> unit outcome \<times> 'w device_io" where
  "device_play J s = media_command J ''PLAY'' [] s"

definition device_pause :: "'j json_api \<Rightarrow> 'w device_io \<Rightarrow> unit outcome \<times> 'w device_io" where
  "device_pause J s = media_command J ''PAUSE'' [] s"

definition stopMedia :: "'j json_api \<Rightarrow> 'w device_io \<Rightarrow> unit outcome \<times> 'w device_io" where
  "stopMedia J s = media_command J ''STOP'' [] s"

definition device_seek :: "'j json_api \<Rightarrow> double \<Rightarrow> 'w device_io \<Rightarrow> unit outcome \<times> 'w device_io" where
  "device_seek J seconds s = media_command J ''SEEK'' [(''currentTime'', j_double J seconds)] s"

section \<open>Connection\<close>

text \<open>
  A new channel replaces the old one, whose destructor joins its threads. The
  callbacks of the channel are the handlers at the end of this section.
\<close>

definition device_connect :: "'j json_api \<Rightarrow> net \<Rightarrow> 'w device_io \<Rightarrow> bool outcome \<times> 'w device_io" where
  "device_connect J n s =
     (case channel_connect n channel_new of
        (False, c) \<Rightarrow> (Inr False, (fst s)\<lparr>cd_channel := Some c\<rparr>, snd s)
      | (True, c) \<Rightarrow>
          case device_send (connect_message ''sender-0'' ''receiver-0'') ((fst s)\<lparr>cd_channel := Some c\<rparr>, snd s) of
            (Inl e, s') \<Rightarrow> (Inl e, s')
          | (Inr ok, s') \<Rightarrow>
              if \<not> ok then (Inr False, s')
              else case device_getStatus J s' of (r, s'') \<Rightarrow> (map_sum id (\<lambda>_. True) r, s''))"

definition device_disconnect :: "'w cast_device \<Rightarrow> 'w cast_device" where
  "device_disconnect d =
     (if cd_channel d = None then d
      else d\<lparr>cd_channel := None, cd_sessionId := [], cd_transportId := [], cd_mediaSessionId := -1\<rparr>)"

definition device_isConnected :: "'w cast_device \<Rightarrow> bool" where
  "device_isConnected d = (case cd_channel d of None \<Rightarrow> False | Some c \<Rightarrow> channel_isConnected c)"

section \<open>Messages from the device\<close>

text \<open>The application part of a receiver status; \<open>s\<close> is the status object.\<close>

definition read_application :: "'j json_api \<Rightarrow> 'j \<Rightarrow> receiver_status \<Rightarrow> receiver_status outcome" where
  "read_application J s st =
     bind_exn (if j_contains J s ''applications''
               then bind_exn (j_index J s ''applications'') (\<lambda>as. Inr (if j_empty J as then None else Some as)) else Inr None)
       (\<lambda>as. case as of
          None \<Rightarrow> Inr (st\<lparr>rs_isIdleScreen := True\<rparr>)
        | Some as \<Rightarrow>
            bind_exn (j_nth J as 0) (\<lambda>app.
            bind_exn (j_value_string J app ''sessionId'' []) (\<lambda>sid.
            bind_exn (j_value_string J app ''transportId'' []) (\<lambda>tid.
            bind_exn (j_value_string J app ''appId'' []) (\<lambda>aid.
            bind_exn (j_value_string J app ''displayName'' []) (\<lambda>dn.
            bind_exn (j_value_bool J app ''isIdleScreen'' False) (\<lambda>idle.
              Inr (st\<lparr>rs_sessionId := sid, rs_transportId := tid, rs_appId := aid, rs_displayName := dn,
                rs_isIdleScreen := idle\<rparr>))))))))"

definition read_volume :: "'j json_api \<Rightarrow> 'j \<Rightarrow> receiver_status \<Rightarrow> receiver_status outcome" where
  "read_volume J s st =
     (if j_contains J s ''volume''
      then bind_exn (j_index J s ''volume'') (\<lambda>v.
           bind_exn (j_value_double J v ''level'' dbl_one) (\<lambda>l.
           bind_exn (j_value_bool J v ''muted'' False) (\<lambda>m.
             Inr (st\<lparr>rs_volumeLevel := l, rs_muted := m\<rparr>))))
      else Inr st)"

definition read_receiver_status :: "'j json_api \<Rightarrow> 'j \<Rightarrow> receiver_status option outcome" where
  "read_receiver_status J j =
     bind_exn (j_value_string J j ''type'' []) (\<lambda>ty.
       if ty \<noteq> ''RECEIVER_STATUS'' then Inr None
       else bind_exn (j_index J j ''status'') (\<lambda>s.
            bind_exn (read_volume J s receiver_status_new) (\<lambda>st.
            bind_exn (read_application J s st) (\<lambda>st. Inr (Some st)))))"

definition call_back :: "('x \<Rightarrow> 'w effect) option \<Rightarrow> 'x \<Rightarrow> 'w effect" where
  "call_back cb x w = (case cb of None \<Rightarrow> (Inr (), w) | Some f \<Rightarrow> f x w)"

definition handleReceiverStatus :: "'j json_api \<Rightarrow> 'j \<Rightarrow> 'w cast_device \<times> 'w \<Rightarrow> unit outcome \<times> 'w cast_device \<times> 'w" where
  "handleReceiverStatus J j s =
     (case read_receiver_status J j of
        Inl e \<Rightarrow> (Inl e, s)
      | Inr None \<Rightarrow> (Inr (), s)
      | Inr (Some st) \<Rightarrow>
          case call_back (cd_onStatus (fst s)) st (snd s) of (r, w) \<Rightarrow>
            (r, (fst s)\<lparr>cd_lastStatus := Some st, cd_sessionId := rs_sessionId st, cd_transportId := rs_transportId st\<rparr>, w))"

definition read_media_item :: "'j json_api \<Rightarrow> 'j \<Rightarrow> media_status \<Rightarrow> media_status outcome" where
  "read_media_item J ms st =
     (if j_contains J ms ''media''
      then bind_exn (j_index J ms ''media'') (\<lambda>m.
           bind_exn (j_value_string J m ''contentId'' []) (\<lambda>cid.
           bind_exn (j_value_string J m ''contentType'' []) (\<lambda>ct.
           bind_exn (j_value_double J m ''duration'' dbl_zero) (\<lambda>du.
           bind_exn (if j_contains J m ''metadata''
                     then bind_exn (j_index J m ''metadata'') (\<lambda>md. j_value_string J md ''title'' []) else Inr (ms_title st)) (\<lambda>ti.
             Inr (st\<lparr>ms_contentId := cid, ms_contentType := ct, ms_duration := du, ms_title := ti\<rparr>))))))
      else Inr st)"

definition read_media_status :: "'j json_api \<Rightarrow> 'j \<Rightarrow> media_status option outcome" where
  "read_media_status J j =
     bind_exn (j_value_string J j ''type'' []) (\<lambda>ty.
       if ty \<noteq> ''MEDIA_STATUS'' then Inr None
       else if \<not> j_contains J j ''status'' then Inr None
       else bind_exn (j_index J j ''status'') (\<lambda>sts.
         if j_empty J sts then Inr None
         else bind_exn (j_nth J sts 0) (\<lambda>ms.
              bind_exn (j_value_int J ms ''mediaSessionId'' (-1)) (\<lambda>mid.
              bind_exn (j_value_string J ms ''playerState'' ''UNKNOWN'') (\<lambda>ps.
              bind_exn (j_value_double J ms ''currentTime'' dbl_zero) (\<lambda>ct.
              bind_exn (read_media_item J ms
                 (media_status_new\<lparr>ms_sessionId := mid, ms_playerState := ps, ms_currentTime := ct\<rparr>)) (\<lambda>st.
                Inr (Some st))))))))"

definition handleMediaStatus :: "'j json_api \<Rightarrow> 'j \<Rightarrow> 'w cast_device \<times> 'w \<Rightarrow> unit outcome \<times> 'w cast_device \<times> 'w" where
  "handleMediaStatus J j s =
     (case read_media_status J j of
        Inl e \<Rightarrow> (Inl e, s)
      | Inr None \<Rightarrow> (Inr (), s)
      | Inr (Some st) \<Rightarrow>
          case call_back (cd_onMedia (fst s)) st (snd s) of (r, w) \<Rightarrow>
            (r, (fst s)\<lparr>cd_lastMedia := Some st, cd_mediaSessionId := ms_sessionId st\<rparr>, w))"

definition handleMessage :: "'j json_api \<Rightarrow> cast_message \<Rightarrow> 'w cast_device \<times> 'w \<Rightarrow> unit outcome \<times> 'w cast_device \<times> 'w" where
  "handleMessage J msg s =
     (case j_parse J (cm_payload msg) of
        None \<Rightarrow> (Inr (), s)
      | Some j \<Rightarrow>
          case (if cm_namespace msg = NS_RECEIVER then handleReceiverStatus J j s
                else if cm_namespace msg = NS_MEDIA then handleMediaStatus J j s
                else (Inr (), s)) of
            (r, s') \<Rightarrow> (catch_any r (\<lambda>_. Inr ()), s'))"

definition on_disconnected :: "'w cast_device \<Rightarrow> 'w effect" where
  "on_disconnected d = call_back (cd_onError d) (''Disconnected from '' @ cd_host d)"

text \<open>What the receive thread of the channel does with one of its steps.\<close>

fun on_channel_step :: "'j json_api \<Rightarrow> channel_step \<Rightarrow> 'w device_io \<times> 'w \<Rightarrow> unit outcome \<times> 'w device_io \<times> 'w" where
  "on_channel_step J (SentMessage m) (s, w) =
     (case device_send m s of (r, s') \<Rightarrow> (map_sum id (\<lambda>_. ()) r, s', w))"
| "on_channel_step J (Callback m) ((d, io), w) =
     (case handleMessage J m (d, w) of (r, d', w') \<Rightarrow> (r, (d', io), w'))"
| "on_channel_step J DisconnectCallback ((d, io), w) =
     (case on_disconnected d w of (r, w') \<Rightarrow> (r, (d, io), w'))"

fun on_channel_steps :: "'j json_api \<Rightarrow> channel_step list \<Rightarrow> 'w device_io \<times> 'w \<Rightarrow> unit outcome \<times> 'w device_io \<times> 'w" where
  "on_channel_steps J [] s = (Inr (), s)"
| "on_channel_steps J (x # xs) s =
     (case on_channel_step J x s of (Inl e, s') \<Rightarrow> (Inl e, s') | (Inr _, s') \<Rightarrow> on_channel_steps J xs s')"

section \<open>The session a device is in\<close>

text \<open>
  The contract of a device: whether there is a channel, and the session, transport and media
  session that the status messages announced; and where the messages of an operation go.
\<close>

datatype device_op =
    DConnect net | DDisconnect | DGetStatus | DLaunch | DStopApp | DSetVolume double | DSetMuted bool
  | DLoad string string string | DPlay | DPause | DStopMedia | DSeek double | DIncoming cast_message

fun device_do :: "'j json_api \<Rightarrow> device_op \<Rightarrow> 'w device_io \<times> 'w \<Rightarrow> unit outcome \<times> 'w device_io \<times> 'w" where
  "device_do J (DConnect n) (s, w) = (case device_connect J n s of (r, s') \<Rightarrow> (map_sum id (\<lambda>_. ()) r, s', w))"
| "device_do J DDisconnect (s, w) = (Inr (), (device_disconnect (fst s), snd s), w)"
| "device_do J DGetStatus (s, w) = (case device_getStatus J s of (r, s') \<Rightarrow> (r, s', w))"
| "device_do J DLaunch (s, w) = (case launchDefaultMediaReceiver J s of (r, s') \<Rightarrow> (r, s', w))"
| "device_do J DStopApp (s, w) = (case stopApp J s of (r, s') \<Rightarrow> (r, s', w))"
| "device_do J (DSetVolume l) (s, w) = (case setVolume J l s of (r, s') \<Rightarrow> (r, s', w))"
| "device_do J (DSetMuted m) (s, w) = (case setMuted J m s of (r, s') \<Rightarrow> (r, s', w))"
| "device_do J (DLoad u c t) (s, w) = (case loadMedia J u c t s of (r, s') \<Rightarrow> (r, s', w))"
| "device_do J DPlay (s, w) = (case device_play J s of (r, s') \<Rightarrow> (r, s', w))"
| "device_do J DPause (s, w) = (case device_pause J s of (r, s') \<Rightarrow> (r, s', w))"
| "device_do J DStopMedia (s, w) = (case stopMedia J s of (r, s') \<Rightarrow> (r, s', w))"
| "device_do J (DSeek t) (s, w) = (case device_seek J t s of (r, s') \<Rightarrow> (r, s', w))"
| "device_do J (DIncoming m) (s, w) =
     (if cd_channel (fst s) = None then (Inr (), s, w) else on_channel_step J (Callback m) (s, w))"

definition device_run :: "'j json_api \<Rightarrow> device_op list \<Rightarrow> 'w device_io \<times> 'w \<Rightarrow> 'w device_io \<times> 'w" where
  "device_run J ops s = fold (\<lambda>op s. snd (device_do J op s)) ops s"

record cast_session =
  se_open :: bool
  se_app :: string
  se_transport :: string
  se_media :: int

definition no_session :: cast_session where
  "no_session = \<lparr>se_open = False, se_app = [], se_transport = [], se_media = -1\<rparr>"

text \<open>What a message announces: an application and its transport, or a media session.\<close>

definition announces :: "'j json_api \<Rightarrow> cast_message \<Rightarrow> cast_session \<Rightarrow> cast_session" where
  "announces J m a =
     (case j_parse J (cm_payload m) of
        None \<Rightarrow> a
      | Some j \<Rightarrow>
          if cm_namespace m = NS_RECEIVER
          then (case read_receiver_status J j of
                  Inr (Some st) \<Rightarrow> a\<lparr>se_app := rs_sessionId st, se_transport := rs_transportId st\<rparr> | _ \<Rightarrow> a)
          else if cm_namespace m = NS_MEDIA
          then (case read_media_status J j of Inr (Some st) \<Rightarrow> a\<lparr>se_media := ms_sessionId st\<rparr> | _ \<Rightarrow> a)
          else a)"

fun session_step :: "'j json_api \<Rightarrow> device_op \<Rightarrow> cast_session \<Rightarrow> cast_session" where
  "session_step J (DConnect n) a = a\<lparr>se_open := True\<rparr>"
| "session_step J DDisconnect a = no_session"
| "session_step J (DIncoming m) a = (if se_open a then announces J m a else a)"
| "session_step J _ a = a"

text \<open>Destination and namespace of the messages of an operation.\<close>

definition receiver_addr :: "cast_session \<Rightarrow> (string \<times> string) list" where
  "receiver_addr a = (if se_open a then [(RECEIVER_ID, NS_RECEIVER)] else [])"

definition media_addr :: "cast_session \<Rightarrow> (string \<times> string) list" where
  "media_addr a = (if se_transport a \<noteq> [] \<and> 0 \<le> se_media a then [(se_transport a, NS_MEDIA)] else [])"

fun session_messages :: "device_op \<Rightarrow> cast_session \<Rightarrow> (string \<times> string) list" where
  "session_messages DStopApp a = (if se_app a = [] then [] else receiver_addr a)"
| "session_messages (DLoad u c t) a =
     (if se_transport a = [] then [] else [(se_transport a, NS_CONNECTION), (se_transport a, NS_MEDIA)])"
| "session_messages DPlay a = media_addr a"
| "session_messages DPause a = media_addr a"
| "session_messages DStopMedia a = media_addr a"
| "session_messages (DSeek t) a = media_addr a"
| "session_messages DDisconnect a = []"
| "session_messages (DIncoming m) a = []"
| "session_messages _ a = receiver_addr a"

definition session_of :: "'w cast_device \<Rightarrow> cast_session" where
  "session_of d = \<lparr>se_open = (cd_channel d \<noteq> None), se_app = cd_sessionId d, se_transport = cd_transportId d,
     se_media = cd_mediaSessionId d\<rparr>"

definition session_wf :: "cast_session \<Rightarrow> bool" where
  "session_wf a \<longleftrightarrow> \<not> se_open a \<longrightarrow> a = no_session"

definition addr :: "cast_message \<times> bool \<Rightarrow> string \<times> string" where
  "addr x = (cm_destination (fst x), cm_namespace (fst x))"

text \<open>Sending keeps the session and logs one message.\<close>

lemma session_of_sel [simp]:
  "se_open (session_of d) \<longleftrightarrow> cd_channel d \<noteq> None" "se_app (session_of d) = cd_sessionId d"
  "se_transport (session_of d) = cd_transportId d" "se_media (session_of d) = cd_mediaSessionId d"
  by (simp_all add: session_of_def)

lemma session_of_eq:
  "session_of d = session_of d' \<longleftrightarrow> (cd_channel d = None \<longleftrightarrow> cd_channel d' = None) \<and> cd_sessionId d = cd_sessionId d'
     \<and> cd_transportId d = cd_transportId d' \<and> cd_mediaSessionId d = cd_mediaSessionId d'"
  by (auto simp: session_of_def)

definition sends :: "'w device_io \<Rightarrow> (string \<times> string) list \<Rightarrow> 'a outcome \<times> 'w device_io \<Rightarrow> bool" where
  "sends s ms r \<longleftrightarrow> (\<exists>x. fst r = Inr x) \<and> session_of (fst (snd r)) = session_of (fst s) \<and>
     map addr (wi_sent (snd (snd r))) = map addr (wi_sent (snd s)) @ ms"

lemma device_send_sends:
  assumes "cd_channel (fst s) \<noteq> None"
  shows "sends s [(cm_destination m, cm_namespace m)] (device_send m s)"
  using assms by (auto simp: sends_def device_send_def session_of_eq addr_def split: prod.splits)

lemma device_sends_to:
  assumes "cd_channel (fst s) \<noteq> None" "cm_destination m = a" "cm_namespace m = b"
  shows "sends s [(a, b)] (device_send m s)"
  using device_send_sends [OF assms(1), of m] assms(2,3) by simp

lemma sends_map [simp]:
  "sends s ms (case r of (x, s') \<Rightarrow> (map_sum id f x, s')) \<longleftrightarrow> sends s ms r"
  by (cases r; cases "fst r") (auto simp: sends_def)

lemma sends_nothing [simp]: "sends s [] (Inr x, s)"
  by (simp add: sends_def)

lemma sends_after_nextId:
  "nextId (fst s) = (i, d) \<Longrightarrow> sends (d, snd s) ms r \<longleftrightarrow> sends s ms r"
  by (auto simp: nextId_def Let_def sends_def session_of_eq)

lemma nextId_keeps:
  "nextId d = (i, d') \<Longrightarrow> cd_channel d' = cd_channel d" "nextId d = (i, d') \<Longrightarrow> cd_transportId d' = cd_transportId d"
  by (auto simp: nextId_def Let_def)

lemma sendReceiverMsg_sends:
  assumes "\<And>j. j_dump J j \<noteq> None"
  shows "sends s (receiver_addr (session_of (fst s))) (sendReceiverMsg J p s)"
proof (cases "cd_channel (fst s) = None")
  case False
  obtain t where t: "j_dump J p = Some t" using assms [of p] by blast
  then show ?thesis
    using t by (auto simp: sendReceiverMsg_def dump_exn_def receiver_addr_def intro!: device_sends_to)
qed (simp add: sendReceiverMsg_def receiver_addr_def)

lemma sendMediaMsg_sends:
  assumes "\<And>j. j_dump J j \<noteq> None" "cd_channel (fst s) \<noteq> None" "cd_transportId (fst s) \<noteq> []"
  shows "sends s [(cd_transportId (fst s), NS_MEDIA)] (sendMediaMsg J p s)"
proof -
  obtain t where t: "j_dump J p = Some t" using assms(1) [of p] by blast
  then show ?thesis
    using assms(2,3) by (auto simp: sendMediaMsg_def dump_exn_def Let_def intro!: device_sends_to)
qed

lemma receiver_request:
  assumes "\<And>j. j_dump J j \<noteq> None"
  shows "sends s (receiver_addr (session_of (fst s))) (case nextId (fst s) of (i, d) \<Rightarrow> sendReceiverMsg J (p i) (d, snd s))"
proof -
  obtain i d where n: "nextId (fst s) = (i, d)" by (cases "nextId (fst s)")
  then have "receiver_addr (session_of d) = receiver_addr (session_of (fst s))"
    by (auto simp: nextId_def Let_def receiver_addr_def)
  with sendReceiverMsg_sends [OF assms, where s = "(d, snd s)" and p = "p i"]
  have "sends (d, snd s) (receiver_addr (session_of (fst s))) (sendReceiverMsg J (p i) (d, snd s))"
    by (simp only: fst_conv)
  then show ?thesis unfolding n prod.case sends_after_nextId [OF n] .
qed

lemma media_request:
  assumes "\<And>j. j_dump J j \<noteq> None" "session_wf (session_of (fst s))"
  shows "sends s (media_addr (session_of (fst s))) (media_command J ty extra s)"
proof (cases "cd_transportId (fst s) = [] \<or> cd_mediaSessionId (fst s) < 0")
  case False
  obtain i d where n: "nextId (fst s) = (i, d)" by (cases "nextId (fst s)")
  have "cd_channel (fst s) \<noteq> None"
    using False assms(2) by (auto simp: session_wf_def no_session_def session_of_def)
  then have "cd_channel (fst (d, snd s)) \<noteq> None" "cd_transportId (fst (d, snd s)) = cd_transportId (fst s)"
    using nextId_keeps [OF n] by simp_all
  with sendMediaMsg_sends [OF assms(1) this(1)] False
  have "sends (d, snd s) [(cd_transportId (fst s), NS_MEDIA)] (sendMediaMsg J p (d, snd s))" for p by simp
  then have "sends s [(cd_transportId (fst s), NS_MEDIA)] (sendMediaMsg J p (d, snd s))" for p
    unfolding sends_after_nextId [OF n] .
  moreover have "media_addr (session_of (fst s)) = [(cd_transportId (fst s), NS_MEDIA)]"
    using False by (simp add: media_addr_def)
  ultimately show ?thesis unfolding media_command_def Let_def n prod.case using False by simp
qed (auto simp: media_command_def media_addr_def)

lemma sends_trans:
  "sends s ms (r, s') \<Longrightarrow> sends s' ns r' \<Longrightarrow> sends s (ms @ ns) r'"
  by (auto simp: sends_def)

lemma load_request:
  assumes "\<And>j. j_dump J j \<noteq> None" "session_wf (session_of (fst s))"
  shows "sends s (session_messages (DLoad u c t) (session_of (fst s))) (loadMedia J u c t s)"
proof (cases "cd_transportId (fst s) = []")
  case False
  let ?tr = "cd_transportId (fst s)"
  have op: "cd_channel (fst s) \<noteq> None"
    using False assms(2) by (auto simp: session_wf_def no_session_def session_of_def)
  obtain r s1 where s1: "device_send (connect_message SENDER_ID ?tr) s = (r, s1)"
    by (cases "device_send (connect_message SENDER_ID ?tr) s")
  with device_send_sends [OF op, of "connect_message SENDER_ID ?tr"]
  have s: "sends s [(?tr, NS_CONNECTION)] (r, s1)" by (simp add: connect_message_def)
  then obtain ok where ok: "r = Inr ok" "cd_channel (fst s1) \<noteq> None" "cd_transportId (fst s1) = ?tr"
    using op by (auto simp: sends_def session_of_eq)
  obtain i d where n: "nextId (fst s1) = (i, d)" by (cases "nextId (fst s1)")
  have "cd_channel (fst (d, snd s1)) \<noteq> None" "cd_transportId (fst (d, snd s1)) = ?tr"
    using ok(2,3) nextId_keeps [OF n] by simp_all
  with sendMediaMsg_sends [OF assms(1) this(1)] False
  have "sends (d, snd s1) [(?tr, NS_MEDIA)] (sendMediaMsg J p (d, snd s1))" for p by simp
  then have "sends s1 [(?tr, NS_MEDIA)] (sendMediaMsg J p (d, snd s1))" for p
    unfolding sends_after_nextId [OF n] .
  from sends_trans [OF s this] False s1 ok(1) n show ?thesis by (simp add: loadMedia_def Let_def)
qed (simp add: loadMedia_def)

section \<open>The device implements the session\<close>

definition step_sends :: "'w device_io \<Rightarrow> 'w \<Rightarrow> (string \<times> string) list \<Rightarrow> unit outcome \<times> 'w device_io \<times> 'w \<Rightarrow> bool" where
  "step_sends s w ms x \<longleftrightarrow> snd (snd x) = w \<and> sends s ms (fst x, fst (snd x))"

lemma sends_step:
  "sends s ms r \<Longrightarrow> step_sends s w ms (case r of (x, s') \<Rightarrow> (x, s', w))"
  by (cases r) (simp add: step_sends_def)

lemma device_do_sends:
  assumes "\<And>j. j_dump J j \<noteq> None" "session_wf (session_of (fst s))"
    and "\<not> (\<exists>n. op = DConnect n)" "op \<noteq> DDisconnect" "\<not> (\<exists>m. op = DIncoming m)"
  shows "step_sends s w (session_messages op (session_of (fst s))) (device_do J op (s, w))"
proof -
  note requests = receiver_request [OF assms(1)] media_request [OF assms(1,2)] load_request [OF assms(1,2)]
  have stop: "sends s (session_messages DStopApp (session_of (fst s))) (stopApp J s)"
    using requests(1) [where s = s] by (auto simp: stopApp_def Let_def)
  show ?thesis
    using assms(3-5)
    by (cases op) (simp_all del: session_messages.simps(1,2) add: sends_step [OF stop] sends_step [OF requests(3)]
        sends_step [OF requests(2)] sends_step [OF requests(1)]
        device_getStatus_def launchDefaultMediaReceiver_def setVolume_def setMuted_def
        device_play_def device_pause_def stopMedia_def device_seek_def)
qed

lemma receiver_status_session:
  "session_of (fst (snd (handleReceiverStatus J j (d, w)))) =
     (case read_receiver_status J j of
        Inr (Some st) \<Rightarrow> (session_of d)\<lparr>se_app := rs_sessionId st, se_transport := rs_transportId st\<rparr> | _ \<Rightarrow> session_of d)"
  by (simp add: handleReceiverStatus_def session_of_def split: sum.split option.split prod.split)

lemma media_status_session:
  "session_of (fst (snd (handleMediaStatus J j (d, w)))) =
     (case read_media_status J j of Inr (Some st) \<Rightarrow> (session_of d)\<lparr>se_media := ms_sessionId st\<rparr> | _ \<Rightarrow> session_of d)"
  by (simp add: handleMediaStatus_def session_of_def split: sum.split option.split prod.split)

lemma handleMessage_session:
  "session_of (fst (snd (handleMessage J m (d, w)))) = announces J m (session_of d)"
  by (cases "j_parse J (cm_payload m)")
    (simp_all add: handleMessage_def announces_def receiver_status_session media_status_session case_prod_beta)

lemma device_connect_session:
  assumes "\<And>j. j_dump J j \<noteq> None"
  shows "session_of (fst (snd (device_connect J n s))) = (session_of (fst s))\<lparr>se_open := True\<rparr>"
proof -
  obtain b c where c: "channel_connect n channel_new = (b, c)" by (cases "channel_connect n channel_new")
  define s1 where "s1 = ((fst s)\<lparr>cd_channel := Some c\<rparr>, snd s)"
  have s1: "session_of (fst s1) = (session_of (fst s))\<lparr>se_open := True\<rparr>" by (simp add: s1_def session_of_def)
  obtain r s2 where s2: "device_send (connect_message ''sender-0'' ''receiver-0'') s1 = (r, s2)"
    by (cases "device_send (connect_message ''sender-0'' ''receiver-0'') s1")
  have "cd_channel (fst s1) \<noteq> None" by (simp add: s1_def)
  from device_send_sends [OF this, of "connect_message ''sender-0'' ''receiver-0''"] s2
  have r: "r \<noteq> Inl e" "session_of (fst s2) = session_of (fst s1)" for e by (auto simp: sends_def)
  obtain ok where ok: "r = Inr ok" using r(1) by (cases r) auto
  obtain q s3 where s3: "device_getStatus J s2 = (q, s3)" by (cases "device_getStatus J s2")
  have "sends s2 (receiver_addr (session_of (fst s2))) (device_getStatus J s2)"
    unfolding device_getStatus_def by (rule receiver_request [OF assms])
  then have "session_of (fst s3) = session_of (fst s2)" using s3 by (simp add: sends_def)
  with c s1 s2 s3 ok r(2) show ?thesis
    by (cases b; cases ok) (simp_all add: device_connect_def flip: s1_def)
qed

lemma device_do_session:
  assumes "\<And>j. j_dump J j \<noteq> None" "session_wf (session_of (fst s))"
  shows "session_of (fst (fst (snd (device_do J op (s, w))))) = session_step J op (session_of (fst s))"
proof (cases op)
  case (DConnect n)
  then show ?thesis using device_connect_session [OF assms(1), of n s] by (simp add: case_prod_beta)
next
  case DDisconnect
  then show ?thesis using assms(2)
    by (auto simp: session_wf_def device_disconnect_def session_of_def no_session_def)
next
  case (DIncoming m)
  obtain d io where s: "s = (d, io)" by (cases s)
  show ?thesis using DIncoming s handleMessage_session [of J m d w] by (simp add: case_prod_beta)
qed (use device_do_sends [OF assms, of op w] in \<open>simp_all add: step_sends_def sends_def\<close>)

lemma announces_open [simp]: "se_open (announces J m a) = se_open a"
  by (simp add: announces_def split: option.split sum.split)

lemma session_step_wf: "session_wf a \<Longrightarrow> session_wf (session_step J op a)"
  by (cases op) (auto simp: session_wf_def)

lemma device_run_session:
  assumes "\<And>j. j_dump J j \<noteq> None"
  shows "session_wf (session_of (fst (fst s))) \<Longrightarrow>
    session_of (fst (fst (device_run J ops s))) = fold (session_step J) ops (session_of (fst (fst s))) \<and>
    session_wf (session_of (fst (fst (device_run J ops s))))"
proof (induction ops arbitrary: s)
  case (Cons op ops)
  obtain s1 w1 where s: "s = (s1, w1)" by (cases s)
  have step: "session_of (fst (fst (snd (device_do J op s)))) = session_step J op (session_of (fst (fst s)))"
    using device_do_session [OF assms, of s1 op w1] Cons.prems s by simp
  have run: "device_run J (op # ops) s = device_run J ops (snd (device_do J op s))" by (simp add: device_run_def)
  from Cons.IH [of "snd (device_do J op s)", unfolded step, OF session_step_wf [OF Cons.prems]] show ?case
    unfolding run fold_simps comp_apply .
qed (simp add: device_run_def)

section \<open>Properties\<close>


definition cast_api :: "json json_api" where
  "cast_api = (table_json
     [(''R'', JObject [(''type'', JString ''RECEIVER_STATUS''), (''status'', JObject [(''applications'',
          JArray [JObject [(''sessionId'', JString ''app-1''), (''transportId'', JString ''web-4'')]])])]),
      (''M'', JObject [(''type'', JString ''MEDIA_STATUS''), (''status'', JArray [JObject [(''mediaSessionId'', JInt 7)]])])])
     \<lparr>j_dump := (\<lambda>j. Some [])\<rparr>"


end
