(* ===== verification/Chromecast_Module.thy ===== *)
theory Chromecast_Module
  imports Cast_Device Event_Task
begin

text \<open>
  \<open>ChromecastModule\<close> (src/modules/NexusChromecastModule/src/ChromecastModule.cpp): a plugin that
  turns \<open>chromecast.command\<close> events into device commands and what the devices report into
  events. The callbacks it gives to its devices work on \<open>cast_env\<close>: whether the bus pointer is
  set, the bus, and the lines of the module's logger.
\<close>

section \<open>State\<close>

record 'c cast_env =
  ce_has_bus :: bool
  ce_bus :: "'c bus"
  ce_log :: "(log_level \<times> string) list"

record 'c cast_module =
  cs_env :: "'c cast_env"
  cs_subIds :: "int list"
  cs_devices :: "(string \<times> 'c cast_env cast_device) list"

definition module_log :: "log_level \<Rightarrow> string \<Rightarrow> 'c cast_env \<Rightarrow> 'c cast_env" where
  "module_log l t e = e\<lparr>ce_log := ce_log e @ [(l, t)]\<rparr>"

definition cast_module_new :: "'c bus \<Rightarrow> 'c cast_module" where
  "cast_module_new b = \<lparr>cs_env = \<lparr>ce_has_bus = False, ce_bus = b, ce_log = []\<rparr>, cs_subIds = [], cs_devices = []\<rparr>"

section \<open>Lifecycle\<close>

text \<open>\<open>c\<close> stands for the listener that calls \<open>handleCommand\<close>.\<close>

definition cast_initialize :: "'c \<Rightarrow> 'c cast_module \<Rightarrow> 'c cast_module" where
  "cast_initialize c m =
     (case bus_subscribe ''chromecast.command'' c (ce_bus (cs_env m)) of
        (lid, b) \<Rightarrow>
          m\<lparr>cs_env := module_log LInfo
                (''ChromecastModule initialized '' @ [CHR 0xE2, CHR 0x80, CHR 0x94] @ '' listening on chromecast.command'')
                ((cs_env m)\<lparr>ce_has_bus := True, ce_bus := b\<rparr>),
            cs_subIds := cs_subIds m @ [lid]\<rparr>)"

text \<open>Destroying a device after \<open>disconnect\<close> has no further effect.\<close>

definition cast_shutdown :: "'c cast_module \<Rightarrow> 'c cast_module" where
  "cast_shutdown m =
     (let e = cs_env m;
          m1 = (if ce_has_bus e
                then m\<lparr>cs_env := e\<lparr>ce_bus := fold (bus_unsubscribe ''chromecast.command'') (cs_subIds m) (ce_bus e)\<rparr>, cs_subIds := []\<rparr>
                else m)
      in m1\<lparr>cs_devices := [], cs_env := module_log LInfo ''ChromecastModule shut down'' (cs_env m1)\<rparr>)"

section \<open>Devices\<close>

definition publish_json :: "'j json_api \<Rightarrow> string \<Rightarrow> 'j \<Rightarrow> 'c cast_env effect" where
  "publish_json J name j e =
     (case dump_exn J j of
        Inl x \<Rightarrow> (Inl x, e)
      | Inr t \<Rightarrow> (Inr (), e\<lparr>ce_bus := bus_publish \<lparr>ev_name = name, ev_data = AnyString t\<rparr> (ce_bus e)\<rparr>))"

definition status_event :: "'j json_api \<Rightarrow> string \<Rightarrow> receiver_status \<Rightarrow> 'j" where
  "status_event J host s =
     j_object J [(''host'', j_string J host), (''sessionId'', j_string J (rs_sessionId s)),
       (''transportId'', j_string J (rs_transportId s)), (''appId'', j_string J (rs_appId s)),
       (''displayName'', j_string J (rs_displayName s)), (''isIdleScreen'', j_bool J (rs_isIdleScreen s)),
       (''volume'', j_double J (rs_volumeLevel s)), (''muted'', j_bool J (rs_muted s))]"

definition media_event :: "'j json_api \<Rightarrow> string \<Rightarrow> media_status \<Rightarrow> 'j" where
  "media_event J host s =
     j_object J [(''host'', j_string J host), (''mediaSessionId'', j_int J (ms_sessionId s)),
       (''playerState'', j_string J (ms_playerState s)), (''currentTime'', j_double J (ms_currentTime s)),
       (''duration'', j_double J (ms_duration s)), (''title'', j_string J (ms_title s)),
       (''contentId'', j_string J (ms_contentId s)), (''contentType'', j_string J (ms_contentType s))]"

definition on_status :: "'j json_api \<Rightarrow> string \<Rightarrow> receiver_status \<Rightarrow> 'c cast_env effect" where
  "on_status J host s e =
     (if \<not> ce_has_bus e then (Inr (), e) else publish_json J ''chromecast.status'' (status_event J host s) e)"

definition on_media :: "'j json_api \<Rightarrow> string \<Rightarrow> media_status \<Rightarrow> 'c cast_env effect" where
  "on_media J host s e =
     (if \<not> ce_has_bus e then (Inr (), e) else publish_json J ''chromecast.media'' (media_event J host s) e)"

definition on_error :: "'j json_api \<Rightarrow> string \<Rightarrow> string \<Rightarrow> 'c cast_env effect" where
  "on_error J host err e0 =
     (let e = module_log LError (''['' @ host @ ''] '' @ err) e0
      in if \<not> ce_has_bus e then (Inr (), e)
         else publish_json J ''chromecast.error'' (j_object J [(''host'', j_string J host), (''error'', j_string J err)]) e)"

definition device_key :: "string \<Rightarrow> int \<Rightarrow> string" where
  "device_key host port = host @ '':'' @ int_to_string port"

definition module_device :: "'j json_api \<Rightarrow> string \<Rightarrow> int \<Rightarrow> 'c cast_env cast_device" where
  "module_device J host port =
     (cast_device_new host port)\<lparr>cd_onStatus := Some (on_status J host), cd_onMedia := Some (on_media J host),
        cd_onError := Some (on_error J host)\<rparr>"

text \<open>The reference returned is the device and its key, under which it is stored.\<close>

definition getOrCreate ::
  "'j json_api \<Rightarrow> string \<Rightarrow> int \<Rightarrow> 'c cast_module \<Rightarrow> (string \<times> 'c cast_env cast_device) \<times> 'c cast_module" where
  "getOrCreate J host port m =
     (let key = device_key host port
      in case map_of (cs_devices m) key of
           Some d \<Rightarrow> ((key, d), m)
         | None \<Rightarrow>
             let d = module_device J host port
             in ((key, d), m\<lparr>cs_devices := assoc_set key d (cs_devices m)\<rparr>))"

section \<open>Commands\<close>

text \<open>
  The chain of actions on the device; the value is a warning to log. Reading an argument
  of the command throws when it has the wrong type.
\<close>

definition with_arg :: "'a outcome \<Rightarrow> ('a \<Rightarrow> 'w device_io \<Rightarrow> 'b outcome \<times> 'w device_io) \<Rightarrow> 'w device_io \<Rightarrow> 'b outcome \<times> 'w device_io" where
  "with_arg r f s = (case r of Inl e \<Rightarrow> (Inl e, s) | Inr x \<Rightarrow> f x s)"

definition quietly :: "unit outcome \<times> 'w device_io \<Rightarrow> string option outcome \<times> 'w device_io" where
  "quietly r = (map_sum id (\<lambda>_. None) (fst r), snd r)"

definition device_action ::
  "'j json_api \<Rightarrow> net \<Rightarrow> 'j \<Rightarrow> string \<Rightarrow> 'w device_io \<Rightarrow> string option outcome \<times> 'w device_io" where
  "device_action J n cmd action s =
     (if action = ''connect'' then
        (if \<not> device_isConnected (fst s)
         then (case device_connect J n s of (r, s') \<Rightarrow> (map_sum id (\<lambda>_. None) r, s')) else (Inr None, s))
      else if action = ''disconnect'' then (Inr None, device_disconnect (fst s), snd s)
      else if action = ''getStatus'' then quietly (device_getStatus J s)
      else if action = ''launchMediaReceiver'' then quietly (launchDefaultMediaReceiver J s)
      else if action = ''stopApp'' then quietly (stopApp J s)
      else if action = ''play'' then quietly (device_play J s)
      else if action = ''pause'' then quietly (device_pause J s)
      else if action = ''stopMedia'' then quietly (stopMedia J s)
      else if action = ''seek'' then
        with_arg (j_value_double J cmd ''seconds'' dbl_zero) (\<lambda>x s. quietly (device_seek J x s)) s
      else if action = ''setVolume'' then
        with_arg (j_value_double J cmd ''level'' dbl_one) (\<lambda>x s. quietly (setVolume J x s)) s
      else if action = ''setMuted'' then
        with_arg (j_value_bool J cmd ''muted'' False) (\<lambda>x s. quietly (setMuted J x s)) s
      else if action = ''loadMedia'' then
        with_arg (j_value_string J cmd ''url'' []) (\<lambda>url s.
          if url = [] then (Inr (Some ''loadMedia: 'url' is required''), s)
          else with_arg (j_value_string J cmd ''contentType'' ''video/mp4'') (\<lambda>ct.
               with_arg (j_value_string J cmd ''title'' []) (\<lambda>ti s. quietly (loadMedia J url ct ti s))) s) s
      else (Inr (Some (''chromecast.command: unknown action '' @ [CHR 0x27] @ action @ [CHR 0x27])), s))"

definition log_to :: "log_level \<Rightarrow> string \<Rightarrow> 'c cast_module \<Rightarrow> 'c cast_module" where
  "log_to l t m = m\<lparr>cs_env := module_log l t (cs_env m)\<rparr>"

definition run_command ::
  "'j json_api \<Rightarrow> net \<Rightarrow> 'j \<Rightarrow> string \<times> int \<times> string \<Rightarrow> wire \<Rightarrow> 'c cast_module \<Rightarrow> unit outcome \<times> wire \<times> 'c cast_module" where
  "run_command J n cmd target io m =
     (case target of (host, port, action) \<Rightarrow>
        case getOrCreate J host port m of ((key, d), m1) \<Rightarrow>
        case device_action J n cmd action (d, io) of (r, (d', io')) \<Rightarrow>
          let m2 = m1\<lparr>cs_devices := assoc_set key d' (cs_devices m1)\<rparr>
          in case r of
               Inl e \<Rightarrow> (Inl e, io', m2)
             | Inr None \<Rightarrow> (Inr (), io', m2)
             | Inr (Some warning) \<Rightarrow> (Inr (), io', log_to LWarning warning m2))"

definition read_target :: "'j json_api \<Rightarrow> 'j \<Rightarrow> (string \<times> int \<times> string) outcome" where
  "read_target J cmd =
     bind_exn (j_value_string J cmd ''host'' []) (\<lambda>host.
     bind_exn (j_value_int J cmd ''port'' 8009) (\<lambda>port.
     bind_exn (j_value_string J cmd ''action'' []) (\<lambda>action. Inr (host, port, action))))"

definition handleCommand ::
  "'j json_api \<Rightarrow> net \<Rightarrow> event \<Rightarrow> wire \<Rightarrow> 'c cast_module \<Rightarrow> unit outcome \<times> wire \<times> 'c cast_module" where
  "handleCommand J n ev io m =
     (case ev_data ev of
        AnyString payload \<Rightarrow>
          (case j_parse J payload of
             None \<Rightarrow> (Inr (), io, log_to LError ''chromecast.command: invalid JSON'' m)
           | Some cmd \<Rightarrow>
               (case read_target J cmd of
                  Inl e \<Rightarrow> (Inl e, io, m)
                | Inr target \<Rightarrow>
                    if fst target = [] \<or> snd (snd target) = []
                    then (Inr (), io, log_to LWarning ''chromecast.command: 'host' and 'action' are required'' m)
                    else run_command J n cmd target io m))
      | _ \<Rightarrow> (Inr (), io, log_to LError ''chromecast.command: payload must be a JSON string'' m))"

text \<open>A step of the receive thread of the device stored under a key.\<close>

definition device_message ::
  "'j json_api \<Rightarrow> string \<Rightarrow> channel_step \<Rightarrow> wire \<Rightarrow> 'c cast_module \<Rightarrow> unit outcome \<times> wire \<times> 'c cast_module" where
  "device_message J key step io m =
     (case map_of (cs_devices m) key of
        None \<Rightarrow> (Inr (), io, m)
      | Some d \<Rightarrow>
          if cd_channel d = None then (Inr (), io, m)
          else case on_channel_step J step ((d, io), cs_env m) of
                 (r, (d', io'), e) \<Rightarrow>
                   (r, io', m\<lparr>cs_env := e, cs_devices := assoc_set key d' (cs_devices m)\<rparr>))"

section \<open>Lemmas\<close>

text \<open>The key of a device names exactly one host and port.\<close>

lemma dec_digit_val: "d < 10 \<Longrightarrow> hex_digit_val (dec_digit d) = d"
proof -
  have "\<forall>d<10. hex_digit_val (dec_digit d) = d"
    by (simp add: hex_digit_val_def dec_digit_def numeral_eq_Suc All_less_Suc)
  then show "d < 10 \<Longrightarrow> hex_digit_val (dec_digit d) = d" by blast
qed

lemma dec_digit_range: "d < 10 \<Longrightarrow> dec_digit d \<in> set ''0123456789''"
  unfolding dec_digit_def by (rule nth_mem) simp

lemma nat_to_string_chars: "set (nat_to_string n) \<subseteq> set ''0123456789''"
  using base_digits_less [of 10] dec_digit_range by (fastforce simp: nat_to_string_def)

lemma nat_to_string_inj: "nat_to_string n = nat_to_string k \<longleftrightarrow> n = k"
proof
  assume e: "nat_to_string n = nat_to_string k"
  have v: "map hex_digit_val (nat_to_string i) = base_digits 10 i" for i
    using base_digits_less [of 10] by (simp add: nat_to_string_def map_idI dec_digit_val)
  from e have "base_digits 10 n = base_digits 10 k" by (metis v)
  then show "n = k" by (metis digits_val_base_digits)
qed simp

lemma no_minus: "CHR ''-'' \<notin> set (nat_to_string n)"
  using nat_to_string_chars [of n] by auto

lemma int_to_string_inj: "int_to_string i = int_to_string j \<longleftrightarrow> i = j"
proof
  have ne: "CHR ''-'' # xs \<noteq> nat_to_string n" for xs n using no_minus [of n] by (metis list.set_intros(1))
  assume e: "int_to_string i = int_to_string j"
  show "i = j"
  proof (cases "i < 0"; cases "j < 0")
    assume "\<not> i < 0" "\<not> j < 0"
    with e have "nat i = nat j" by (simp add: int_to_string_def nat_to_string_inj)
    with \<open>\<not> i < 0\<close> \<open>\<not> j < 0\<close> show ?thesis by simp
  next
    assume "i < 0" "j < 0"
    with e have "nat (- i) = nat (- j)" by (simp add: int_to_string_def nat_to_string_inj)
    with \<open>i < 0\<close> \<open>j < 0\<close> show ?thesis by simp
  next
    assume "i < 0" "\<not> j < 0"
    with e ne show ?thesis by (simp add: int_to_string_def)
  next
    assume "\<not> i < 0" "j < 0"
    with e [symmetric] ne show ?thesis by (simp add: int_to_string_def)
  qed
qed simp

lemma int_to_string_no_colon: "CHR '':'' \<notin> set (int_to_string i)"
  using nat_to_string_chars [of "nat i"] nat_to_string_chars [of "nat (- i)"] by (auto simp: int_to_string_def)

lemma takeWhile_separator: "c \<notin> set xs \<Longrightarrow> takeWhile (\<lambda>x. x \<noteq> c) (xs @ c # ys) = xs"
  by (induction xs) auto

lemma device_key_inj: "device_key h p = device_key h' p' \<longleftrightarrow> h = h' \<and> p = p'"
proof
  assume e: "device_key h p = device_key h' p'"
  have rev_key: "rev (device_key h p) = rev (int_to_string p) @ CHR '':'' # rev h" for h p
    by (simp add: device_key_def)
  have "takeWhile (\<lambda>c. c \<noteq> CHR '':'') (rev (device_key h p)) = rev (int_to_string p)" for h p
    unfolding rev_key by (rule takeWhile_separator) (simp add: int_to_string_no_colon)
  with e have "rev (int_to_string p) = rev (int_to_string p')" by metis
  then have p: "p = p'" by (simp add: int_to_string_inj)
  from e show "h = h' \<and> p = p'" unfolding device_key_def p by simp
qed simp

text \<open>Operations keep the identity and the callbacks of a device.\<close>

definition wiring :: "'w cast_device \<Rightarrow> 'w cast_device" where
  "wiring d = d\<lparr>cd_channel := None, cd_requestId := 0, cd_lastStatus := None, cd_lastMedia := None, cd_sessionId := [],
     cd_transportId := [], cd_mediaSessionId := -1\<rparr>"

lemma wiring_update [simp]:
  "wiring (d\<lparr>cd_channel := c\<rparr>) = wiring d" "wiring (d\<lparr>cd_requestId := r\<rparr>) = wiring d"
  "wiring (d\<lparr>cd_lastStatus := ls\<rparr>) = wiring d" "wiring (d\<lparr>cd_lastMedia := lm\<rparr>) = wiring d"
  "wiring (d\<lparr>cd_sessionId := x\<rparr>) = wiring d" "wiring (d\<lparr>cd_transportId := x\<rparr>) = wiring d"
  "wiring (d\<lparr>cd_mediaSessionId := i\<rparr>) = wiring d"
  by (simp_all add: wiring_def)

lemma wiring_nextId [simp]: "wiring (snd (nextId d)) = wiring d"
  by (simp add: nextId_def Let_def)

lemma wiring_send [simp]: "wiring (fst (snd (device_send msg s))) = wiring (fst s)"
  by (simp add: device_send_def split: option.split prod.split)

lemma wiring_receiver [simp]: "wiring (fst (snd (sendReceiverMsg J p s))) = wiring (fst s)"
  by (simp add: sendReceiverMsg_def case_prod_beta split: sum.split)

lemma wiring_media [simp]: "wiring (fst (snd (sendMediaMsg J p s))) = wiring (fst s)"
  by (simp add: sendMediaMsg_def case_prod_beta Let_def split: sum.split)

lemma wiring_commands [simp]:
  "wiring (fst (snd (device_getStatus J s))) = wiring (fst s)"
  "wiring (fst (snd (launchDefaultMediaReceiver J s))) = wiring (fst s)"
  "wiring (fst (snd (stopApp J s))) = wiring (fst s)"
  "wiring (fst (snd (setVolume J l s))) = wiring (fst s)"
  "wiring (fst (snd (setMuted J b s))) = wiring (fst s)"
  "wiring (fst (snd (media_command J ty extra s))) = wiring (fst s)"
  "wiring (fst (snd (loadMedia J u c t s))) = wiring (fst s)"
  by (simp_all add: device_getStatus_def launchDefaultMediaReceiver_def stopApp_def setVolume_def setMuted_def
      media_command_def loadMedia_def Let_def case_prod_beta split: sum.split)

lemma wiring_connect [simp]:
  "wiring (fst (snd (device_connect J n s))) = wiring (fst s)" "wiring (device_disconnect d) = wiring d"
  by (simp_all add: device_connect_def device_disconnect_def case_prod_beta split: sum.split bool.split)

lemma wiring_status [simp]: "wiring (fst (snd (handleReceiverStatus J j s))) = wiring (fst s)"
  by (simp add: handleReceiverStatus_def case_prod_beta split: sum.split option.split)

lemma wiring_media_status [simp]: "wiring (fst (snd (handleMediaStatus J j s))) = wiring (fst s)"
  by (simp add: handleMediaStatus_def case_prod_beta split: sum.split option.split)

lemma wiring_message [simp]: "wiring (fst (snd (handleMessage J msg s))) = wiring (fst s)"
  by (simp add: handleMessage_def case_prod_beta split: option.split)

lemma wiring_step [simp]: "wiring (fst (fst (snd (on_channel_step J x s)))) = wiring (fst (fst s))"
  by (cases s; cases "fst s"; cases x) (simp_all add: case_prod_beta)

lemma wiring_action [simp]: "wiring (fst (snd (device_action J n cmd action s))) = wiring (fst s)"
  by (simp add: device_action_def with_arg_def quietly_def device_play_def device_pause_def stopMedia_def device_seek_def
      case_prod_beta split: sum.split)

definition wired :: "'j json_api \<Rightarrow> 'c cast_env cast_device \<Rightarrow> bool" where
  "wired J d \<longleftrightarrow> wiring d = module_device J (cd_host d) (cd_port d)"

lemma wired_new: "wired J (module_device J host port)"
  by (simp add: wired_def wiring_def module_device_def cast_device_new_def)

lemma wiring_sel:
  "cd_host (wiring d) = cd_host d" "cd_port (wiring d) = cd_port d" "cd_onStatus (wiring d) = cd_onStatus d"
  "cd_onMedia (wiring d) = cd_onMedia d" "cd_onError (wiring d) = cd_onError d"
  by (simp_all add: wiring_def)

lemma wired_cong:
  "wired J d \<Longrightarrow> wiring d' = wiring d \<Longrightarrow> wired J d' \<and> cd_host d' = cd_host d \<and> cd_port d' = cd_port d"
  by (metis wired_def wiring_sel(1,2))

lemma wired_callbacks:
  assumes "wired J d"
  shows "cd_onStatus d = Some (on_status J (cd_host d))" "cd_onMedia d = Some (on_media J (cd_host d))"
    "cd_onError d = Some (on_error J (cd_host d))"
proof -
  have "cd_onStatus (wiring d) = Some (on_status J (cd_host d))" "cd_onMedia (wiring d) = Some (on_media J (cd_host d))"
    "cd_onError (wiring d) = Some (on_error J (cd_host d))"
    using assms by (simp_all add: wired_def module_device_def)
  then show "cd_onStatus d = Some (on_status J (cd_host d))" "cd_onMedia d = Some (on_media J (cd_host d))"
    "cd_onError d = Some (on_error J (cd_host d))" by (simp_all add: wiring_sel)
qed

text \<open>What the module keeps: every device is stored under its own key and reports to the module.\<close>

definition module_wf :: "'j json_api \<Rightarrow> 'c cast_module \<Rightarrow> bool" where
  "module_wf J m \<longleftrightarrow>
     (\<forall>k d. map_of (cs_devices m) k = Some d \<longrightarrow> k = device_key (cd_host d) (cd_port d) \<and> wired J d)"

lemma module_wf_set:
  assumes "module_wf J m" "map_of (cs_devices m) key = Some d" "wiring d' = wiring d"
  shows "module_wf J (m\<lparr>cs_devices := assoc_set key d' (cs_devices m)\<rparr>)"
proof -
  from assms(1,2) have d: "key = device_key (cd_host d) (cd_port d)" "wired J d" by (simp_all add: module_wf_def)
  from wired_cong [OF d(2) assms(3)] d(1) assms(1) show ?thesis
    by (auto simp: module_wf_def map_of_assoc_set)
qed

lemma module_wf_env [simp]: "module_wf J (m\<lparr>cs_env := e\<rparr>) = module_wf J m" "module_wf J (log_to l t m) = module_wf J m"
  by (simp_all add: module_wf_def log_to_def)

lemma getOrCreate_device:
  assumes "module_wf J m" "getOrCreate J host port m = ((key, d), m1)"
  shows "key = device_key host port" "map_of (cs_devices m1) key = Some d" "cd_host d = host" "cd_port d = port"
    "module_wf J m1" "k \<noteq> key \<Longrightarrow> map_of (cs_devices m1) k = map_of (cs_devices m) k" "cs_env m1 = cs_env m" "cs_subIds m1 = cs_subIds m"
proof -
  have new: "cd_host (module_device J host port) = host" "cd_port (module_device J host port) = port"
    by (simp_all add: module_device_def cast_device_new_def)
  show "key = device_key host port" "map_of (cs_devices m1) key = Some d" "cs_env m1 = cs_env m" "cs_subIds m1 = cs_subIds m"
    "k \<noteq> key \<Longrightarrow> map_of (cs_devices m1) k = map_of (cs_devices m) k"
    using assms(2) by (auto simp: getOrCreate_def Let_def map_of_assoc_set split: option.splits)
  have "(cd_host d = host \<and> cd_port d = port) \<and> module_wf J m1"
  proof (cases "map_of (cs_devices m) (device_key host port)")
    case (Some d0)
    with assms have "d = d0" "m1 = m" by (simp_all add: getOrCreate_def)
    moreover have "device_key host port = device_key (cd_host d0) (cd_port d0)" using Some assms(1) by (simp add: module_wf_def)
    ultimately show ?thesis using assms(1) by (simp add: device_key_inj)
  next
    case None
    with assms(2) have d: "d = module_device J host port" "m1 = m\<lparr>cs_devices := assoc_set (device_key host port) d (cs_devices m)\<rparr>"
      by (auto simp: getOrCreate_def Let_def)
    show ?thesis using assms(1) new wired_new [of J host port] unfolding d by (auto simp: module_wf_def map_of_assoc_set)
  qed
  then show "cd_host d = host" "cd_port d = port" "module_wf J m1" by simp_all
qed

text \<open>What a command and a message leave of the module.\<close>

lemma run_command_wf:
  assumes "module_wf J m" "run_command J n cmd (host, port, action) io m = (r, io', m')"
  shows "module_wf J m' \<and> (\<exists>d. map_of (cs_devices m') (device_key host port) = Some d \<and> cd_host d = host \<and> cd_port d = port) \<and>
     (\<forall>k. k \<noteq> device_key host port \<longrightarrow> map_of (cs_devices m') k = map_of (cs_devices m) k) \<and>
     cs_subIds m' = cs_subIds m \<and> ce_bus (cs_env m') = ce_bus (cs_env m) \<and> ce_has_bus (cs_env m') = ce_has_bus (cs_env m)"
proof -
  obtain key d m1 where g: "getOrCreate J host port m = ((key, d), m1)" by (metis surj_pair)
  note created = getOrCreate_device [OF assms(1) g]
  obtain q d' io1 where a: "device_action J n cmd action (d, io) = (q, (d', io1))" by (metis surj_pair)
  have w: "wiring d' = wiring d" using wiring_action [of J n cmd action "(d, io)"] a by simp
  have "wired J d" using created(2,5) by (auto simp: module_wf_def)
  from wired_cong [OF this w] module_wf_set [OF created(5,2) w] created(6) g a assms(2) created(1,3,4,7,8)
  show ?thesis
    by (auto simp: run_command_def Let_def map_of_assoc_set log_to_def module_log_def module_wf_env split: sum.splits option.splits)
qed

lemma handleCommand_wf:
  assumes "module_wf J m" "handleCommand J n ev io m = (r, io', m')"
  shows "module_wf J m' \<and> cs_subIds m' = cs_subIds m \<and> ce_bus (cs_env m') = ce_bus (cs_env m) \<and>
    ce_has_bus (cs_env m') = ce_has_bus (cs_env m)"
  using assms run_command_wf [OF assms(1)]
  by (auto simp: handleCommand_def log_to_def module_log_def module_wf_def split: any.splits option.splits sum.splits if_splits prod.splits)

definition listens_alike :: "'c cast_env \<Rightarrow> 'c cast_env \<Rightarrow> bool" where
  "listens_alike e e' \<longleftrightarrow> ce_has_bus e' = ce_has_bus e \<and> bus_listeners (ce_bus e') = bus_listeners (ce_bus e)"

lemma callbacks_listen_alike [simp]:
  "listens_alike e (snd (on_status J h st e))" "listens_alike e (snd (on_media J h ms e))"
  "listens_alike e (snd (on_error J h t e))" "listens_alike e e"
  by (simp_all add: listens_alike_def on_status_def on_media_def on_error_def publish_json_def publish_sel module_log_def Let_def
      split: sum.split)

lemma channel_step_listens_alike:
  assumes "wired J d"
  shows "listens_alike e (snd (snd (on_channel_step J x ((d, io), e))))"
  using wired_callbacks [OF assms]
  by (cases x) (simp_all add: on_disconnected_def call_back_def handleMessage_def handleReceiverStatus_def handleMediaStatus_def
      case_prod_beta split: option.split sum.split)

lemma device_message_wf:
  assumes "module_wf J m" "device_message J key x io m = (r, io', m')"
  shows "module_wf J m' \<and> cs_subIds m' = cs_subIds m \<and> listens_alike (cs_env m) (cs_env m')"
proof (cases "\<exists>d. map_of (cs_devices m) key = Some d \<and> cd_channel d \<noteq> None")
  case False
  with assms show ?thesis by (auto simp: device_message_def split: option.splits if_splits)
next
  case True
  then obtain d where d: "map_of (cs_devices m) key = Some d" "cd_channel d \<noteq> None" by blast
  then have "wired J d" using assms(1) by (auto simp: module_wf_def)
  obtain q d' io1 e where s: "on_channel_step J x ((d, io), cs_env m) = (q, (d', io1), e)" by (metis surj_pair)
  have w: "wiring d' = wiring d" using wiring_step [of J x "((d, io), cs_env m)"] s by simp
  have "module_wf J (m\<lparr>cs_env := e, cs_devices := assoc_set key d' (cs_devices m)\<rparr>)"
    using module_wf_set [OF assms(1) d(1) w] by (simp add: module_wf_def)
  with assms(2) d s channel_step_listens_alike [OF \<open>wired J d\<close>, of "cs_env m" x io] show ?thesis
    by (auto simp: device_message_def)
qed

section \<open>Runs of the module\<close>

datatype cast_op = OpCommand net event wire | OpMessage string channel_step wire

fun cast_do :: "'j json_api \<Rightarrow> cast_op \<Rightarrow> 'c cast_module \<Rightarrow> 'c cast_module" where
  "cast_do J (OpCommand n ev io) m = snd (snd (handleCommand J n ev io m))"
| "cast_do J (OpMessage key x io) m = snd (snd (device_message J key x io m))"

lemma cast_do_wf:
  assumes "module_wf J m"
  shows "module_wf J (cast_do J op m) \<and> cs_subIds (cast_do J op m) = cs_subIds m \<and>
    listens_alike (cs_env m) (cs_env (cast_do J op m))"
proof (cases op)
  case (OpCommand n ev io)
  then show ?thesis
    using handleCommand_wf [OF assms, of n ev io "fst (handleCommand J n ev io m)" "fst (snd (handleCommand J n ev io m))" "cast_do J op m"]
    by (simp add: listens_alike_def)
next
  case (OpMessage key x io)
  then show ?thesis
    using device_message_wf [OF assms, of key x io "fst (device_message J key x io m)" "fst (snd (device_message J key x io m))" "cast_do J op m"]
    by simp
qed

lemma cast_run_wf:
  "module_wf J m \<Longrightarrow> module_wf J (fold (cast_do J) ops m) \<and> cs_subIds (fold (cast_do J) ops m) = cs_subIds m \<and>
    listens_alike (cs_env m) (cs_env (fold (cast_do J) ops m))"
proof (induction ops arbitrary: m)
  case (Cons op ops)
  from cast_do_wf [OF Cons.prems, of op] Cons.IH [of "cast_do J op m"] show ?case
    by (simp add: listens_alike_def)
qed simp

lemma cast_initialize_wf [simp]: "module_wf J (cast_initialize c (cast_module_new b))"
  by (simp add: module_wf_def cast_initialize_def cast_module_new_def split: prod.split)

lemma cast_initialize_has_bus [simp]: "ce_has_bus (cs_env (cast_initialize c m))"
  by (simp add: cast_initialize_def module_log_def split: prod.split)

section \<open>Properties\<close>



text \<open>
  C35: what a device reports reaches the bus. When a receiver status arrives at a device that is
  connected, in whatever state the module is, the device keeps it as its last status, and exactly
  one event, \<open>chromecast.status\<close> with the host and the values of the status, is published.
\<close>

theorem device_status_becomes_an_event:
  assumes "m = fold (cast_do J) ops (cast_initialize c (cast_module_new b))"
    and "map_of (cs_devices m) (device_key host port) = Some d" "cd_channel d \<noteq> None"
    and "cm_namespace msg = NS_RECEIVER" "j_parse J (cm_payload msg) = Some j"
    and "read_receiver_status J j = Inr (Some st)" "j_dump J (status_event J host st) = Some t"
    and "device_message J (device_key host port) (Callback msg) io m = (r, io', m')"
  shows "r = Inr () \<and> io' = io \<and>
    cs_env m' = (cs_env m)\<lparr>ce_bus := bus_publish \<lparr>ev_name = ''chromecast.status'', ev_data = AnyString t\<rparr> (ce_bus (cs_env m))\<rparr> \<and>
    map_option cd_lastStatus (map_of (cs_devices m') (device_key host port)) = Some (Some st)"
proof -
  have run: "module_wf J m" "listens_alike (cs_env (cast_initialize c (cast_module_new b))) (cs_env m)"
    unfolding assms(1) by (simp_all add: cast_run_wf)
  from run(1) assms(2) have d: "wired J d" "device_key host port = device_key (cd_host d) (cd_port d)" by (simp_all add: module_wf_def)
  then have host: "cd_host d = host" by (simp add: device_key_inj)
  from run(2) have "ce_has_bus (cs_env m)"
    by (simp add: listens_alike_def)
  then have "on_status J host st (cs_env m) = (Inr (), (cs_env m)\<lparr>ce_bus :=
      bus_publish \<lparr>ev_name = ''chromecast.status'', ev_data = AnyString t\<rparr> (ce_bus (cs_env m))\<rparr>)"
    using assms(7) by (simp add: on_status_def publish_json_def dump_exn_def)
  with wired_callbacks [OF d(1)] host assms(2-6,8) show ?thesis
    by (auto simp: device_message_def handleMessage_def handleReceiverStatus_def call_back_def map_of_assoc_set)
qed

definition status_api :: "json json_api" where
  "status_api = table_json
     [(''c'', JObject [(''host'', JString ''tv''), (''action'', JString ''connect'')]),
      (''R'', JObject [(''type'', JString ''RECEIVER_STATUS''), (''status'', JObject [])]),
      (''S'', JObject [(''host'', JString ''tv''), (''sessionId'', JString []), (''transportId'', JString []), (''appId'', JString []),
         (''displayName'', JString []), (''isIdleScreen'', JBool True), (''volume'', JDouble dbl_one), (''muted'', JBool False)])]"

definition status_ops :: "cast_op list" where
  "status_ops = [OpCommand \<lparr>nt_resolved = True, nt_socket = Some 3, nt_connected = True, nt_ctx = Some 1, nt_ssl = Some 1, nt_handshake = True\<rparr>
     \<lparr>ev_name = ''chromecast.command'', ev_data = AnyString ''c''\<rparr> \<lparr>wi_writes = [], wi_sent = []\<rparr>]"

lemma device_status_becomes_an_event_witness:
  "\<exists>r io' m' d. device_message status_api (device_key ''tv'' 8009)
      (Callback \<lparr>cm_source = [], cm_destination = [], cm_namespace = NS_RECEIVER, cm_payload = ''R''\<rparr>) \<lparr>wi_writes = [], wi_sent = []\<rparr>
      (fold (cast_do status_api) status_ops (cast_initialize () (cast_module_new new_bus))) = (r, io', m') \<and>
    r = Inr () \<and> map_of (cs_devices m') (device_key ''tv'' 8009) = Some d \<and> cd_lastStatus d = Some receiver_status_new"
proof -
  let ?m = "fold (cast_do status_api) status_ops (cast_initialize () (cast_module_new new_bus))"
  obtain r io' m' where h: "device_message status_api (device_key ''tv'' 8009)
      (Callback \<lparr>cm_source = [], cm_destination = [], cm_namespace = NS_RECEIVER, cm_payload = ''R''\<rparr>) \<lparr>wi_writes = [], wi_sent = []\<rparr> ?m = (r, io', m')"
    by (metis surj_pair)
  have "read_target status_api (JObject [(''host'', JString ''tv''), (''action'', JString ''connect'')]) = Inr (''tv'', 8009, ''connect'')"
    by (simp add: read_target_def status_api_def)
  moreover have "j_parse status_api ''c'' = Some (JObject [(''host'', JString ''tv''), (''action'', JString ''connect'')])"
    by (simp add: status_api_def)
  moreover define d0 :: "unit cast_env cast_device" where "d0 = module_device status_api ''tv'' 8009"
  moreover define net0 where "net0 = \<lparr>nt_resolved = True, nt_socket = Some (3::int), nt_connected = True, nt_ctx = Some (1::nat),
      nt_ssl = Some (1::nat), nt_handshake = True\<rparr>"
  moreover obtain q c io1 where "device_connect status_api net0 (d0, \<lparr>wi_writes = [], wi_sent = []\<rparr>) = (q, (d0\<lparr>cd_channel := Some c\<rparr>, io1))"
    by (simp add: net0_def device_connect_def channel_connect_def channel_new_def tls_connect_def tls_new_def tls_disconnect_def
        tls_log_def Let_def device_send_def channel_send_def tls_sendAll_def cast_packet_def)
  moreover have "\<not> device_isConnected d0" by (simp add: d0_def device_isConnected_def module_device_def cast_device_new_def)
  ultimately have "\<exists>d. map_of (cs_devices ?m) (device_key ''tv'' 8009) = Some d \<and> cd_channel d \<noteq> None"
    by (auto simp: status_ops_def handleCommand_def run_command_def getOrCreate_def cast_initialize_def cast_module_new_def
        device_action_def Let_def map_of_assoc_set log_to_def d0_def [symmetric]
        split: prod.split sum.split option.split)
  then obtain d where d: "map_of (cs_devices ?m) (device_key ''tv'' 8009) = Some d" "cd_channel d \<noteq> None" by blast
  have "read_receiver_status status_api (JObject [(''type'', JString ''RECEIVER_STATUS''), (''status'', JObject [])]) =
      Inr (Some receiver_status_new)"
    by (simp add: read_receiver_status_def read_volume_def read_application_def status_api_def receiver_status_new_def)
  moreover have "j_dump status_api (status_event status_api ''tv'' receiver_status_new) = Some ''S''"
    by (simp add: status_api_def status_event_def receiver_status_new_def)
  moreover have "j_parse status_api ''R'' = Some (JObject [(''type'', JString ''RECEIVER_STATUS''), (''status'', JObject [])])"
    by (simp add: status_api_def)
  ultimately show ?thesis
    using device_status_becomes_an_event [OF refl d _ _ _ _ h] h by auto
qed

text \<open>
  A module that was initialized on an active bus and is shut down leaves the listeners of the
  bus as it found them, and has no device any more, whatever commands and messages came in between.
\<close>

theorem module_shutdown_restores_the_bus:
  assumes "bus_wf b" "\<not> bus_down b"
    and "m = cast_shutdown (fold (cast_do J) ops (cast_initialize c (cast_module_new b)))"
  shows "bus_listeners (ce_bus (cs_env m)) = bus_listeners b \<and> cs_devices m = [] \<and> cs_subIds m = []"
proof -
  let ?i = "cast_initialize c (cast_module_new b)" and ?m = "fold (cast_do J) ops (cast_initialize c (cast_module_new b))"
  have run: "cs_subIds ?m = cs_subIds ?i" "listens_alike (cs_env ?i) (cs_env ?m)"
    by (simp_all add: cast_run_wf [where J = J])
  have i: "ce_has_bus (cs_env ?i)" "cs_subIds ?i = [bus_next_id b]"
    "ce_bus (cs_env ?i) = snd (bus_subscribe_cb ''chromecast.command'' (VoidCallback c) b)"
    using assms(2) by (auto simp: cast_initialize_def cast_module_new_def module_log_def bus_subscribe_def
        bus_subscribe_cb_def Let_def split: prod.split)
  have "bus_listeners (bus_unsubscribe ''chromecast.command'' (bus_next_id b) (ce_bus (cs_env ?m))) =
      bus_listeners (bus_unsubscribe ''chromecast.command'' (bus_next_id b) (ce_bus (cs_env ?i)))"
    using run(2) by (simp add: listens_alike_def unsubscribe_sel split: option.split)
  then have "bus_listeners (bus_unsubscribe ''chromecast.command'' (bus_next_id b) (ce_bus (cs_env ?m))) = bus_listeners b"
    unfolding i(3) using unsubscribe_subscribe [OF assms(1,2)] by simp
  moreover have "ce_has_bus (cs_env ?m)" using run(2) i(1) by (simp add: listens_alike_def)
  ultimately show ?thesis
    unfolding assms(3) using run(1) i(2) by (simp add: cast_shutdown_def Let_def module_log_def)
qed

lemma module_shutdown_restores_the_bus_witness:
  "bus_listeners (ce_bus (cs_env (cast_shutdown (cast_initialize () (cast_module_new new_bus))))) = bus_listeners new_bus"
  using module_shutdown_restores_the_bus [of new_bus "cast_shutdown (cast_initialize () (cast_module_new new_bus))" cast_api "[]" "()"]
  by (simp add: new_bus_up)

end
