(* ===== verification/Module_Scanner.thy ===== *)
theory Module_Scanner
  imports Modules
begin

unbundle bit_operations_syntax

text \<open>
  The module scanners (includes/modules/scanner) and the operating-system operations on libraries
  (includes/modules/operations). On Windows a name is a list of 16-bit code units; the directory
  listings of the Win32 calls are the argument \<open>ls\<close>, and loading and running a candidate goes
  through the \<open>plugin_api\<close> of the module component. The loop over the stack of directories need not
  end, because nothing bounds what \<open>ls\<close> returns: it is a partial function, \<open>None\<close> meaning that
  it does not return.
\<close>

section \<open>Wide strings\<close>

type_synonym wstring = "16 word list"

text \<open>The iterator constructors convert unit by unit; \<open>char\<close> is signed.\<close>

definition widen :: "string \<Rightarrow> wstring" where
  "widen s = map (\<lambda>b. scast (b :: byte)) (bytes_of s)"

definition narrow :: "wstring \<Rightarrow> string" where
  "narrow ws = str_of (map (\<lambda>w. ucast w) ws)"

text \<open>\<open>towlower\<close> in the C locale, for the comparison without case.\<close>

definition wlower :: "16 word \<Rightarrow> 16 word" where
  "wlower w = (if 0x41 \<le> w \<and> w \<le> 0x5A then w + 0x20 else w)"

text \<open>The suffix of a name from its last dot on.\<close>

definition wcsrchr_dot :: "wstring \<Rightarrow> wstring option" where
  "wcsrchr_dot name =
     (if 0x2E \<in> set name then Some (0x2E # rev (takeWhile (\<lambda>w. w \<noteq> 0x2E) (rev name))) else None)"

definition isDll :: "wstring \<Rightarrow> bool" where
  "isDll name = (case wcsrchr_dot name of None \<Rightarrow> False | Some ext \<Rightarrow> map wlower ext = widen ''.dll'')"

definition shouldSkipDir :: "wstring \<Rightarrow> bool" where
  "shouldSkipDir name \<longleftrightarrow> name \<in> set (map widen
     [''.git'', ''.vs'', ''.idea'', ''node_modules'', ''build'', ''dist'', ''cmake-build-debug'',
      ''cmake-build-release'', ''System Volume Information'', ''$RECYCLE.BIN''])"

section \<open>Inspecting a candidate\<close>

text \<open>\<open>None\<close>: the flag is not initialized (on Linux).\<close>

record module_info =
  mi_name :: string
  mi_filename :: string
  mi_path :: string
  mi_isValid :: "bool option"

text \<open>\<open>path.substr(path.find_last_of("\\/") + 1)\<close>: without a separator \<open>npos + 1\<close> is 0.\<close>

definition base_name :: "string \<Rightarrow> string" where
  "base_name p = rev (takeWhile (\<lambda>c. c \<noteq> CHR 0x5C \<and> c \<noteq> CHR 0x2F) (rev p))"

definition inspectModule ::
  "('c, 'w) plugin_api \<Rightarrow> string \<Rightarrow> ('c, 'w) host \<Rightarrow> module_info outcome \<times> ('c, 'w) host" where
  "inspectModule P modulePath h =
     (let info = \<lparr>mi_name = base_name modulePath, mi_filename = base_name modulePath, mi_path = modulePath, mi_isValid = Some False\<rparr>
      in case os_load P modulePath (h_ext h) of
           (None, w) \<Rightarrow> (Inr info, h\<lparr>h_ext := w\<rparr>)
         | (Some lh, w) \<Rightarrow>
             let h1 = note_step (Opened lh) (h\<lparr>h_ext := w\<rparr>)
             in case os_symbol P lh CREATE_MODULE_FUNC (h_ext h1) of
                  (False, w1) \<Rightarrow> (Inr info, close_handle P lh (h1\<lparr>h_ext := w1\<rparr>))
                | (True, w1) \<Rightarrow>
                    let h2 = h1\<lparr>h_ext := w1\<rparr>
                    in case mod_create P lh (host_get h2) of
                         (Inl e, bw) \<Rightarrow> (Inl e, host_set bw h2)
                       | (Inr None, bw) \<Rightarrow> (Inr info, close_handle P lh (host_set bw h2))
                       | (Inr (Some i), bw) \<Rightarrow>
                           let h3 = note_step (Created i) (host_set bw h2)
                           in case mod_getName P i (host_get h3) of
                                (Inl e, bw3) \<Rightarrow> (Inl e, host_set bw3 h3)
                              | (Inr mname, bw3) \<Rightarrow>
                                  (Inr (info\<lparr>mi_name := mname, mi_isValid := Some True\<rparr>),
                                   close_handle P lh (destroy_instance P i (host_set bw3 h3))))"

section \<open>Scanning on Windows\<close>

record dir_entry =
  de_name :: wstring
  de_isDir :: bool
  de_isReparse :: bool

definition wjoin :: "wstring \<Rightarrow> wstring \<Rightarrow> wstring" where
  "wjoin dir name = dir @ [0x5C] @ name"

definition dot_entry :: "wstring \<Rightarrow> bool" where
  "dot_entry name \<longleftrightarrow> name = widen ''.'' \<or> name = widen ''..''"

text \<open>The entries of one directory: \<open>stack\<close> has its top at the head.\<close>

fun scan_entries ::
  "(string \<Rightarrow> 'h \<Rightarrow> module_info outcome \<times> 'h) \<Rightarrow> wstring \<Rightarrow> dir_entry list \<Rightarrow> wstring list \<Rightarrow> module_info list \<Rightarrow> 'h
     \<Rightarrow> unit outcome \<times> wstring list \<times> module_info list \<times> 'h" where
  "scan_entries insp dir [] stack out h = (Inr (), stack, out, h)"
| "scan_entries insp dir (e # es) stack out h =
     (if dot_entry (de_name e) then scan_entries insp dir es stack out h
      else if de_isDir e then
        (if de_isReparse e then scan_entries insp dir es stack out h
         else if shouldSkipDir (de_name e) then scan_entries insp dir es stack out h
         else scan_entries insp dir es (wjoin dir (de_name e) # stack) out h)
      else if \<not> isDll (de_name e) then scan_entries insp dir es stack out h
      else case insp (narrow (wjoin dir (de_name e))) h of
             (Inl x, h') \<Rightarrow> (Inl x, stack, out, h')
           | (Inr info, h') \<Rightarrow>
               scan_entries insp dir es stack (if mi_isValid info = Some True then out @ [info] else out) h')"

partial_function (option) scanIterative ::
  "(wstring \<Rightarrow> dir_entry list option) \<Rightarrow> (string \<Rightarrow> 'h \<Rightarrow> module_info outcome \<times> 'h) \<Rightarrow> wstring list \<Rightarrow> module_info list \<Rightarrow> 'h
     \<Rightarrow> (unit outcome \<times> module_info list \<times> 'h) option" where
  "scanIterative ls insp stack out h =
     (case stack of
        [] \<Rightarrow> Some (Inr (), out, h)
      | dir # rest \<Rightarrow>
          (case ls dir of
             None \<Rightarrow> scanIterative ls insp rest out h
           | Some es \<Rightarrow>
               (case scan_entries insp dir es rest out h of
                  (r, stack', out', h') \<Rightarrow>
                    (case r of
                       Inl x \<Rightarrow> Some (Inl x, out', h')
                     | Inr _ \<Rightarrow> scanIterative ls insp stack' out' h'))))"

definition windows_scanDirectory ::
  "(wstring \<Rightarrow> dir_entry list option) \<Rightarrow> ('c, 'w) plugin_api \<Rightarrow> string \<Rightarrow> ('c, 'w) host
     \<Rightarrow> (unit outcome \<times> module_info list \<times> ('c, 'w) host) option" where
  "windows_scanDirectory ls P directory h = scanIterative ls (inspectModule P) [widen directory] [] h"

section \<open>Scanning on Linux\<close>

text \<open>The recursive iterator yields the entries below the directory: whether one is a regular file, and its path.\<close>

definition linux_scanDirectory :: "bool \<Rightarrow> (bool \<times> string) list \<Rightarrow> module_info list" where
  "linux_scanDirectory ex entries =
     (if \<not> ex then []
      else map (\<lambda>(_, p). \<lparr>mi_name = path_filename p, mi_filename = [], mi_path = p, mi_isValid = None\<rparr>)
             (filter (\<lambda>(regular, p). regular \<and> path_extension p = ''.so'') entries))"

section \<open>Library operations\<close>

text \<open>
  The object keeps the last error; the calls of the system return the handle or symbol, or the
  text of \<open>dlerror\<close>.
\<close>

type_synonym last_error = string

definition linux_loadLibrary :: "string + handle \<Rightarrow> last_error \<Rightarrow> handle option \<times> last_error" where
  "linux_loadLibrary r err =
     (case r of Inl m \<Rightarrow> (None, ''Failed to load library: '' @ m) | Inr lh \<Rightarrow> (Some lh, err))"

definition linux_unloadLibrary :: "handle option \<Rightarrow> (string + unit) \<Rightarrow> last_error \<Rightarrow> bool \<times> last_error" where
  "linux_unloadLibrary lh r err =
     (if lh = None then (False, err)
      else case r of Inl m \<Rightarrow> (False, ''Failed to unload library: '' @ m) | Inr _ \<Rightarrow> (True, err))"

definition linux_getFunction :: "handle option \<Rightarrow> (string + nat) \<Rightarrow> last_error \<Rightarrow> nat option \<times> last_error" where
  "linux_getFunction lh r err =
     (if lh = None then (None, err)
      else case r of Inl m \<Rightarrow> (None, ''Cannot load symbol: '' @ m) | Inr f \<Rightarrow> (Some f, err))"

definition linux_extension :: string where "linux_extension = ''.o''"

definition windows_loadLibrary :: "string \<Rightarrow> handle option \<Rightarrow> last_error \<Rightarrow> handle option \<times> last_error" where
  "windows_loadLibrary path r err =
     (r, case r of None \<Rightarrow> ''Failed to load library: '' @ path | Some _ \<Rightarrow> err)"

definition windows_unloadLibrary :: "handle option \<Rightarrow> bool \<Rightarrow> last_error \<Rightarrow> bool \<times> last_error" where
  "windows_unloadLibrary lh ok err =
     (if lh = None then (False, err) else if \<not> ok then (False, ''Failed to unload library'') else (True, err))"

definition windows_getFunction :: "handle option \<Rightarrow> string \<Rightarrow> nat option \<Rightarrow> last_error \<Rightarrow> nat option \<times> last_error" where
  "windows_getFunction lh name r err =
     (if lh = None then (None, err)
      else (r, case r of None \<Rightarrow> ''Cannot ls function: '' @ name | Some _ \<Rightarrow> err))"

definition windows_extension :: string where "windows_extension = ''.dll''"

section \<open>What a scan of a directory tree does\<close>

datatype dir_tree = Unreadable | Listing "(dir_entry \<times> dir_tree) list"

definition enters :: "dir_entry \<Rightarrow> bool" where
  "enters e \<longleftrightarrow> \<not> dot_entry (de_name e) \<and> de_isDir e \<and> \<not> de_isReparse e \<and> \<not> shouldSkipDir (de_name e)"

definition candidate :: "dir_entry \<Rightarrow> bool" where
  "candidate e \<longleftrightarrow> \<not> dot_entry (de_name e) \<and> \<not> de_isDir e \<and> isDll (de_name e)"

text \<open>\<open>ls\<close> shows this tree below a path.\<close>

fun shows_tree :: "(wstring \<Rightarrow> dir_entry list option) \<Rightarrow> wstring \<Rightarrow> dir_tree \<Rightarrow> bool" where
  "shows_tree ls p Unreadable \<longleftrightarrow> ls p = None"
| "shows_tree ls p (Listing xs) \<longleftrightarrow> ls p = Some (map fst xs) \<and>
     (\<forall>(e, t) \<in> set xs. enters e \<longrightarrow> shows_tree ls (wjoin p (de_name e)) t)"

text \<open>The candidates of a directory, then its subdirectories, the last one first.\<close>

fun candidates :: "wstring \<Rightarrow> dir_tree \<Rightarrow> wstring list" where
  "candidates p Unreadable = []"
| "candidates p (Listing xs) =
     map (\<lambda>x. wjoin p (de_name (fst x))) (filter (\<lambda>x. candidate (fst x)) xs) @
     concat (rev (map (\<lambda>(e, t). if enters e then candidates (wjoin p (de_name e)) t else []) xs))"

fun inspect_all ::
  "(string \<Rightarrow> 'h \<Rightarrow> module_info outcome \<times> 'h) \<Rightarrow> wstring list \<Rightarrow> module_info list \<Rightarrow> 'h \<Rightarrow> unit outcome \<times> module_info list \<times> 'h" where
  "inspect_all insp [] out h = (Inr (), out, h)"
| "inspect_all insp (p # ps) out h =
     (case insp (narrow p) h of
        (Inl x, h') \<Rightarrow> (Inl x, out, h')
      | (Inr info, h') \<Rightarrow> inspect_all insp ps (if mi_isValid info = Some True then out @ [info] else out) h')"

lemma inspect_all_append:
  "inspect_all insp (ps @ qs) out h =
     (case inspect_all insp ps out h of (Inl x, o', h') \<Rightarrow> (Inl x, o', h') | (Inr _, o', h') \<Rightarrow> inspect_all insp qs o' h')"
  by (induction ps arbitrary: out h) (auto split: prod.split sum.split)

lemma scan_entries_returns:
  "inspect_all insp (map (\<lambda>e. wjoin dir (de_name e)) (filter candidate es)) out h = (Inr u, out', h') \<Longrightarrow>
     scan_entries insp dir es stack out h =
       (Inr (), map (\<lambda>e. wjoin dir (de_name e)) (rev (filter enters es)) @ stack, out', h')"
  by (induction es arbitrary: stack out h) (auto simp: candidate_def enters_def split: prod.splits sum.splits if_splits)

lemma scan_entries_throws:
  "inspect_all insp (map (\<lambda>e. wjoin dir (de_name e)) (filter candidate es)) out h = (Inl x, out', h') \<Longrightarrow>
     \<exists>stack'. scan_entries insp dir es stack out h = (Inl x, stack', out', h')"
  by (induction es arbitrary: stack out h) (auto simp: candidate_def enters_def split: prod.splits sum.splits if_splits)

text \<open>
  The directories of a listing, the last one first, and the candidates below them; \<open>scans\<close> is what
  is shown of a stack: its top is scanned like inspecting the candidates of the tree below it.
\<close>

definition dirs_of :: "(dir_entry \<times> dir_tree) list \<Rightarrow> (dir_entry \<times> dir_tree) list" where
  "dirs_of xs = rev (filter (\<lambda>x. enters (fst x)) xs)"

definition child_path :: "wstring \<Rightarrow> dir_entry \<times> dir_tree \<Rightarrow> wstring" where
  "child_path p x = wjoin p (de_name (fst x))"

definition scans :: "(wstring \<Rightarrow> dir_entry list option) \<Rightarrow> (string \<Rightarrow> 'h \<Rightarrow> module_info outcome \<times> 'h) \<Rightarrow>
    wstring list \<Rightarrow> wstring list \<Rightarrow> bool" where
  "scans ls insp ps cs \<longleftrightarrow>
     (\<forall>stack out h. scanIterative ls insp (ps @ stack) out h =
       (case inspect_all insp cs out h of
          (Inl x, out', h') \<Rightarrow> Some (Inl x, out', h')
        | (Inr _, out', h') \<Rightarrow> scanIterative ls insp stack out' h'))"

lemma scans_Nil: "scans ls insp [] []"
  by (simp add: scans_def)

lemma scans_append: "scans ls insp ps cs \<Longrightarrow> scans ls insp ps' cs' \<Longrightarrow> scans ls insp (ps @ ps') (cs @ cs')"
  by (simp add: scans_def inspect_all_append split: prod.split sum.split)

lemma scans_concat:
  "(\<And>x. x \<in> set ys \<Longrightarrow> scans ls insp [f x] (g x)) \<Longrightarrow> scans ls insp (map f ys) (concat (map g ys))"
proof (induction ys)
  case (Cons y ys)
  then show ?case using scans_append [of ls insp "[f y]" "g y" "map f ys" "concat (map g ys)"] by simp
qed (simp add: scans_Nil)

lemma candidates_dirs:
  "candidates p (Listing xs) = map (\<lambda>e. wjoin p (de_name e)) (filter candidate (map fst xs)) @
     concat (map (\<lambda>x. candidates (child_path p x) (snd x)) (dirs_of xs))"
proof -
  have "concat (map (\<lambda>(e, t). if enters e then candidates (wjoin p (de_name e)) t else []) ys) =
      concat (map (\<lambda>x. candidates (child_path p x) (snd x)) (filter (\<lambda>x. enters (fst x)) ys))" for ys
    by (induction ys) (auto simp: child_path_def)
  from this [of "rev xs"] show ?thesis
    by (simp add: dirs_of_def filter_map comp_def rev_map rev_filter)
qed

lemma scans_directory:
  assumes "ls p = Some (map fst xs)"
    and "scans ls insp (map (child_path p) (dirs_of xs)) cs"
  shows "scans ls insp [p] (map (\<lambda>e. wjoin p (de_name e)) (filter candidate (map fst xs)) @ cs)"
  unfolding scans_def
proof (intro allI)
  fix stack out h
  let ?files = "map (\<lambda>e. wjoin p (de_name e)) (filter candidate (map fst xs))"
  have dirs: "map (\<lambda>e. wjoin p (de_name e)) (rev (filter enters (map fst xs))) = map (child_path p) (dirs_of xs)"
    by (simp add: dirs_of_def child_path_def filter_map comp_def rev_map)
  obtain r out1 h1 where i: "inspect_all insp ?files out h = (r, out1, h1)" by (metis surj_pair)
  show "scanIterative ls insp ([p] @ stack) out h =
      (case inspect_all insp (?files @ cs) out h of
         (Inl x, out', h') \<Rightarrow> Some (Inl x, out', h')
       | (Inr _, out', h') \<Rightarrow> scanIterative ls insp stack out' h')"
  proof (cases r)
    case (Inl x)
    with scan_entries_throws [of insp p "map fst xs"] i obtain stack' where
      "scan_entries insp p (map fst xs) stack out h = (Inl x, stack', out1, h1)" by metis
    with assms(1) Inl i show ?thesis by (subst scanIterative.simps) (simp add: inspect_all_append)
  next
    case (Inr u)
    with scan_entries_returns [of insp p "map fst xs", unfolded dirs] i
    have "scan_entries insp p (map fst xs) stack out h =
        (Inr (), map (child_path p) (dirs_of xs) @ stack, out1, h1)" by blast
    with assms Inr i show ?thesis
      by (subst scanIterative.simps) (simp add: inspect_all_append scans_def)
  qed
qed

lemma scans_tree: "shows_tree ls p t \<Longrightarrow> scans ls insp [p] (candidates p t)"
proof (induction t arbitrary: p)
  case Unreadable
  then show ?case unfolding scans_def by (subst scanIterative.simps) simp
next
  case (Listing xs)
  have "scans ls insp [child_path p x] (candidates (child_path p x) (snd x))" if "x \<in> set (dirs_of xs)" for x
  proof -
    obtain e t where x: "x = (e, t)" by (cases x)
    with that Listing.prems have "(e, t) \<in> set xs" "shows_tree ls (child_path p x) t"
      by (auto simp: dirs_of_def child_path_def)
    moreover have "t \<in> Basic_BNFs.snds (e, t)" by (simp add: prod_set_simps)
    ultimately show ?thesis using Listing.IH by (simp add: x)
  qed
  then show ?case
    unfolding candidates_dirs using Listing.prems by (intro scans_directory scans_concat) simp_all
qed

lemma scan_one:
  "shows_tree ls p t \<Longrightarrow>
     scanIterative ls insp (p # stack) out h =
       (case inspect_all insp (candidates p t) out h of
          (Inl x, out', h') \<Rightarrow> Some (Inl x, out', h')
        | (Inr _, out', h') \<Rightarrow> scanIterative ls insp stack out' h')"
  using scans_tree [of ls p t insp] by (simp add: scans_def)

section \<open>Properties\<close>

text \<open>
  C28: scanning a directory below which the file system shows a finite tree, links and skipped
  directories not followed, terminates, and does exactly what inspecting the candidates of the
  tree one after the other does: the libraries of a directory in their order, then its
  subdirectories, the last one first; an exception of a candidate ends the scan.
\<close>

theorem windows_scan_terminates:
  assumes "shows_tree ls (widen directory) t"
  shows "windows_scanDirectory ls P directory h =
    Some (inspect_all (inspectModule P) (candidates (widen directory) t) [] h)"
  unfolding windows_scanDirectory_def scan_one [OF assms]
  by (simp add: scanIterative.simps split: prod.split sum.split)

definition demo_dir :: "wstring \<Rightarrow> dir_entry list option" where
  "demo_dir p =
     (if p = widen ''d'' then
        Some [\<lparr>de_name = widen ''.'', de_isDir = True, de_isReparse = False\<rparr>,
              \<lparr>de_name = widen ''sub'', de_isDir = True, de_isReparse = False\<rparr>,
              \<lparr>de_name = widen ''link'', de_isDir = True, de_isReparse = True\<rparr>,
              \<lparr>de_name = widen ''build'', de_isDir = True, de_isReparse = False\<rparr>,
              \<lparr>de_name = widen ''a.DLL'', de_isDir = False, de_isReparse = False\<rparr>]
      else if p = wjoin (widen ''d'') (widen ''sub'') then
        Some [\<lparr>de_name = widen ''x.txt'', de_isDir = False, de_isReparse = False\<rparr>,
              \<lparr>de_name = widen ''b.dll'', de_isDir = False, de_isReparse = False\<rparr>]
      else None)"

lemma windows_scan_terminates_witness:
  "windows_scanDirectory demo_dir demo_plugin ''d'' demo_host =
     Some (inspect_all (inspectModule demo_plugin)
       [wjoin (widen ''d'') (widen ''a.DLL''), wjoin (wjoin (widen ''d'') (widen ''sub'')) (widen ''b.dll'')] [] demo_host)"
proof -
  let ?sub = "Listing [(\<lparr>de_name = widen ''x.txt'', de_isDir = False, de_isReparse = False\<rparr>, Unreadable),
              (\<lparr>de_name = widen ''b.dll'', de_isDir = False, de_isReparse = False\<rparr>, Unreadable)]"
  let ?t = "Listing [(\<lparr>de_name = widen ''.'', de_isDir = True, de_isReparse = False\<rparr>, Unreadable),
              (\<lparr>de_name = widen ''sub'', de_isDir = True, de_isReparse = False\<rparr>, ?sub),
              (\<lparr>de_name = widen ''link'', de_isDir = True, de_isReparse = True\<rparr>, Unreadable),
              (\<lparr>de_name = widen ''build'', de_isDir = True, de_isReparse = False\<rparr>, Unreadable),
              (\<lparr>de_name = widen ''a.DLL'', de_isDir = False, de_isReparse = False\<rparr>, Unreadable)]"
  note eval = widen_def bytes_of_def
  have "shows_tree demo_dir (widen ''d'') ?t"
    by (simp add: demo_dir_def enters_def dot_entry_def shouldSkipDir_def wjoin_def eval)
  moreover have "candidates (widen ''d'') ?t =
      [wjoin (widen ''d'') (widen ''a.DLL''), wjoin (wjoin (widen ''d'') (widen ''sub'')) (widen ''b.dll'')]"
    by (simp add: candidate_def enters_def dot_entry_def shouldSkipDir_def isDll_def wcsrchr_dot_def wlower_def eval)
  ultimately show ?thesis using windows_scan_terminates [of demo_dir "''d''" ?t demo_plugin demo_host] by simp
qed

end
