(* ===== verification/Message_Flow.thy ===== *)
theory Message_Flow
  imports Ws_Service
begin

text \<open>
  How the parts meet: the lifecycle of \<open>MqttService\<close> and \<open>WsService\<close>
  (src/services/MqttService.cpp, WsService.cpp), the three listeners they put on the event bus, and
  the way of a message from the MQTT broker through the receive thread, the bus and its dispatch
  to the WebSocket clients.
\<close>

section \<open>The listeners\<close>

datatype listener_code = LMqttEvent | LMqttSubscribe | LWsMessage

text \<open>
  The state behind the listeners: the MQTT client (\<open>None\<close> before the service has started), the
  packets it handed to \<open>send\<close>, the WebSocket service, and the frames handed to
  \<open>WsServer::send\<close>.
\<close>

record flow =
  fl_mqtt :: "mqtt_client option"
  fl_packets :: "byte list list"
  fl_ws :: ws_service
  fl_sent :: "(int \<times> string) list"

text \<open>
  \<open>order\<close> gives the order in which the unordered map enumerates its filters. The listeners catch
  what they throw themselves; their result is not used.
\<close>

definition flow_code ::
  "'j json_api \<Rightarrow> (byte list \<Rightarrow> int) \<Rightarrow> ((string \<Rightarrow> int set option) \<Rightarrow> string list) \<Rightarrow> (listener_code, flow) code" where
  "flow_code J send order c e s =
     (case s of (b, w) \<Rightarrow>
        case c of
          LMqttEvent \<Rightarrow>
            (Inr (result_ok []), (case on_mqtt_event e of None \<Rightarrow> b | Some e' \<Rightarrow> bus_publish e' b), w)
        | LMqttSubscribe \<Rightarrow>
            (Inr (result_ok []), b,
             case (on_mqtt_subscribe e, fl_mqtt w) of
               (Some topic, Some m) \<Rightarrow>
                 (case mqtt_subscribe send topic m of
                    (_, pkts, m') \<Rightarrow> w\<lparr>fl_mqtt := Some m', fl_packets := fl_packets w @ pkts\<rparr>)
             | _ \<Rightarrow> w)
        | LWsMessage \<Rightarrow>
            (Inr (result_ok []), b,
             w\<lparr>fl_sent := fl_sent w @ on_mqtt_message J (order (filterClients (fl_ws w))) e (fl_ws w)\<rparr>))"

section \<open>Lifecycle\<close>

definition mqtt_service_start ::
  "string \<Rightarrow> bool \<Rightarrow> bool \<Rightarrow> listener_code bus \<times> flow \<Rightarrow> listener_code bus \<times> flow" where
  "mqtt_service_start cid socket_ok connect_ok s =
     (case mqtt_connect socket_ok connect_ok (mqtt_new cid) of
        (_, pkts, m) \<Rightarrow>
          (snd (bus_subscribe ''mqtt:subscribe'' LMqttSubscribe (snd (bus_subscribe ''mqtt:event'' LMqttEvent (fst s)))),
           (snd s)\<lparr>fl_mqtt := Some m, fl_packets := fl_packets (snd s) @ pkts\<rparr>))"

definition mqtt_service_stop :: "flow \<Rightarrow> flow" where
  "mqtt_service_stop w =
     (case fl_mqtt w of
        None \<Rightarrow> w
      | Some m \<Rightarrow> (case mqtt_disconnect m of (pkts, m') \<Rightarrow> w\<lparr>fl_mqtt := Some m', fl_packets := fl_packets w @ pkts\<rparr>))"

text \<open>The WebSocket server itself, started and stopped by these two, is in \<open>Ws_Server\<close>.\<close>

definition ws_service_start :: "listener_code bus \<Rightarrow> listener_code bus" where
  "ws_service_start b = snd (bus_subscribe ''mqtt:message'' LWsMessage b)"

definition ws_service_stop :: "listener_code bus \<Rightarrow> listener_code bus" where
  "ws_service_stop b = b"

text \<open>The receive thread publishes the events of what the socket delivers.\<close>

definition receive_thread :: "inbound \<Rightarrow> listener_code bus \<Rightarrow> listener_code bus" where
  "receive_thread s b = (case receiveLoop s of Inl _ \<Rightarrow> b | Inr es \<Rightarrow> fold bus_publish es b)"

section \<open>Lemmas\<close>

text \<open>The bus with both services started.\<close>

definition flow_listeners :: "listener_code bus \<Rightarrow> bool" where
  "flow_listeners b \<longleftrightarrow> \<not> bus_down b \<and>
     map (code_of \<circ> l_cb) (listeners_of b ''mqtt:message'') = [LWsMessage] \<and>
     (\<forall>n. n \<noteq> ''mqtt:message'' \<longrightarrow> LWsMessage \<notin> set (map (code_of \<circ> l_cb) (listeners_of b n)))"

lemma flow_started:
  "flow_listeners (ws_service_start (fst (mqtt_service_start cid so co (new_bus, w))))"
  by (auto simp: flow_listeners_def ws_service_start_def mqtt_service_start_def bus_subscribe_def listeners_of_def
      subscribe_sel new_bus_def split: prod.split)

lemma flow_listeners_cong:
  "frame_eq b b' \<Longrightarrow> flow_listeners b = flow_listeners b'"
  by (simp add: flow_listeners_def listeners_of_def frame_eq_def)

text \<open>One callback: only the bridge sends frames, and none touches the subscriptions.\<close>

lemma invoke_flow:
  assumes "invoke (flow_code J send order) cb e (b, w) = (r, b', w')"
  shows "frame_eq b' b \<and> fl_ws w' = fl_ws w \<and> fl_sent w' = fl_sent w @
    (if code_of cb = LWsMessage then on_mqtt_message J (order (filterClients (fl_ws w))) e (fl_ws w) else [])"
  using assms
  by (cases cb; cases "code_of cb")
    (auto simp: flow_code_def frame_eq_def publish_sel split: option.splits prod.splits if_splits)

lemma run_flow:
  "frame_eq (fst (run_callbacks (flow_code J send order) e i cbs (b, w))) b \<and>
   fl_ws (snd (run_callbacks (flow_code J send order) e i cbs (b, w))) = fl_ws w \<and>
   fl_sent (snd (run_callbacks (flow_code J send order) e i cbs (b, w))) = fl_sent w @
     concat (map (\<lambda>cb. if code_of cb = LWsMessage then on_mqtt_message J (order (filterClients (fl_ws w))) e (fl_ws w) else []) cbs)"
proof (induction cbs arbitrary: i b w)
  case (Cons cb cbs)
  obtain r b1 w1 where inv: "invoke (flow_code J send order) cb e (b, w) = (r, b1, w1)"
    by (metis surj_pair)
  note one = invoke_flow [OF inv]
  then have ws: "fl_ws w1 = fl_ws w" by blast
  have step: "frame_eq (fst (run_callbacks (flow_code J send order) e (Suc i) cbs (b2, w1))) b \<and>
      fl_ws (snd (run_callbacks (flow_code J send order) e (Suc i) cbs (b2, w1))) = fl_ws w \<and>
      fl_sent (snd (run_callbacks (flow_code J send order) e (Suc i) cbs (b2, w1))) = fl_sent w @
        concat (map (\<lambda>cb. if code_of cb = LWsMessage then on_mqtt_message J (order (filterClients (fl_ws w))) e (fl_ws w) else []) (cb # cbs))"
    if "frame_eq b2 b1" for b2
    using Cons.IH [of "Suc i" b2 w1, unfolded ws] one that by (simp add: frame_eq_def)
  show ?case
    unfolding run_callbacks.simps inv prod.case
    by (rule step) (auto simp: frame_eq_def split: sum.split exn.split)
qed (simp add: frame_eq_def)

lemma concat_selected:
  "concat (map (\<lambda>cb. if f cb = x then fs else []) cbs) = concat (map (\<lambda>y. if y = x then fs else []) (map f cbs))"
  by (simp add: comp_def)

lemma concat_none: "x \<notin> set ys \<Longrightarrow> concat (map (\<lambda>y. if y = x then fs else []) ys) = []"
  by (induction ys) auto

lemma dispatch_flow:
  assumes "flow_listeners b"
  shows "flow_listeners (fst (dispatch_event (flow_code J send order) e (b, w))) \<and>
    fl_ws (snd (dispatch_event (flow_code J send order) e (b, w))) = fl_ws w \<and>
    fl_sent (snd (dispatch_event (flow_code J send order) e (b, w))) = fl_sent w @
      (if ev_name e = ''mqtt:message'' then on_mqtt_message J (order (filterClients (fl_ws w))) e (fl_ws w) else [])"
proof -
  let ?fs = "on_mqtt_message J (order (filterClients (fl_ws w))) e (fl_ws w)"
  have sel: "concat (map (\<lambda>cb. if code_of cb = LWsMessage then ?fs else []) (map l_cb (listeners_of b (ev_name e)))) =
      concat (map (\<lambda>y. if y = LWsMessage then ?fs else []) (map code_of (map l_cb (listeners_of b (ev_name e)))))"
    by (rule concat_selected)
  have codes: "concat (map (\<lambda>cb. if code_of cb = LWsMessage then ?fs else []) (map l_cb (listeners_of b (ev_name e)))) =
      (if ev_name e = ''mqtt:message'' then ?fs else [])"
  proof (cases "ev_name e = ''mqtt:message''")
    case True
    with assms have "map code_of (map l_cb (listeners_of b (ev_name e))) = [LWsMessage]" by (simp add: flow_listeners_def)
    then show ?thesis unfolding sel using True by simp
  next
    case False
    with assms have "LWsMessage \<notin> set (map code_of (map l_cb (listeners_of b (ev_name e))))"
      by (auto simp: flow_listeners_def)
    from concat_none [OF this] show ?thesis unfolding sel using False by (simp only: if_False)
  qed
  show ?thesis
  proof (cases "bus_listeners b (ev_name e)")
    case None
    with codes assms show ?thesis
      by (simp add: dispatch_event_def Let_def listeners_of_def flow_listeners_def split: if_splits)
  next
    case (Some ls)
    define b1 where "b1 = bus_write LInfo (''Processing event: '' @ ev_name e @ '' ('' @ nat_to_string (length ls) @ '' listener(s))'') b"
    have d: "dispatch_event (flow_code J send order) e (b, w) = run_callbacks (flow_code J send order) e 0 (map l_cb ls) (b1, w)"
      using Some by (simp add: dispatch_event_def b1_def)
    have "frame_eq b1 b" by (simp add: b1_def frame_eq_def)
    with run_flow [of J send order e 0 "map l_cb ls" b1 w] have f: "frame_eq (fst (dispatch_event (flow_code J send order) e (b, w))) b"
      unfolding d by (simp add: frame_eq_def)
    have ls: "listeners_of b (ev_name e) = ls" using Some by (simp add: listeners_of_def)
    show ?thesis
      using flow_listeners_cong [OF f] assms run_flow [of J send order e 0 "map l_cb ls" b1 w] codes
      unfolding d ls by simp
  qed
qed

lemma dispatch_events_flow:
  "flow_listeners b \<Longrightarrow>
    fl_sent (snd (dispatch_events (flow_code J send order) es (b, w))) = fl_sent w @
      concat (map (\<lambda>e. if ev_name e = ''mqtt:message'' then on_mqtt_message J (order (filterClients (fl_ws w))) e (fl_ws w) else []) es)"
proof (induction es arbitrary: b w)
  case (Cons e es)
  obtain b1 w1 where s: "dispatch_event (flow_code J send order) e (b, w) = (b1, w1)" by (metis surj_pair)
  with dispatch_flow [OF Cons.prems, of J send order e w] have f: "flow_listeners b1" and ws: "fl_ws w1 = fl_ws w" and
    "fl_sent w1 = fl_sent w @
      (if ev_name e = ''mqtt:message'' then on_mqtt_message J (order (filterClients (fl_ws w))) e (fl_ws w) else [])" by simp_all
  with Cons.IH [OF f, of w1, unfolded ws] s show ?case by simp
qed simp

lemma receiveLoop_publishes:
  assumes "\<forall>(t, p) \<in> set msgs. t \<noteq> [] \<and> length t + length p + 4 \<le> 1024"
  shows "receiveLoop (map (\<lambda>(t, p). publish_packet t p) msgs) = Inr (concat (map (\<lambda>(t, p). message_events t p) msgs))"
  using assms
proof (induction msgs)
  case (Cons m msgs)
  obtain t p where m: "m = (t, p)" by (cases m)
  with Cons.prems have tp: "t \<noteq> []" "length t + length p + 4 \<le> 1024" by auto
  have "length (publish_packet t p) \<le> 1024" using tp(2) by (simp add: publish_packet_def Let_def)
  then show ?case
    using Cons tp handlePacket_publish [of t p "[]"] by (simp add: m receiveLoop_chunk message_events_def str_of_def)
qed simp

definition frames_of ::
  "'j json_api \<Rightarrow> ((string \<Rightarrow> int set option) \<Rightarrow> string list) \<Rightarrow> ws_service \<Rightarrow> string \<times> string \<Rightarrow> (int \<times> string) list" where
  "frames_of J order v m =
     (case bridge_frame J (fst m) (snd m) of
        Inl _ \<Rightarrow> []
      | Inr t \<Rightarrow> map (\<lambda>c. (c, t)) (recipients (order (filterClients v)) v (fst m)))"

lemma message_frames:
  "concat (map (\<lambda>e. if ev_name e = ''mqtt:message'' then on_mqtt_message J (order (filterClients v)) e v else [])
     (message_events t p)) = frames_of J order v (t, p)"
  by (simp add: message_events_def on_mqtt_message_def frames_of_def split: sum.split)

lemma fold_publish_queue:
  "\<not> bus_down b \<Longrightarrow> bus_queue (fold bus_publish es b) = bus_queue b @ es \<and> frame_eq (fold bus_publish es b) b"
  by (induction es arbitrary: b) (simp_all add: publish_sel frame_eq_def)

section \<open>Properties\<close>

text \<open>
  C7: from the broker to the clients. With both services started, PUBLISH packets that the
  receive thread gets one by one are, after one dispatch of the bus, sent on to the WebSocket
  clients in order, each message as one JSON frame to every client with a matching subscription
  (once per matching filter) and to nobody else, whatever their topics are called.
\<close>

theorem broker_messages_reach_the_clients:
  assumes "(b, w1) = mqtt_service_start cid so co (new_bus, w)"
    and "\<forall>(t, p) \<in> set msgs. t \<noteq> [] \<and> length t + length p + 4 \<le> 1024"
    and "dual (fl_ws w)" "distinct (order (filterClients (fl_ws w)))"
    and "set (order (filterClients (fl_ws w))) = dom (filterClients (fl_ws w))"
    and "(b', w') = bus_dispatchPending (flow_code J send order)
           (receive_thread (map (\<lambda>(t, p). publish_packet t p) msgs) (ws_service_start b), w1)"
  shows "fl_sent w' = fl_sent w @ concat (map (frames_of J order (fl_ws w)) msgs) \<and>
    count_list (recipients (order (filterClients (fl_ws w))) (fl_ws w) topic) c =
      card {f \<in> subs (fl_ws w) c. topicMatches f topic}"
proof
  show "count_list (recipients (order (filterClients (fl_ws w))) (fl_ws w) topic) c =
      card {f \<in> subs (fl_ws w) c. topicMatches f topic}"
    by (rule count_recipients [OF assms(3-5)])
next
  have w1: "fl_ws w1 = fl_ws w" "fl_sent w1 = fl_sent w"
    using assms(1) by (auto simp: mqtt_service_start_def split: prod.splits)
  have "b = fst (mqtt_service_start cid so co (new_bus, w))" using assms(1) by (metis fst_conv)
  then have fl: "flow_listeners (ws_service_start b)" using flow_started by simp
  define es where "es = concat (map (\<lambda>(t, p). message_events t p) msgs)"
  have q0: "bus_queue (ws_service_start b) = []"
    using assms(1) by (auto simp: ws_service_start_def mqtt_service_start_def bus_subscribe_def subscribe_sel new_bus_def split: prod.splits)
  define b1 where "b1 = fold bus_publish es (ws_service_start b)"
  have r: "receive_thread (map (\<lambda>(t, p). publish_packet t p) msgs) (ws_service_start b) = b1"
    using receiveLoop_publishes [OF assms(2)] by (simp add: receive_thread_def es_def b1_def)
  have b1: "bus_queue b1 = es" "frame_eq b1 (ws_service_start b)"
    using fold_publish_queue [of "ws_service_start b" es] fl q0 by (simp_all add: b1_def flow_listeners_def)
  have fb1: "flow_listeners b1" "\<not> bus_down b1"
    using flow_listeners_cong [OF b1(2)] fl by (simp_all add: flow_listeners_def)
  have "frame_eq (b1\<lparr>bus_queue := []\<rparr>) b1" by (simp add: frame_eq_def)
  then have fb2: "flow_listeners (b1\<lparr>bus_queue := []\<rparr>)" using flow_listeners_cong fb1(1) by blast
  have "w' = snd (bus_dispatchPending (flow_code J send order) (b1, w1))" using assms(6) r by (metis snd_conv)
  then have "w' = snd (dispatch_events (flow_code J send order) es (b1\<lparr>bus_queue := []\<rparr>, w1))"
    using fb1(2) b1(1) by (simp add: bus_dispatchPending_def)
  then have "fl_sent w' = fl_sent w @ concat (map (\<lambda>e. if ev_name e = ''mqtt:message''
      then on_mqtt_message J (order (filterClients (fl_ws w))) e (fl_ws w) else []) es)"
    using dispatch_events_flow [OF fb2, of J send order es w1, unfolded w1] by simp
  also have "concat (map (\<lambda>e. if ev_name e = ''mqtt:message''
      then on_mqtt_message J (order (filterClients (fl_ws w))) e (fl_ws w) else []) es) =
      concat (map (frames_of J order (fl_ws w)) msgs)"
    unfolding es_def
  proof (induction msgs)
    case (Cons m msgs)
    then show ?case using message_frames [of J order "fl_ws w" "fst m" "snd m"] by (simp add: case_prod_beta)
  qed simp
  finally show "fl_sent w' = fl_sent w @ concat (map (frames_of J order (fl_ws w)) msgs)" .
qed

definition flow_api :: "json json_api" where
  "flow_api = table_json [(''F'', JObject [(''type'', JString ''message''), (''topic'', JString ''a/b''), (''payload'', JString ''on'')])]"

definition flow_start :: flow where
  "flow_start = \<lparr>fl_mqtt = None, fl_packets = [], fl_ws = svc_subscribe 7 ''a/#'' ws_service_new, fl_sent = []\<rparr>"

lemma broker_messages_reach_the_clients_witness:
  "\<exists>b w1 b' w'. (b, w1) = mqtt_service_start ''nexus'' True True (new_bus, flow_start) \<and>
     (b', w') = bus_dispatchPending (flow_code flow_api (\<lambda>p. 1) (\<lambda>m. [''a/#'']))
           (receive_thread [publish_packet ''a/b'' ''on''] (ws_service_start b), w1) \<and>
     fl_sent w' = [(7, ''F'')]"
proof -
  obtain b w1 where 1: "(b, w1) = mqtt_service_start ''nexus'' True True (new_bus, flow_start)" by (metis surj_pair)
  obtain b' w' where 2: "(b', w') = bus_dispatchPending (flow_code flow_api (\<lambda>p. 1) (\<lambda>m. [''a/#'']))
           (receive_thread (map (\<lambda>(t, p). publish_packet t p) [(''a/b'', ''on'')]) (ws_service_start b), w1)" by (metis surj_pair)
  have ws: "filterClients (fl_ws flow_start) = [''a/#'' \<mapsto> {7}]" "dual (fl_ws flow_start)"
    by (simp_all add: flow_start_def dual_subscribe) (simp add: svc_subscribe_def ws_service_new_def entry_def)
  have "bridge_frame flow_api ''a/b'' ''on'' = Inr ''F''"
    by (simp add: bridge_frame_def flow_api_def dump_exn_def)
  then have "frames_of flow_api (\<lambda>m. [''a/#'']) (fl_ws flow_start) (''a/b'', ''on'') = [(7, ''F'')]"
    by (simp add: frames_of_def recipients_def ws entry_def)
  moreover have "fl_sent w' = fl_sent flow_start @
      concat (map (frames_of flow_api (\<lambda>m. [''a/#'']) (fl_ws flow_start)) [(''a/b'', ''on'')])"
    by (rule broker_messages_reach_the_clients [OF 1 _ ws(2) _ _ 2, THEN conjunct1]) (simp_all add: ws(1))
  ultimately have "fl_sent w' = [(7, ''F'')]" by (simp add: flow_start_def)
  with 1 2 show ?thesis by (intro exI conjI) simp_all
qed

end
