(* ===== verification/Request_Threads.thy ===== *)
theory Request_Threads
  imports NexusPrelude
begin

text \<open>
  Requests that run in parallel. cpp-httplib calls the handlers of the HTTP server from a pool of
  threads; what they share is guarded by mutexes that are held for one operation at a time. A
  request is then a sequence of critical sections: each reads and changes the shared state in one
  step, and what comes next depends on what it read. Between two sections of one request, any
  other request may run. The components that are used this way give their requests as such
  programs; this theory says what follows from the shape of the programs alone.
\<close>

section \<open>Programs and schedules\<close>

datatype ('s, 'a) prog =
    Answer 'a
  | Section "'s \<Rightarrow> 's" "'s \<Rightarrow> ('s, 'a) prog"   \<comment> \<open>the change, and what follows for the state it found\<close>

text \<open>A request that runs alone.\<close>

primrec run_prog :: "('s, 'a) prog \<Rightarrow> 's \<Rightarrow> 'a \<times> 's" where
  "run_prog (Answer a) = (\<lambda>s. (a, s))"
| "run_prog (Section u k) = (\<lambda>s. run_prog (k s) (u s))"

text \<open>One thread takes its next section; a schedule says which thread is next.\<close>

definition step_thread :: "nat \<Rightarrow> 's \<times> ('s, 'a) prog list \<Rightarrow> 's \<times> ('s, 'a) prog list" where
  "step_thread i c =
     (if i < length (snd c) then
        (case snd c ! i of
           Answer a \<Rightarrow> c
         | Section u k \<Rightarrow> (u (fst c), (snd c)[i := k (fst c)]))
      else c)"

definition run_schedule :: "nat list \<Rightarrow> 's \<times> ('s, 'a) prog list \<Rightarrow> 's \<times> ('s, 'a) prog list" where
  "run_schedule sched c = fold step_thread sched c"

lemma run_schedule_simps [simp]:
  "run_schedule [] c = c"
  "run_schedule (i # sched) c = run_schedule sched (step_thread i c)"
  by (simp_all add: run_schedule_def)

lemma length_step_thread [simp]: "length (snd (step_thread i c)) = length (snd c)"
  by (simp add: step_thread_def split: prog.split)

lemma step_thread_cases:
  obtains "step_thread i c = c"
  | u k where "i < length (snd c)" "snd c ! i = Section u k"
      "step_thread i c = (u (fst c), (snd c)[i := k (fst c)])"
proof (cases "i < length (snd c)")
  case True
  with that show thesis by (cases "snd c ! i") (simp_all add: step_thread_def)
next
  case False
  with that(1) show thesis by (simp add: step_thread_def)
qed

text \<open>An invariant of the configuration that every step of a thread keeps.\<close>

lemma run_schedule_invariant:
  assumes "P c"
    and "\<And>i c u k. P c \<Longrightarrow> i < length (snd c) \<Longrightarrow> snd c ! i = Section u k \<Longrightarrow>
      P (u (fst c), (snd c)[i := k (fst c)])"
  shows "P (run_schedule sched c)"
  using assms(1)
proof (induction sched arbitrary: c)
  case (Cons i sched)
  have "P (step_thread i c)"
    by (cases rule: step_thread_cases [of i c]) (simp_all add: Cons.prems assms(2))
  then show ?case using Cons.IH by simp
qed simp

text \<open>
  Every program is well founded: however far a schedule has got, letting the threads run one after
  the other finishes all of them.
\<close>

definition answered :: "('s, 'a) prog \<Rightarrow> bool" where
  "answered p = (case p of Answer _ \<Rightarrow> True | Section _ _ \<Rightarrow> False)"

definition all_answered :: "'s \<times> ('s, 'a) prog list \<Rightarrow> bool" where
  "all_answered c \<longleftrightarrow> list_all answered (snd c)"

lemma answered_simps [simp]: "answered (Answer a)" "\<not> answered (Section u k)"
  by (simp_all add: answered_def)

lemma answered_iff: "answered p \<longleftrightarrow> (\<exists>a. p = Answer a)"
  by (cases p) simp_all

lemma run_schedule_append: "run_schedule (xs @ ys) c = run_schedule ys (run_schedule xs c)"
  by (simp add: run_schedule_def)

lemma thread_finishes:
  "i < length ps \<Longrightarrow> ps ! i = p \<Longrightarrow> \<exists>sched s' q. run_schedule sched (s, ps) = (s', ps[i := q]) \<and> answered q"
proof (induction p arbitrary: s ps)
  case (Answer a)
  then have "ps[i := Answer a] = ps" by (metis list_update_id)
  then show ?case by (intro exI [of _ "[]"] exI [of _ s] exI [of _ "Answer a"]) simp
next
  case (Section u k)
  from Section.IH [of "k s" "ps[i := k s]" "u s"] Section.prems(1) obtain sched s' q
    where "run_schedule sched (u s, ps[i := k s]) = (s', ps[i := q])" "answered q" by auto
  with Section.prems show ?case
    by (intro exI [of _ "i # sched"] exI [of _ s'] exI [of _ q]) (simp add: step_thread_def)
qed

lemma threads_finish:
  "n \<le> length ps \<Longrightarrow> \<exists>sched s' ps'. run_schedule sched (s, ps) = (s', ps') \<and> length ps' = length ps \<and>
     (\<forall>i < n. answered (ps' ! i))"
proof (induction n)
  case 0
  show ?case by (rule exI [of _ "[]"]) simp
next
  case (Suc n)
  then obtain sched s1 ps1 where 1: "run_schedule sched (s, ps) = (s1, ps1)" "length ps1 = length ps"
      "\<forall>i < n. answered (ps1 ! i)" by auto
  with thread_finishes [of n ps1 _ s1] Suc.prems obtain sched' s' q
    where 2: "run_schedule sched' (s1, ps1) = (s', ps1[n := q])" "answered q" by auto
  from 1 2 Suc.prems show ?case
    by (intro exI [of _ "sched @ sched'"] exI [of _ s'] exI [of _ "ps1[n := q]"])
      (auto simp: run_schedule_append nth_list_update less_Suc_eq)
qed

lemma schedule_finishes: "\<exists>sched. all_answered (run_schedule sched c)"
proof -
  obtain s ps where c: "c = (s, ps)" by (cases c)
  obtain sched s' ps' where "run_schedule sched (s, ps) = (s', ps')" "length ps' = length ps"
      "\<forall>i < length ps. answered (ps' ! i)"
    using threads_finish [of "length ps" ps s] by auto
  with c show ?thesis by (intro exI [of _ sched]) (simp add: all_answered_def list_all_length)
qed

section \<open>Serial order\<close>

text \<open>
  A request has a specification on an abstract view of the state: its reply and the new view.
  \<open>takes_effect\<close> says that a program has exactly one section that may change the view, that this
  section changes it as the specification says for the view it finds, and that the replies the
  program can give afterwards agree with the one specified; a program that answers without such
  a section answers what is specified for a request that changes nothing.
\<close>

primrec view_kept ::
  "('s \<Rightarrow> bool) \<Rightarrow> ('s \<Rightarrow> 'v) \<Rightarrow> ('a \<Rightarrow> 'r option) \<Rightarrow> ('r \<Rightarrow> bool) \<Rightarrow> ('s, 'a) prog \<Rightarrow> bool" where
  "view_kept sane view reply ok (Answer a) = (\<forall>r. reply a = Some r \<longrightarrow> ok r)"
| "view_kept sane view reply ok (Section u k) =
     (\<forall>s. sane s \<longrightarrow> sane (u s) \<and> view (u s) = view s \<and> view_kept sane view reply ok (k s))"

primrec takes_effect ::
  "('s \<Rightarrow> bool) \<Rightarrow> ('s \<Rightarrow> 'v) \<Rightarrow> ('a \<Rightarrow> 'r option) \<Rightarrow> ('r \<Rightarrow> 'r \<Rightarrow> bool) \<Rightarrow> ('v \<Rightarrow> 'r \<times> 'v) \<Rightarrow> ('s, 'a) prog \<Rightarrow> bool" where
  "takes_effect sane view reply agr spec (Answer a) =
     (\<forall>r v. reply a = Some r \<longrightarrow> snd (spec v) = v \<and> agr r (fst (spec v)))"
| "takes_effect sane view reply agr spec (Section u k) =
     (\<forall>s. sane s \<longrightarrow> sane (u s) \<and>
        (view (u s) = view s \<and> takes_effect sane view reply agr spec (k s) \<or>
         view (u s) = snd (spec (view s)) \<and>
         view_kept sane view reply (\<lambda>r. agr r (fst (spec (view s)))) (k s)))"

text \<open>The requests one after the other, on the view.\<close>

fun spec_run :: "('q \<Rightarrow> 'v \<Rightarrow> 'r \<times> 'v) \<Rightarrow> 'q list \<Rightarrow> 'v \<Rightarrow> 'r list \<times> 'v" where
  "spec_run spec [] v = ([], v)"
| "spec_run spec (q # qs) v =
     (case spec q v of (r, v') \<Rightarrow> (case spec_run spec qs v' of (rs, v'') \<Rightarrow> (r # rs, v'')))"

lemma spec_run_snoc:
  "spec_run spec (qs @ [q]) v =
     (fst (spec_run spec qs v) @ [fst (spec q (snd (spec_run spec qs v)))], snd (spec q (snd (spec_run spec qs v))))"
  by (induction qs arbitrary: v) (simp_all split: prod.split)

lemma length_spec_run [simp]: "length (fst (spec_run spec qs v)) = length qs"
  by (induction qs arbitrary: v) (simp_all add: case_prod_beta)

text \<open>A worker thread takes up a request: from then on the request is under way.\<close>

definition enter :: "('s, 'a) prog \<Rightarrow> ('s, 'a) prog" where
  "enter p = Section (\<lambda>s. s) (\<lambda>_. p)"

lemma takes_effect_enter: "takes_effect sane view reply agr spec p \<Longrightarrow> takes_effect sane view reply agr spec (enter p)"
  by (simp add: enter_def)

lemma run_enter [simp]: "run_prog (enter p) s = run_prog p s"
  by (simp add: enter_def)

text \<open>
  An order of the requests respects time when a request that was answered before another was
  taken up stands before it.
\<close>

definition precedes :: "nat list \<Rightarrow> nat \<Rightarrow> nat \<Rightarrow> bool" where
  "precedes order i j \<longleftrightarrow> (\<exists>xs ys zs. order = xs @ i # ys @ j # zs)"

definition respects_time :: "nat list \<Rightarrow> nat list \<Rightarrow> 's \<times> ('s, 'a) prog list \<Rightarrow> bool" where
  "respects_time order sched c \<longleftrightarrow> (\<forall>sched1 sched2 i j. sched = sched1 @ sched2 \<longrightarrow>
     i < length (snd c) \<longrightarrow> j < length (snd c) \<longrightarrow>
     answered (snd (run_schedule sched1 c) ! i) \<longrightarrow> j \<notin> set sched1 \<longrightarrow> precedes order i j)"

lemma precedes_snoc: "precedes order i j \<Longrightarrow> precedes (order @ [k]) i j"
  unfolding precedes_def by (metis append_Cons append_assoc)

lemma precedes_last: "i \<in> set order \<Longrightarrow> precedes (order @ [j]) i j"
  unfolding precedes_def by (metis append_Cons append_assoc split_list)

text \<open>An answer stays.\<close>

lemma step_answered: "snd c ! i = Answer a \<Longrightarrow> snd (step_thread j c) ! i = Answer a"
  by (cases rule: step_thread_cases [of j c]) (auto simp: nth_list_update)

lemma run_answered: "snd c ! i = Answer a \<Longrightarrow> snd (run_schedule sched c) ! i = Answer a"
  by (induction sched arbitrary: c) (simp_all add: step_answered)

text \<open>The contract of a service whose requests are programs with such a specification.\<close>

locale request_service =
  fixes sane :: "'s \<Rightarrow> bool" and view :: "'s \<Rightarrow> 'v" and reply :: "'a \<Rightarrow> 'r option"
    and agrees :: "'q \<Rightarrow> 'r \<Rightarrow> 'r \<Rightarrow> bool" and spec :: "'q \<Rightarrow> 'v \<Rightarrow> 'r \<times> 'v"
    and prog_of :: "'q \<Rightarrow> ('s, 'a) prog"
  assumes takes_effect_prog_of: "takes_effect sane view reply (agrees q) (spec q) (prog_of q)"
begin

abbreviation replied :: "('s, 'a) prog \<Rightarrow> bool" where
  "replied p \<equiv> (\<exists>a r. p = Answer a \<and> reply a = Some r)"

abbreviation called :: "'q list \<Rightarrow> ('s, 'a) prog list" where
  "called qs \<equiv> map (\<lambda>q. enter (prog_of q)) qs"

text \<open>
  The requests that have taken effect, in their order, and what is known of all of them; a
  request that has replied is among them.
\<close>

definition serial :: "'q list \<Rightarrow> 'v \<Rightarrow> nat list \<Rightarrow> 's \<times> ('s, 'a) prog list \<Rightarrow> bool" where
  "serial qs v order c \<longleftrightarrow>
     length (snd c) = length qs \<and> sane (fst c) \<and> distinct order \<and> set order \<subseteq> {..<length qs} \<and>
     snd (spec_run spec (map ((!) qs) order) v) = view (fst c) \<and>
     (\<forall>i < length qs. i \<notin> set order \<longrightarrow> \<not> replied (snd c ! i) \<and>
        takes_effect sane view reply (agrees (qs ! i)) (spec (qs ! i)) (snd c ! i)) \<and>
     (\<forall>j < length order. view_kept sane view reply
        (\<lambda>r. agrees (qs ! (order ! j)) r (fst (spec_run spec (map ((!) qs) order) v) ! j)) (snd c ! (order ! j)))"

lemma serial_start: "sane s \<Longrightarrow> serial qs (view s) [] (s, called qs)"
  using takes_effect_enter [OF takes_effect_prog_of] by (simp add: serial_def) (simp add: enter_def)

text \<open>A section of a request that has taken effect already, or that does not yet.\<close>

lemma serial_keep:
  assumes "serial qs v order c" "i < length qs" "sane s'" "view s' = view (fst c)"
    and "i \<notin> set order \<Longrightarrow> \<not> replied p \<and> takes_effect sane view reply (agrees (qs ! i)) (spec (qs ! i)) p"
    and "\<And>ok. view_kept sane view reply ok (snd c ! i) \<Longrightarrow> i \<in> set order \<Longrightarrow> view_kept sane view reply ok p"
  shows "serial qs v order (s', (snd c)[i := p])"
proof -
  note c = assms(1) [unfolded serial_def]
  have "view_kept sane view reply (\<lambda>r. agrees (qs ! (order ! j)) r (fst (spec_run spec (map ((!) qs) order) v) ! j))
      ((snd c)[i := p] ! (order ! j))" if "j < length order" for j
  proof (cases "order ! j = i")
    case True
    with that have "i \<in> set order" by auto
    with c that True assms(2,6) show ?thesis by auto
  next
    case False
    with c that show ?thesis by simp
  qed
  moreover have "\<not> replied ((snd c)[i := p] ! j) \<and>
      takes_effect sane view reply (agrees (qs ! j)) (spec (qs ! j)) ((snd c)[i := p] ! j)"
    if "j < length qs" "j \<notin> set order" for j
    using c assms(2,5) that by (cases "j = i") simp_all
  ultimately show ?thesis using c assms(3,4) by (simp add: serial_def)
qed

text \<open>The section with which a request takes effect.\<close>

lemma serial_effect:
  assumes "serial qs v order c" "i < length qs" "i \<notin> set order" "sane s'"
    and "view s' = snd (spec (qs ! i) (view (fst c)))"
    and "view_kept sane view reply (\<lambda>r. agrees (qs ! i) r (fst (spec (qs ! i) (view (fst c))))) p"
  shows "serial qs v (order @ [i]) (s', (snd c)[i := p])"
proof -
  note c = assms(1) [unfolded serial_def]
  have "view_kept sane view reply
      (\<lambda>r. agrees (qs ! ((order @ [i]) ! j)) r (fst (spec_run spec (map ((!) qs) (order @ [i])) v) ! j))
      ((snd c)[i := p] ! ((order @ [i]) ! j))" if "j < length (order @ [i])" for j
  proof (cases "j = length order")
    case True
    with c assms(2,6) show ?thesis by (simp add: spec_run_snoc nth_append)
  next
    case False
    with that have j: "j < length order" by simp
    with assms(3) have "order ! j \<noteq> i" using nth_mem by metis
    with c j show ?thesis by (simp add: spec_run_snoc nth_append)
  qed
  with c assms(2-5) show ?thesis by (simp add: serial_def spec_run_snoc)
qed

lemma serial_step:
  assumes "serial qs v order c" "i < length (snd c)" "snd c ! i = Section u k"
  shows "\<exists>new. (new = [] \<or> new = [i]) \<and> serial qs v (order @ new) (u (fst c), (snd c)[i := k (fst c)])"
proof (cases "i \<in> set order")
  case True
  then obtain j where "j < length order" "order ! j = i" by (metis in_set_conv_nth)
  with assms have "sane (u (fst c)) \<and> view (u (fst c)) = view (fst c)" by (auto simp: serial_def)
  with True assms show ?thesis
    by (intro exI [of _ "[]"] conjI disjI1 refl, unfold append_Nil2, intro serial_keep) (auto simp: serial_def)
next
  case False
  with assms(1,2) have eff: "takes_effect sane view reply (agrees (qs ! i)) (spec (qs ! i)) (snd c ! i)"
    and "sane (fst c)" "i < length qs"
    by (simp_all add: serial_def)
  then consider
      (later) "sane (u (fst c))" "view (u (fst c)) = view (fst c)"
        "takes_effect sane view reply (agrees (qs ! i)) (spec (qs ! i)) (k (fst c))"
    | (now) "sane (u (fst c))" "view (u (fst c)) = snd (spec (qs ! i) (view (fst c)))"
        "view_kept sane view reply (\<lambda>r. agrees (qs ! i) r (fst (spec (qs ! i) (view (fst c))))) (k (fst c))"
    unfolding assms(3) by auto
  then have "serial qs v order (u (fst c), (snd c)[i := k (fst c)]) \<or>
      serial qs v (order @ [i]) (u (fst c), (snd c)[i := k (fst c)])"
  proof cases
    case later
    show ?thesis
    proof (cases "replied (k (fst c))")
      case True
      with later have "serial qs v (order @ [i]) (u (fst c), (snd c)[i := k (fst c)])"
        by (intro serial_effect [OF assms(1) \<open>i < length qs\<close> \<open>i \<notin> set order\<close>]) auto
      then show ?thesis ..
    next
      case False
      with later \<open>i \<notin> set order\<close> assms \<open>i < length qs\<close> show ?thesis by (intro disjI1 serial_keep) auto
    qed
  next
    case now
    with serial_effect [OF assms(1) \<open>i < length qs\<close> False] show ?thesis by blast
  qed
  then show ?thesis by (metis append_Nil2)
qed

text \<open>The order grows at its end only, so it respects time all along.\<close>

definition timely :: "'q list \<Rightarrow> 's \<Rightarrow> nat list \<Rightarrow> nat list \<Rightarrow> bool" where
  "timely qs s order sched \<longleftrightarrow> set order \<subseteq> set sched \<and>
     (\<forall>sched1 sched2 i j. sched = sched1 @ sched2 \<longrightarrow> i < length qs \<longrightarrow>
        replied (snd (run_schedule sched1 (s, called qs)) ! i) \<longrightarrow> j \<in> set order \<longrightarrow> j \<notin> set sched1 \<longrightarrow>
        precedes order i j)"

lemma timely_snoc:
  assumes "timely qs s order sched" "new = [] \<or> new = [x]"
    and "\<And>i. i < length qs \<Longrightarrow> replied (snd (run_schedule sched (s, called qs)) ! i) \<Longrightarrow> i \<in> set order"
  shows "timely qs s (order @ new) (sched @ [x])"
  unfolding timely_def
proof (intro conjI allI impI)
  show "set (order @ new) \<subseteq> set (sched @ [x])" using assms(1,2) by (auto simp: timely_def)
next
  fix sched1 sched2 i j
  assume split: "sched @ [x] = sched1 @ sched2" and i: "i < length qs"
    and r: "replied (snd (run_schedule sched1 (s, called qs)) ! i)"
    and j: "j \<in> set (order @ new)" "j \<notin> set sched1"
  have "set order \<subseteq> set sched" using assms(1) by (simp add: timely_def)
  with j(1) assms(2) have "j \<in> set (sched @ [x])" by auto
  with j(2) split have "sched2 \<noteq> []" by (metis append_Nil2)
  then obtain sched2' where s2: "sched2 = sched2' @ [x]" "sched = sched1 @ sched2'"
    using split by (metis append_assoc append_butlast_last_id append_same_eq last_appendR last_snoc)
  show "precedes (order @ new) i j"
  proof (cases "j \<in> set order")
    case True
    with assms(1) s2(2) i r j(2) have "precedes order i j" by (fastforce simp: timely_def)
    with assms(2) show ?thesis by (auto intro: precedes_snoc)
  next
    case False
    with j(1) assms(2) have new: "new = [j]" by auto
    from r obtain a y where a: "snd (run_schedule sched1 (s, called qs)) ! i = Answer a" "reply a = Some y" by blast
    from run_answered [OF a(1), of sched2'] a(2) have "replied (snd (run_schedule sched (s, called qs)) ! i)"
      unfolding s2(2) run_schedule_append by blast
    with assms(3) i have "i \<in> set order" by blast
    then show ?thesis unfolding new by (rule precedes_last)
  qed
qed

lemma serial_run:
  assumes "sane s"
  shows "\<exists>order. serial qs (view s) order (run_schedule sched (s, called qs)) \<and> timely qs s order sched"
proof (induction sched rule: rev_induct)
  case Nil
  show ?case using serial_start [OF assms] by (intro exI [of _ "[]"]) (simp add: timely_def)
next
  case (snoc x sched)
  then obtain order where o: "serial qs (view s) order (run_schedule sched (s, called qs))" "timely qs s order sched"
    by blast
  let ?c = "run_schedule sched (s, called qs)"
  have run: "run_schedule (sched @ [x]) (s, called qs) = step_thread x ?c"
    by (simp add: run_schedule_append)
  have "\<exists>new. (new = [] \<or> new = [x]) \<and> serial qs (view s) (order @ new) (step_thread x ?c)"
  proof (cases rule: step_thread_cases [of x ?c])
    case 1
    with o(1) show ?thesis by (intro exI [of _ "[]"]) simp
  next
    case (2 u k)
    with serial_step [OF o(1)] show ?thesis by simp
  qed
  then obtain new where new: "new = [] \<or> new = [x]" "serial qs (view s) (order @ new) (step_thread x ?c)" by blast
  have "timely qs s (order @ new) (sched @ [x])"
    by (rule timely_snoc [OF o(2) new(1)]) (use o(1) in \<open>auto simp: serial_def\<close>)
  with new(2) show ?case unfolding run by blast
qed

text \<open>
  Requests that run in parallel and have all replied are linearizable: there is an order that
  respects time and in which the specification gives the final view and all the replies.
\<close>

lemma schedule_linearizes:
  assumes "sane s" "run_schedule sched (s, called qs) = (s', ps)" "\<forall>i < length qs. replied (ps ! i)"
  shows "\<exists>order. distinct order \<and> set order = {..<length qs} \<and> respects_time order sched (s, called qs) \<and>
    snd (spec_run spec (map ((!) qs) order) (view s)) = view s' \<and>
    (\<forall>j < length qs. \<exists>a r. ps ! (order ! j) = Answer a \<and> reply a = Some r \<and>
      agrees (qs ! (order ! j)) r (fst (spec_run spec (map ((!) qs) order) (view s)) ! j))"
proof -
  from serial_run [OF assms(1), of qs sched] obtain order where ser: "serial qs (view s) order (s', ps)"
    and time: "timely qs s order sched"
    unfolding assms(2) by blast
  note o = ser [unfolded serial_def]
  from o have "\<forall>i < length qs. i \<notin> set order \<longrightarrow> \<not> replied (ps ! i)" unfolding snd_conv by blast
  with assms(3) have "\<forall>i < length qs. i \<in> set order" by blast
  with o have all: "set order = {..<length qs}" by blast
  then have len: "length order = length qs" using o by (metis card_lessThan distinct_card)
  have "\<exists>a r. ps ! (order ! j) = Answer a \<and> reply a = Some r \<and>
      agrees (qs ! (order ! j)) r (fst (spec_run spec (map ((!) qs) order) (view s)) ! j)" if "j < length qs" for j
  proof -
    from that len all have "order ! j < length qs" using nth_mem by fastforce
    with assms(3) obtain a r where "ps ! (order ! j) = Answer a" "reply a = Some r" by blast
    moreover from o that len have "view_kept sane view reply (\<lambda>r. agrees (qs ! (order ! j)) r
        (fst (spec_run spec (map ((!) qs) order) (view s)) ! j)) (ps ! (order ! j))" by simp
    ultimately show ?thesis by simp
  qed
  moreover have "respects_time order sched (s, called qs)"
    unfolding respects_time_def
  proof (intro allI impI)
    fix sched1 sched2 i j
    assume split: "sched = sched1 @ sched2" and i: "i < length (snd (s, called qs))" and j: "j < length (snd (s, called qs))"
      and "answered (snd (run_schedule sched1 (s, called qs)) ! i)" and new: "j \<notin> set sched1"
    then obtain a where a: "snd (run_schedule sched1 (s, called qs)) ! i = Answer a" by (auto simp: answered_iff)
    from run_answered [OF a, of sched2] have "ps ! i = Answer a"
      using assms(2) unfolding split run_schedule_append by simp
    have n: "i < length qs" "j \<in> set order" using i j all by simp_all
    from assms(3) n(1) have "replied (ps ! i)" by blast
    then have r: "replied (snd (run_schedule sched1 (s, called qs)) ! i)" unfolding a \<open>ps ! i = Answer a\<close> .
    show "precedes order i j"
      by (rule time [unfolded timely_def, THEN conjunct2, rule_format, OF split n(1) r n(2) new])
  qed
  moreover have "distinct order" "snd (spec_run spec (map ((!) qs) order) (view s)) = view s'" using o by simp_all
  ultimately show ?thesis using all by (intro exI [of _ order] conjI) simp_all
qed

end

section \<open>Debts\<close>

text \<open>
  A request may leave something undone for a while, for instance a file that no longer holds
  what is in memory. \<open>settles\<close> says that a program which owes something (the flag) goes on owing
  until a section makes the state clean, that one which owes nothing keeps the state clean or
  owes from then on, and that none answers regularly while it owes.
\<close>

primrec settles ::
  "('s \<Rightarrow> bool) \<Rightarrow> ('s \<Rightarrow> bool) \<Rightarrow> ('a \<Rightarrow> 'r option) \<Rightarrow> ('s, 'a) prog \<Rightarrow> bool \<Rightarrow> bool" where
  "settles sane clean reply (Answer a) = (\<lambda>owes. owes \<longrightarrow> reply a = None)"
| "settles sane clean reply (Section u k) = (\<lambda>owes. \<forall>s. sane s \<longrightarrow> sane (u s) \<and>
     (settles sane clean reply (k s) True \<or>
      (owes \<or> clean s \<longrightarrow> clean (u s)) \<and> settles sane clean reply (k s) False))"

locale settling_service =
  fixes sane :: "'s \<Rightarrow> bool" and clean :: "'s \<Rightarrow> bool" and reply :: "'a \<Rightarrow> 'r option"
    and prog_of :: "'q \<Rightarrow> ('s, 'a) prog"
  assumes settles_prog_of: "settles sane clean reply (prog_of q) False"
begin

definition debts :: "bool list \<Rightarrow> 's \<times> ('s, 'a) prog list \<Rightarrow> bool" where
  "debts owes c \<longleftrightarrow> length owes = length (snd c) \<and> sane (fst c) \<and>
     (\<forall>i < length (snd c). settles sane clean reply (snd c ! i) (owes ! i)) \<and>
     (clean (fst c) \<or> (\<exists>i < length (snd c). owes ! i))"

lemma debts_step:
  assumes "debts owes c" "i < length (snd c)" "snd c ! i = Section u k"
  shows "\<exists>owes'. debts owes' (u (fst c), (snd c)[i := k (fst c)])"
proof -
  note d = assms(1) [unfolded debts_def]
  with assms(2,3) have "settles sane clean reply (Section u k) (owes ! i)" "sane (fst c)" by metis+
  then consider (owe) "sane (u (fst c))" "settles sane clean reply (k (fst c)) True"
    | (clean) "sane (u (fst c))" "settles sane clean reply (k (fst c)) False" "owes ! i \<or> clean (fst c) \<longrightarrow> clean (u (fst c))"
    by auto
  then show ?thesis
  proof cases
    case owe
    with d assms(2) have "debts (owes[i := True]) (u (fst c), (snd c)[i := k (fst c)])"
      by (auto simp: debts_def nth_list_update intro!: exI [of _ i])
    then show ?thesis ..
  next
    case clean
    have "clean (u (fst c)) \<or> (\<exists>j < length (snd c). owes[i := False] ! j)"
    proof (cases "owes ! i \<or> clean (fst c)")
      case False
      with d obtain j where "j < length (snd c)" "owes ! j" by auto
      with False have "owes[i := False] ! j" by (cases "j = i") auto
      with \<open>j < length (snd c)\<close> show ?thesis by blast
    qed (use clean(3) in blast)
    with clean d assms(2) have "debts (owes[i := False]) (u (fst c), (snd c)[i := k (fst c)])"
      by (auto simp: debts_def nth_list_update)
    then show ?thesis ..
  qed
qed

lemma debts_run:
  assumes "sane s" "clean s"
  shows "\<exists>owes. debts owes (run_schedule sched (s, map (\<lambda>q. enter (prog_of q)) qs))"
proof (rule run_schedule_invariant)
  have "debts (replicate (length qs) False) (s, map (\<lambda>q. enter (prog_of q)) qs)"
    using assms settles_prog_of by (simp add: debts_def enter_def)
  then show "\<exists>owes. debts owes (s, map (\<lambda>q. enter (prog_of q)) qs)" ..
qed (use debts_step in blast)

text \<open>When all requests have answered regularly, nothing is left undone.\<close>

lemma schedule_settles:
  assumes "sane s" "clean s" "run_schedule sched (s, map (\<lambda>q. enter (prog_of q)) qs) = (s', ps)"
    and "\<forall>i < length qs. \<exists>a r. ps ! i = Answer a \<and> reply a = Some r"
  shows "sane s' \<and> clean s'"
proof -
  from debts_run [OF assms(1,2), of sched qs] obtain owes where o: "debts owes (s', ps)"
    unfolding assms(3) by blast
  have "length ps = length qs"
  proof -
    have "length (snd (run_schedule sched (s, map (\<lambda>q. enter (prog_of q)) qs))) = length qs"
      by (rule run_schedule_invariant) simp_all
    with assms(3) show ?thesis by simp
  qed
  with o assms(4) have "\<not> owes ! i" if "i < length ps" for i
    using that by (force simp: debts_def)
  with o show ?thesis by (auto simp: debts_def)
qed

end

section \<open>Other answers\<close>

text \<open>The same program with its answers put into another type.\<close>

lemma view_kept_map:
  assumes "view_kept sane view reply ok p"
    and "\<And>a r'. reply' (f a) = Some r' \<Longrightarrow> \<exists>r. reply a = Some r \<and> (ok r \<longrightarrow> ok' r')"
  shows "view_kept sane view reply' ok' (map_prog f p)"
  using assms(1)
proof (induction p)
  case (Answer a)
  then show ?case using assms(2) by fastforce
qed simp

lemma takes_effect_map:
  assumes "takes_effect sane view reply agr spec p" "\<And>v. snd (spec' v) = snd (spec v)"
    and "\<And>a r' v. reply' (f a) = Some r' \<Longrightarrow> \<exists>r. reply a = Some r \<and> (agr r (fst (spec v)) \<longrightarrow> agr' r' (fst (spec' v)))"
  shows "takes_effect sane view reply' agr' spec' (map_prog f p)"
  using assms(1)
proof (induction p)
  case (Answer a)
  show ?case unfolding prog.map takes_effect.simps
  proof (intro allI impI)
    fix r' v assume "reply' (f a) = Some r'"
    from assms(3) [OF this, of v] Answer assms(2) show "snd (spec' v) = v \<and> agr' r' (fst (spec' v))" by auto
  qed
next
  case (Section u k)
  show ?case unfolding prog.map takes_effect.simps
  proof (intro allI impI conjI)
    fix s assume s: "sane s"
    with Section.prems show "sane (u s)" by simp
    from Section.prems s consider (later) "view (u s) = view s" "takes_effect sane view reply agr spec (k s)"
      | (now) "view (u s) = snd (spec (view s))" "view_kept sane view reply (\<lambda>r. agr r (fst (spec (view s)))) (k s)"
      by auto
    then show "view (u s) = view s \<and> takes_effect sane view reply' agr' spec' ((map_prog f \<circ> k) s) \<or>
        view (u s) = snd (spec' (view s)) \<and> view_kept sane view reply' (\<lambda>r. agr' r (fst (spec' (view s)))) ((map_prog f \<circ> k) s)"
    proof cases
      case later
      with Section.IH [of "k s"] show ?thesis by simp
    next
      case now
      have "view_kept sane view reply' (\<lambda>r. agr' r (fst (spec' (view s)))) (map_prog f (k s))"
        by (rule view_kept_map [OF now(2)]) (rule assms(3))
      with now(1) assms(2) show ?thesis by simp
    qed
  qed
qed

lemma settles_map:
  assumes "settles sane clean reply p owes" "\<And>a. reply a = None \<Longrightarrow> reply' (f a) = None"
  shows "settles sane clean reply' (map_prog f p) owes"
  using assms(1) by (induction p arbitrary: owes) (auto simp: assms(2))

lemma run_map: "run_prog (map_prog f p) s = map_prod f (\<lambda>s. s) (run_prog p s)"
  by (induction p arbitrary: s) simp_all

section \<open>Services over one registry\<close>

text \<open>
  The services of the program own a registry through a pointer, null before they are started,
  and save it to a file. An operation of the registry and a save are one section each: both hold
  the mutex of the registry. \<open>reg_of\<close> and \<open>set_reg\<close> say where the registry is in the state.
\<close>

definition call_section ::
  "('s \<Rightarrow> 'r option) \<Rightarrow> ('r \<Rightarrow> 's \<Rightarrow> 's) \<Rightarrow> ('r \<Rightarrow> 'b \<times> 'r) \<Rightarrow> ('b \<Rightarrow> ('s, 'a outcome) prog) \<Rightarrow> ('s, 'a outcome) prog" where
  "call_section reg_of set_reg f k = Section
     (\<lambda>s. case reg_of s of None \<Rightarrow> s | Some r \<Rightarrow> set_reg (snd (f r)) s)
     (\<lambda>s. case reg_of s of None \<Rightarrow> Answer (Inl Undefined) | Some r \<Rightarrow> k (fst (f r)))"

definition save_section ::
  "('s \<Rightarrow> 'r option) \<Rightarrow> ('r \<Rightarrow> 's \<Rightarrow> unit outcome \<times> 's) \<Rightarrow> ('s, 'a outcome) prog \<Rightarrow> ('s, 'a outcome) prog" where
  "save_section reg_of save p = Section
     (\<lambda>s. case reg_of s of None \<Rightarrow> s | Some r \<Rightarrow> snd (save r s))
     (\<lambda>s. case reg_of s of
        None \<Rightarrow> Answer (Inl Undefined)
      | Some r \<Rightarrow> (case fst (save r s) of Inl e \<Rightarrow> Answer (Inl e) | Inr _ \<Rightarrow> p))"

text \<open>
  The view of such a service is what its registry holds; it is sane while the registry is there
  and well formed on a usable disk, and clean while the file holds the registry. A request that
  checks for a key before it changes the registry may find it gone by then; \<open>agr\<close> says which
  replies are accepted.
\<close>

locale saved_registry =
  fixes reg_of :: "'s \<Rightarrow> 'r option" and set_reg :: "'r \<Rightarrow> 's \<Rightarrow> 's"
    and wf_reg :: "'r \<Rightarrow> bool" and content :: "'r \<Rightarrow> 'v"
    and save :: "'r \<Rightarrow> 's \<Rightarrow> unit outcome \<times> 's"
    and usable :: "'s \<Rightarrow> bool" and holds :: "'r \<Rightarrow> 's \<Rightarrow> bool"
    and sane :: "'s \<Rightarrow> bool" and clean :: "'s \<Rightarrow> bool" and view :: "'s \<Rightarrow> 'v"
    and reply :: "'a outcome \<Rightarrow> 'i option"
  assumes reg_set: "reg_of (set_reg r s) = Some r"
    and usable_set: "usable (set_reg r s) = usable s"
    and holds_set: "holds r (set_reg r' s) = holds r s"
    and save_reg: "reg_of (snd (save r s)) = Some r"
    and save_usable: "usable s \<Longrightarrow> usable (snd (save r s))"
    and save_holds: "usable s \<Longrightarrow> fst (save r s) = Inr () \<Longrightarrow> holds r (snd (save r s))"
    and sane_iff: "sane s \<longleftrightarrow> usable s \<and> (\<exists>r. reg_of s = Some r \<and> wf_reg r)"
    and clean_iff: "clean s \<longleftrightarrow> (\<exists>r. reg_of s = Some r \<and> holds r s)"
    and view_reg: "reg_of s = Some r \<Longrightarrow> view s = content r"
    and reply_exn: "reply (Inl e) = None"
begin

lemma saneE:
  assumes "sane s"
  obtains r where "reg_of s = Some r" "wf_reg r" "view s = content r" "usable s"
  using assms sane_iff view_reg by blast

lemma sane_set: "sane s \<Longrightarrow> wf_reg r \<Longrightarrow> sane (set_reg r s)"
  by (simp add: sane_iff reg_set usable_set)

lemma sane_save: "sane s \<Longrightarrow> reg_of s = Some r \<Longrightarrow> sane (snd (save r s)) \<and> view (snd (save r s)) = view s"
  using view_reg save_reg by (auto simp: sane_iff save_usable)

lemma view_kept_save:
  assumes "view_kept sane view reply ok p"
  shows "view_kept sane view reply ok (save_section reg_of save p)"
  unfolding save_section_def view_kept.simps
proof (intro allI impI)
  fix s assume s: "sane s"
  then obtain r where r: "reg_of s = Some r" by (rule saneE)
  with assms sane_save [OF s r] show
    "sane (case reg_of s of None \<Rightarrow> s | Some r \<Rightarrow> snd (save r s)) \<and>
     view (case reg_of s of None \<Rightarrow> s | Some r \<Rightarrow> snd (save r s)) = view s \<and>
     view_kept sane view reply ok (case reg_of s of None \<Rightarrow> Answer (Inl Undefined)
       | Some r \<Rightarrow> (case fst (save r s) of Inl e \<Rightarrow> Answer (Inl e) | Inr _ \<Rightarrow> p))"
    by (simp add: reply_exn split: sum.split)
qed

lemma takes_effect_change:
  assumes "\<And>r. wf_reg r \<Longrightarrow> wf_reg (snd (f r))"
    and "\<And>r. wf_reg r \<Longrightarrow> content (snd (f r)) = snd (spec (content r))"
    and "\<And>r. wf_reg r \<Longrightarrow> view_kept sane view reply (\<lambda>st. agr st (fst (spec (content r)))) (p (fst (f r)))"
  shows "takes_effect sane view reply agr spec (call_section reg_of set_reg f p)"
  unfolding call_section_def takes_effect.simps
proof (intro allI impI)
  fix s assume s: "sane s"
  then obtain r where r: "reg_of s = Some r" "wf_reg r" "view s = content r" by (rule saneE)
  from sane_set [OF s assms(1) [OF r(2)]] r assms(2,3) [OF r(2)] view_reg [OF reg_set] show
    "sane (case reg_of s of None \<Rightarrow> s | Some r \<Rightarrow> set_reg (snd (f r)) s) \<and>
     (view (case reg_of s of None \<Rightarrow> s | Some r \<Rightarrow> set_reg (snd (f r)) s) = view s \<and>
      takes_effect sane view reply agr spec (case reg_of s of None \<Rightarrow> Answer (Inl Undefined) | Some r \<Rightarrow> p (fst (f r))) \<or>
      view (case reg_of s of None \<Rightarrow> s | Some r \<Rightarrow> set_reg (snd (f r)) s) = snd (spec (view s)) \<and>
      view_kept sane view reply (\<lambda>st. agr st (fst (spec (view s))))
        (case reg_of s of None \<Rightarrow> Answer (Inl Undefined) | Some r \<Rightarrow> p (fst (f r))))"
    by simp
qed

text \<open>A check: it may settle the answer, or the request goes on to take effect.\<close>

lemma takes_effect_check:
  assumes "\<And>r. wf_reg r \<Longrightarrow> \<not> b r \<Longrightarrow> snd (spec (content r)) = content r \<and>
      (\<forall>st. reply a = Some st \<longrightarrow> agr st (fst (spec (content r))))"
    and "takes_effect sane view reply agr spec p"
  shows "takes_effect sane view reply agr spec
    (call_section reg_of set_reg (\<lambda>r. (b r, r)) (\<lambda>found. if \<not> found then Answer a else p))"
  unfolding call_section_def takes_effect.simps
proof (intro allI impI)
  fix s assume s: "sane s"
  then obtain r where r: "reg_of s = Some r" "wf_reg r" "view s = content r" by (rule saneE)
  from sane_set [OF s r(2)] r assms(1) [OF r(2)] assms(2) view_reg [OF reg_set] show
    "sane (case reg_of s of None \<Rightarrow> s | Some r \<Rightarrow> set_reg (snd (b r, r)) s) \<and>
     (view (case reg_of s of None \<Rightarrow> s | Some r \<Rightarrow> set_reg (snd (b r, r)) s) = view s \<and>
      takes_effect sane view reply agr spec (case reg_of s of None \<Rightarrow> Answer (Inl Undefined)
        | Some r \<Rightarrow> (if \<not> fst (b r, r) then Answer a else p)) \<or>
      view (case reg_of s of None \<Rightarrow> s | Some r \<Rightarrow> set_reg (snd (b r, r)) s) = snd (spec (view s)) \<and>
      view_kept sane view reply (\<lambda>st. agr st (fst (spec (view s)))) (case reg_of s of None \<Rightarrow> Answer (Inl Undefined)
        | Some r \<Rightarrow> (if \<not> fst (b r, r) then Answer a else p)))"
    by (cases "b r") auto
qed

lemma settles_save:
  assumes "settles sane clean reply p False"
  shows "settles sane clean reply (save_section reg_of save p) owes"
  unfolding save_section_def settles.simps
proof (intro allI impI)
  fix s assume s: "sane s"
  then obtain r where r: "reg_of s = Some r" "usable s" by (rule saneE)
  have "clean (snd (save r s))" if "fst (save r s) = Inr x" for x
    using save_holds [OF r(2)] save_reg that by (auto simp: clean_iff)
  with r assms sane_save [OF s r(1)] show
    "sane (case reg_of s of None \<Rightarrow> s | Some r \<Rightarrow> snd (save r s)) \<and>
     (settles sane clean reply (case reg_of s of None \<Rightarrow> Answer (Inl Undefined)
         | Some r \<Rightarrow> (case fst (save r s) of Inl e \<Rightarrow> Answer (Inl e) | Inr _ \<Rightarrow> p)) True \<or>
      (owes \<or> clean s \<longrightarrow> clean (case reg_of s of None \<Rightarrow> s | Some r \<Rightarrow> snd (save r s))) \<and>
      settles sane clean reply (case reg_of s of None \<Rightarrow> Answer (Inl Undefined)
         | Some r \<Rightarrow> (case fst (save r s) of Inl e \<Rightarrow> Answer (Inl e) | Inr _ \<Rightarrow> p)) False)"
    by (cases "fst (save r s)") (simp_all add: reply_exn)
qed

lemma settles_call:
  assumes "\<And>r. wf_reg r \<Longrightarrow> wf_reg (snd (f r))"
    and "\<And>r. wf_reg r \<Longrightarrow> settles sane clean reply (p (fst (f r))) True \<or>
      snd (f r) = r \<and> settles sane clean reply (p (fst (f r))) False"
  shows "settles sane clean reply (call_section reg_of set_reg f p) False"
  unfolding call_section_def settles.simps
proof (intro allI impI)
  fix s assume s: "sane s"
  then obtain r where r: "reg_of s = Some r" "wf_reg r" by (rule saneE)
  have "clean (set_reg r s) = clean s" using r(1) by (simp add: clean_iff reg_set holds_set)
  with sane_set [OF s assms(1) [OF r(2)]] r(1) assms(2) [OF r(2)] show
    "sane (case reg_of s of None \<Rightarrow> s | Some r \<Rightarrow> set_reg (snd (f r)) s) \<and>
     (settles sane clean reply (case reg_of s of None \<Rightarrow> Answer (Inl Undefined) | Some r \<Rightarrow> p (fst (f r))) True \<or>
      (False \<or> clean s \<longrightarrow> clean (case reg_of s of None \<Rightarrow> s | Some r \<Rightarrow> set_reg (snd (f r)) s)) \<and>
      settles sane clean reply (case reg_of s of None \<Rightarrow> Answer (Inl Undefined) | Some r \<Rightarrow> p (fst (f r))) False)"
    by auto
qed

lemma settles_check:
  assumes "settles sane clean reply p False"
  shows "settles sane clean reply
    (call_section reg_of set_reg (\<lambda>r. (b r, r)) (\<lambda>found. if \<not> found then Answer a else p)) False"
  by (rule settles_call) (use assms in simp_all)

lemma settles_change:
  assumes "\<And>r. wf_reg r \<Longrightarrow> wf_reg (snd (f r))" "\<And>x. settles sane clean reply (p x) True"
  shows "settles sane clean reply (call_section reg_of set_reg f p) False"
  by (rule settles_call) (use assms in blast)+

end

end
