(* ===== verification/Registry_Threads.thy ===== *)
theory Registry_Threads
  imports Results Request_Threads
begin

text \<open>
  Requests to a service over a registry, reading ones included: \<open>get\<close> and \<open>list\<close> are one section of
  the registry each and answer what they found. What is said of the changing requests in terms of
  their status codes carries over to all requests with their full answers.
\<close>

datatype 'q access = Change 'q | Get string | ListAll

datatype 'd access_answer = Changed cpp_result | Found "'d option" | Listed "'d list"

text \<open>What a client can tell from an answer; the order of a list is that of a hash table.\<close>

datatype 'd access_reply = StatusCode int | Item "'d option" | Items "'d set"

definition status_of :: "cpp_result outcome \<Rightarrow> int option" where
  "status_of a = (case a of Inl _ \<Rightarrow> None | Inr res \<Rightarrow> Some (r_status res))"

fun access_reply_of :: "'d access_answer outcome \<Rightarrow> 'd access_reply option" where
  "access_reply_of (Inl _) = None"
| "access_reply_of (Inr (Changed res)) = Some (StatusCode (r_status res))"
| "access_reply_of (Inr (Found d)) = Some (Item d)"
| "access_reply_of (Inr (Listed ds)) = Some (Items (set ds))"

lemma status_of_simps [simp]:
  "status_of (Inl e) = None" "status_of (Inr res) = Some (r_status res)"
  by (simp_all add: status_of_def)

lemma status_of_Some: "status_of a = Some st \<longleftrightarrow> (\<exists>res. a = Inr res \<and> r_status res = st)"
  by (cases a) simp_all

lemma access_reply_Some: "access_reply_of a = Some r \<Longrightarrow> \<exists>x. a = Inr x"
  by (cases a) simp_all

lemma access_reply_Inr: "\<exists>r. access_reply_of (Inr x) = Some r"
  by (cases x) simp_all

lemma access_answers:
  "\<forall>i < n. \<exists>x. ps ! i = Answer (Inr x) \<Longrightarrow> \<forall>i < n. \<exists>a r. ps ! i = Answer a \<and> access_reply_of a = Some r"
  using access_reply_Inr by blast

lemma access_reply_changed:
  "access_reply_of (map_sum (\<lambda>e. e) Changed a) = map_option StatusCode (status_of a)"
  by (cases a) simp_all

text \<open>The specification of all requests, from that of the changing ones, and which replies it accepts.\<close>

fun spec_access ::
  "('q \<Rightarrow> (string \<Rightarrow> 'd option) \<Rightarrow> int \<times> (string \<Rightarrow> 'd option)) \<Rightarrow> 'q access \<Rightarrow> (string \<Rightarrow> 'd option)
     \<Rightarrow> 'd access_reply \<times> (string \<Rightarrow> 'd option)" where
  "spec_access spec (Change q) m = (StatusCode (fst (spec q m)), snd (spec q m))"
| "spec_access spec (Get k) m = (Item (m k), m)"
| "spec_access spec ListAll m = (Items (ran m), m)"

fun access_agrees :: "('q \<Rightarrow> int \<Rightarrow> int \<Rightarrow> bool) \<Rightarrow> 'q access \<Rightarrow> 'd access_reply \<Rightarrow> 'd access_reply \<Rightarrow> bool" where
  "access_agrees agr (Change q) (StatusCode actual) (StatusCode specified) = agr q actual specified"
| "access_agrees agr _ actual specified = (actual = specified)"

text \<open>
  The programs: \<open>call f p\<close> is one operation \<open>f\<close> of the registry, with \<open>get\<close> and \<open>listing\<close> what it
  answers to a reading request.
\<close>

definition access_prog ::
  "('s \<Rightarrow> 'r option) \<Rightarrow> ('r \<Rightarrow> 's \<Rightarrow> 's) \<Rightarrow> (string \<Rightarrow> 'r \<Rightarrow> 'd option) \<Rightarrow> ('r \<Rightarrow> 'd list)
     \<Rightarrow> ('q \<Rightarrow> ('s, cpp_result outcome) prog) \<Rightarrow> 'q access \<Rightarrow> ('s, 'd access_answer outcome) prog" where
  "access_prog reg_of set_reg get listing change q =
     (case q of
        Change c \<Rightarrow> map_prog (map_sum (\<lambda>e. e) Changed) (change c)
      | Get k \<Rightarrow> call_section reg_of set_reg (\<lambda>r. (get k r, r)) (\<lambda>d. Answer (Inr (Found d)))
      | ListAll \<Rightarrow> call_section reg_of set_reg (\<lambda>r. (listing r, r)) (\<lambda>ds. Answer (Inr (Listed ds))))"

locale readable_registry =
  saved_registry reg_of set_reg wf_reg content save usable holds sane clean view status_of
  for reg_of :: "'s \<Rightarrow> 'r option" and set_reg :: "'r \<Rightarrow> 's \<Rightarrow> 's"
    and wf_reg :: "'r \<Rightarrow> bool" and content :: "'r \<Rightarrow> string \<Rightarrow> 'd option"
    and save :: "'r \<Rightarrow> 's \<Rightarrow> unit outcome \<times> 's"
    and usable :: "'s \<Rightarrow> bool" and holds :: "'r \<Rightarrow> 's \<Rightarrow> bool"
    and sane :: "'s \<Rightarrow> bool" and clean :: "'s \<Rightarrow> bool" and view :: "'s \<Rightarrow> string \<Rightarrow> 'd option" +
  fixes get :: "string \<Rightarrow> 'r \<Rightarrow> 'd option" and listing :: "'r \<Rightarrow> 'd list"
  assumes get_content: "get k r = content r k"
    and set_listing: "wf_reg r \<Longrightarrow> set (listing r) = ran (content r)"
    and set_same: "reg_of s = Some r \<Longrightarrow> set_reg r s = s"
begin

lemma reading_takes_effect:
  assumes "\<And>r. wf_reg r \<Longrightarrow> access_reply_of (Inr (ans (f r))) = Some (fst (spec (content r)))" "\<And>m. snd (spec m) = m"
  shows "takes_effect sane view access_reply_of (=) spec
    (call_section reg_of set_reg (\<lambda>r. (f r, r)) (\<lambda>x. Answer (Inr (ans x))))"
  unfolding call_section_def takes_effect.simps
proof (intro allI impI)
  fix s assume s: "sane s"
  then obtain r where r: "reg_of s = Some r" "wf_reg r" "view s = content r" by (rule saneE)
  with s assms set_same [OF r(1)] show
    "sane (case reg_of s of None \<Rightarrow> s | Some r \<Rightarrow> set_reg (snd (f r, r)) s) \<and>
     (view (case reg_of s of None \<Rightarrow> s | Some r \<Rightarrow> set_reg (snd (f r, r)) s) = view s \<and>
      takes_effect sane view access_reply_of (=) spec (case reg_of s of None \<Rightarrow> Answer (Inl Undefined)
        | Some r \<Rightarrow> Answer (Inr (ans (fst (f r, r))))) \<or>
      view (case reg_of s of None \<Rightarrow> s | Some r \<Rightarrow> set_reg (snd (f r, r)) s) = snd (spec (view s)) \<and>
      view_kept sane view access_reply_of (\<lambda>y. y = fst (spec (view s))) (case reg_of s of None \<Rightarrow> Answer (Inl Undefined)
        | Some r \<Rightarrow> Answer (Inr (ans (fst (f r, r))))))"
    by simp
qed

lemma access_takes_effect:
  assumes "\<And>c. takes_effect sane view status_of (agr c) (spec c) (change c)"
  shows "takes_effect sane view access_reply_of (access_agrees agr q) (spec_access spec q)
    (access_prog reg_of set_reg get listing change q)"
proof (cases q)
  case (Change c)
  show ?thesis
    unfolding access_prog_def Change access.case
    by (rule takes_effect_map [OF assms]) (auto simp: access_reply_changed)
next
  case (Get k)
  have agr: "access_agrees agr (Get k) = (=)" by (simp add: fun_eq_iff)
  show ?thesis
    unfolding Get access_prog_def access.case agr by (rule reading_takes_effect) (simp_all add: get_content)
next
  case ListAll
  have agr: "access_agrees agr ListAll = (=)" by (simp add: fun_eq_iff)
  show ?thesis
    unfolding ListAll access_prog_def access.case agr by (rule reading_takes_effect) (simp_all add: set_listing)
qed

text \<open>Alone, a request answers what the registry holds, and a reading one changes nothing.\<close>

lemma access_alone:
  "run_prog (access_prog reg_of set_reg get listing change (Change c)) s =
     map_prod (map_sum (\<lambda>e. e) Changed) (\<lambda>s. s) (run_prog (change c) s)"
  "run_prog (access_prog reg_of set_reg get listing change (Get k)) s =
     (case reg_of s of None \<Rightarrow> Inl Undefined | Some r \<Rightarrow> Inr (Found (get k r)), s)"
  "run_prog (access_prog reg_of set_reg get listing change ListAll) s =
     (case reg_of s of None \<Rightarrow> Inl Undefined | Some r \<Rightarrow> Inr (Listed (listing r)), s)"
  by (simp_all add: access_prog_def run_map call_section_def set_same split: option.split)

lemma reading_settles:
  "settles sane clean access_reply_of (call_section reg_of set_reg (\<lambda>r. (f r, r)) (\<lambda>x. Answer (Inr (ans x)))) False"
  unfolding call_section_def settles.simps
  by (auto simp: sane_iff set_same)

lemma access_settles:
  assumes "\<And>c. settles sane clean status_of (change c) False"
  shows "settles sane clean access_reply_of (access_prog reg_of set_reg get listing change q) False"
proof (cases q)
  case (Change c)
  show ?thesis
    unfolding access_prog_def Change access.case
    by (rule settles_map [OF assms]) (simp add: access_reply_changed)
qed (simp_all only: access_prog_def access.case reading_settles)

end

end
