(* ===== verification/Device_Threads.thy ===== *)
theory Device_Threads
  imports Devices Registry_Threads
begin

text \<open>
  The requests of \<open>DeviceService\<close> (src/services/DeviceService.cpp) running in parallel. Every
  operation of \<open>DeviceRegistry\<close>, \<open>save\<close> included, holds the mutex of the registry, and
  \<open>publish\<close> that of the bus, so each is one section; the service itself holds no lock, so other
  requests may run between the check of an id, the change, the save and the event.
\<close>

section \<open>The requests as programs\<close>

type_synonym ('j, 'c) device_prog = "(('j, 'c) device_world, cpp_result outcome) prog"

text \<open>An operation of the registry, and \<open>_registry->save()\<close>, which writes whatever is there by then.\<close>

definition registry_call ::
  "('j devices \<Rightarrow> 'b \<times> 'j devices) \<Rightarrow> ('b \<Rightarrow> ('j, 'c) device_prog) \<Rightarrow> ('j, 'c) device_prog" where
  "registry_call = call_section dv_reg (\<lambda>r w. w\<lparr>dv_reg := Some r\<rparr>)"

definition save_call :: "'j json_api \<Rightarrow> ('j, 'c) device_prog \<Rightarrow> ('j, 'c) device_prog" where
  "save_call J = save_section dv_reg (persist J)"

definition publish_call :: "event \<Rightarrow> cpp_result \<Rightarrow> ('j, 'c) device_prog" where
  "publish_call e res = Section (\<lambda>w. w\<lparr>dv_bus := bus_publish e (dv_bus w)\<rparr>) (\<lambda>_. Answer (Inr res))"

definition add_prog :: "'j json_api \<Rightarrow> u64 \<Rightarrow> string \<Rightarrow> string \<Rightarrow> ('j, 'c) device_prog" where
  "add_prog J rnd name ty =
     (if name = [] \<or> ty = [] then
        Answer (Inr (result_badRequest (''Fields '' @ quoted ''name'' @ '' and '' @ quoted ''type'' @ '' are required'')))
      else
        let d = \<lparr>d_id = generateId rnd, d_name = name, d_type = ty, d_state = j_object J [], d_online = False\<rparr>
        in registry_call (device_add d) (\<lambda>ok.
             if \<not> ok then Answer (Inr (result_conflict ''Device with this id already exists''))
             else save_call J (publish_call \<lparr>ev_name = ''device.registered'', ev_data = AnyString (d_id d)\<rparr>
                    (result_created (''Device '' @ quoted (d_id d) @ '' registered'')))))"

definition remove_prog :: "'j json_api \<Rightarrow> string \<Rightarrow> ('j, 'c) device_prog" where
  "remove_prog J k = registry_call (\<lambda>r. (device_exists k r, r)) (\<lambda>found.
     if \<not> found then Answer (Inr (result_notFound (''Device '' @ quoted k @ '' not found'')))
     else registry_call (device_remove k) (\<lambda>_.
       save_call J (publish_call \<lparr>ev_name = ''device.removed'', ev_data = AnyString k\<rparr>
         (result_ok (''Device '' @ quoted k @ '' removed'')))))"

definition command_prog :: "'j json_api \<Rightarrow> string \<Rightarrow> 'j \<Rightarrow> ('j, 'c) device_prog" where
  "command_prog J k payload = registry_call (\<lambda>r. (device_exists k r, r)) (\<lambda>found.
     if \<not> found then Answer (Inr (result_notFound (''Device '' @ quoted k @ '' not found'')))
     else registry_call (device_updateState J k payload) (\<lambda>_.
       save_call J
         (case dump_exn J (j_object J [(''id'', j_string J k), (''payload'', payload)]) of
            Inl e \<Rightarrow> Answer (Inl e)
          | Inr content \<Rightarrow> publish_call \<lparr>ev_name = ''device.command'', ev_data = AnyString content\<rparr>
              (result_ok (''Command applied to device '' @ quoted k)))))"

fun device_prog_of :: "'j json_api \<Rightarrow> 'j device_req \<Rightarrow> ('j, 'c) device_prog" where
  "device_prog_of J (ReqAdd rnd n t) = add_prog J rnd n t"
| "device_prog_of J (ReqRemove k) = remove_prog J k"
| "device_prog_of J (ReqCommand k p) = command_prog J k p"

text \<open>All requests: those that change the devices, \<open>get\<close> and \<open>list\<close>.\<close>

definition device_access ::
  "'j json_api \<Rightarrow> 'j device_req access \<Rightarrow> (('j, 'c) device_world, 'j device access_answer outcome) prog" where
  "device_access J = access_prog dv_reg (\<lambda>r w. w\<lparr>dv_reg := Some r\<rparr>) device_get device_list (device_prog_of J)"

lemmas device_prog_defs = registry_call_def save_call_def call_section_def save_section_def publish_call_def add_prog_def remove_prog_def
  command_prog_def

text \<open>A request that runs alone does what the sequential model of the service says.\<close>

lemma persist_reg [simp]: "dv_reg (snd (persist J r w)) = Some r"
  by (simp add: persist_def split: prod.split)

lemma persist_cong: "persist J r (w\<lparr>dv_reg := x\<rparr>) = persist J r w"
  by (simp add: persist_def split: prod.split)

lemma device_add_refused: "device_add d r = (False, r') \<Longrightarrow> r' = r"
  by (simp add: device_add_def split: if_splits)

lemma device_prog_alone: "run_prog (device_prog_of J q) w = device_handle J q w"
proof (cases "dv_reg w")
  case None
  then show ?thesis
    by (cases q) (simp_all add: device_prog_defs devices_add_def devices_remove_def devices_command_def
        with_registry_def Let_def)
next
  case (Some r)
  then have same: "w\<lparr>dv_reg := Some r\<rparr> = w" by simp
  show ?thesis
  proof (cases q)
    case (ReqAdd rnd n t)
    let ?d = "\<lparr>d_id = generateId rnd, d_name = n, d_type = t, d_state = j_object J [], d_online = False\<rparr>"
    obtain ok r' where add: "device_add ?d r = (ok, r')" by (cases "device_add ?d r")
    with same have "\<not> ok \<Longrightarrow> w\<lparr>dv_reg := Some r'\<rparr> = w" by (auto dest: device_add_refused)
    with Some add ReqAdd show ?thesis
      by (auto simp: device_prog_defs devices_add_def with_registry_def Let_def persist_cong
          split: prod.splits sum.splits)
  qed (use Some same in \<open>auto simp: device_prog_defs devices_remove_def devices_command_def
      with_registry_def persist_cong split: prod.splits sum.splits\<close>)
qed

section \<open>The contract\<close>

text \<open>
  The service between sections: a registry is there, well formed, on a disk that works. The
  view is the map from ids to devices. Clean means that the file holds the registry.
\<close>

definition devices_sane :: "('j, 'c) device_world \<Rightarrow> bool" where
  "devices_sane w \<longleftrightarrow> healthy (dv_disk w) \<and> (\<exists>r. dv_reg w = Some r \<and> devices_wf r)"

definition devices_clean :: "'j json_api \<Rightarrow> ('j, 'c) device_world \<Rightarrow> bool" where
  "devices_clean J w \<longleftrightarrow> (\<exists>r. dv_reg w = Some r \<and> file_of J r (dv_disk w))"

text \<open>
  The reply a request may give where the specification says another one: a removal or a command
  whose device is removed after the check is still answered with success.
\<close>

fun device_agrees :: "'j device_req \<Rightarrow> int \<Rightarrow> int \<Rightarrow> bool" where
  "device_agrees (ReqAdd _ _ _) actual specified = (actual = specified)"
| "device_agrees _ actual specified = (actual = specified \<or> actual = 200 \<and> specified = 404)"

lemma persist_healthy: "healthy (dv_disk w) \<Longrightarrow> healthy (dv_disk (snd (persist J r w)))"
  by (auto simp: persist_def device_save_def disk_save_def healthy_def Let_def split: prod.split sum.split)

lemma lookup_reg [simp]: "lookup (w\<lparr>dv_reg := Some r\<rparr>) = (\<lambda>k. device_get k r)"
  by (simp add: lookup_def fun_eq_iff)

interpretation device_sections: readable_registry dv_reg "\<lambda>r w. w\<lparr>dv_reg := Some r\<rparr>" devices_wf "\<lambda>r k. device_get k r"
    "persist J" "\<lambda>w. healthy (dv_disk w)" "\<lambda>r w. file_of J r (dv_disk w)" devices_sane "devices_clean J" lookup
    device_get device_list
    for J
proof
  fix r :: "'a devices" and w :: "('a, 'c) device_world"
  show "devices_wf r \<Longrightarrow> set (device_list r) = ran (\<lambda>k. device_get k r)" by (rule device_registry.items_ran)
  show "healthy (dv_disk w) \<Longrightarrow> fst (persist J r w) = Inr () \<Longrightarrow> file_of J r (dv_disk (snd (persist J r w)))"
    using persist_Inr [of J r w "()" "snd (persist J r w)"] by (simp add: prod_eq_iff)
qed (auto simp: persist_healthy devices_sane_def devices_clean_def lookup_def)

lemma view_kept_publish:
  "ok (r_status res) \<Longrightarrow> view_kept devices_sane lookup status_of ok (publish_call e res)"
  by (simp add: publish_call_def devices_sane_def lookup_def fun_eq_iff)

lemma view_kept_saved:
  "ok (r_status res) \<Longrightarrow> view_kept devices_sane lookup status_of ok (save_call J (publish_call e res))"
  unfolding save_call_def by (intro device_sections.view_kept_save view_kept_publish)

lemma add_takes_effect:
  "takes_effect devices_sane lookup status_of (=) (spec_request J (ReqAdd rnd name ty)) (add_prog J rnd name ty)"
proof (cases "name = [] \<or> ty = []")
  case False
  let ?d = "\<lparr>d_id = generateId rnd, d_name = name, d_type = ty, d_state = j_object J [], d_online = False\<rparr>"
  have get: "(\<lambda>k. device_get k (snd (device_add ?d r))) =
      (if device_get (generateId rnd) r = None then (\<lambda>k. device_get k r)(generateId rnd \<mapsto> ?d) else (\<lambda>k. device_get k r))" for r
    using device_registry.get_add [of _ ?d r] by (auto simp: fun_eq_iff)
  have "takes_effect devices_sane lookup status_of (=) (spec_request J (ReqAdd rnd name ty))
    (registry_call (device_add ?d) (\<lambda>ok.
       if \<not> ok then Answer (Inr (result_conflict ''Device with this id already exists''))
       else save_call J (publish_call \<lparr>ev_name = ''device.registered'', ev_data = AnyString (d_id ?d)\<rparr>
              (result_created (''Device '' @ quoted (d_id ?d) @ '' registered'')))))"
    unfolding registry_call_def
  proof (rule device_sections.takes_effect_change)
    show "\<And>r. devices_wf r \<Longrightarrow> devices_wf (snd (device_add ?d r))" by (rule device_registry.wf_add)
    show "(\<lambda>k. device_get k (snd (device_add ?d r))) = snd (spec_request J (ReqAdd rnd name ty) (\<lambda>k. device_get k r))" for r
      unfolding get using False by simp
    show "view_kept devices_sane lookup status_of (\<lambda>st. st = fst (spec_request J (ReqAdd rnd name ty) (\<lambda>k. device_get k r)))
       (if \<not> fst (device_add ?d r) then Answer (Inr (result_conflict ''Device with this id already exists''))
        else save_call J (publish_call \<lparr>ev_name = ''device.registered'', ev_data = AnyString (d_id ?d)\<rparr>
              (result_created (''Device '' @ quoted (d_id ?d) @ '' registered''))))" for r
      using False by (auto simp: device_registry.add_result intro!: view_kept_saved)
  qed
  with False show ?thesis by (simp add: add_prog_def Let_def)
qed (auto simp: add_prog_def)

text \<open>A removal and a command: the check, and the change, which may come too late.\<close>

lemma checked_takes_effect:
  assumes absent: "\<And>m. m k = None \<Longrightarrow> spec m = (404, m)"
    and present: "\<And>m. m k \<noteq> None \<Longrightarrow> fst (spec m) = 200"
    and change: "\<And>r. devices_wf r \<Longrightarrow> devices_wf (snd (f r))"
      "\<And>r. devices_wf r \<Longrightarrow> (\<lambda>k. device_get k (snd (f r))) = snd (spec (\<lambda>k. device_get k r))"
    and p: "\<And>ok x. ok 200 \<Longrightarrow> view_kept devices_sane lookup status_of ok (p x)"
    and agr: "agr = (\<lambda>st st'. st = st' \<or> st = 200 \<and> st' = 404)"
  shows "takes_effect devices_sane lookup status_of agr spec
    (registry_call (\<lambda>r. (device_exists k r, r)) (\<lambda>found.
       if \<not> found then Answer (Inr (result_notFound msg)) else registry_call f p))"
  unfolding registry_call_def
proof (rule device_sections.takes_effect_check)
  fix r :: "'a devices"
  show "\<not> device_exists k r \<Longrightarrow> snd (spec (\<lambda>k. device_get k r)) = (\<lambda>k. device_get k r) \<and>
      (\<forall>st. status_of (Inr (result_notFound msg)) = Some st \<longrightarrow> agr st (fst (spec (\<lambda>k. device_get k r))))"
    by (simp add: device_registry.exists_get absent agr)
next
  show "takes_effect devices_sane lookup status_of agr spec (call_section dv_reg (\<lambda>r w. w\<lparr>dv_reg := Some r\<rparr>) f p)"
  proof (rule device_sections.takes_effect_change)
    show "view_kept devices_sane lookup status_of (\<lambda>st. agr st (fst (spec (\<lambda>k. device_get k r)))) (p (fst (f r)))" for r
      by (rule p) (cases "device_get k r"; simp add: agr absent present)
  qed (fact change)+
qed

lemma device_prog_takes_effect:
  "takes_effect devices_sane lookup status_of (device_agrees q) (spec_request J q) (device_prog_of J q)"
proof (cases q)
  case (ReqAdd rnd n t)
  have "device_agrees q = (=)" using ReqAdd by (simp add: fun_eq_iff)
  with add_takes_effect ReqAdd show ?thesis by simp
next
  case (ReqRemove k)
  have agr: "device_agrees q = (\<lambda>st st'. st = st' \<or> st = 200 \<and> st' = 404)" using ReqRemove by (simp add: fun_eq_iff)
  show ?thesis
    unfolding agr unfolding ReqRemove device_prog_of.simps remove_prog_def
  proof (rule checked_takes_effect)
    show "\<And>r. devices_wf r \<Longrightarrow> devices_wf (snd (device_remove k r))" by (rule device_registry.wf_remove)
    show "(\<lambda>k'. device_get k' (snd (device_remove k r))) = snd (spec_request J (ReqRemove k) (\<lambda>k. device_get k r))" for r
      by (auto simp: fun_eq_iff device_registry.get_remove)
  qed (auto intro!: view_kept_saved)
next
  case (ReqCommand k pl)
  have agr: "device_agrees q = (\<lambda>st st'. st = st' \<or> st = 200 \<and> st' = 404)" using ReqCommand by (simp add: fun_eq_iff)
  show ?thesis
    unfolding agr unfolding ReqCommand device_prog_of.simps command_prog_def
  proof (rule checked_takes_effect)
    show "\<And>r. devices_wf r \<Longrightarrow> devices_wf (snd (device_updateState J k pl r))" by (rule updateState_wf)
    show "(\<lambda>k'. device_get k' (snd (device_updateState J k pl r))) = snd (spec_request J (ReqCommand k pl) (\<lambda>k. device_get k r))" for r
      by (auto simp: fun_eq_iff device_updateState_def device_get_def registry_simps split: option.splits)
  qed (auto simp: save_call_def intro!: device_sections.view_kept_save view_kept_publish split: sum.split option.split)
qed

interpretation device_requests: request_service devices_sane lookup access_reply_of "access_agrees device_agrees"
    "spec_access (spec_request J)" "device_access J" for J
  by unfold_locales (unfold device_access_def, rule device_sections.access_takes_effect, rule device_prog_takes_effect)

text \<open>What a program owes the file: a change of the registry must be saved before the answer.\<close>

lemma settles_publish: "settles devices_sane (devices_clean J) status_of (publish_call e res) False"
  by (simp add: publish_call_def devices_sane_def devices_clean_def)

lemma settles_saved: "settles devices_sane (devices_clean J) status_of (save_call J (publish_call e res)) owes"
  unfolding save_call_def by (intro device_sections.settles_save settles_publish)

lemma add_settles:
  "settles devices_sane (devices_clean J) status_of (registry_call (device_add d) (\<lambda>ok.
     if \<not> ok then Answer (Inr x) else save_call J (publish_call e y))) False"
  unfolding registry_call_def
proof (intro device_sections.settles_call device_registry.wf_add)
  fix r :: "'a devices"
  have "device_get (d_id d) r \<noteq> None \<Longrightarrow> snd (device_add d r) = r"
    by (simp add: device_add_def device_get_def)
  then show "settles devices_sane (devices_clean J) status_of
      (if \<not> fst (device_add d r) then Answer (Inr x) else save_call J (publish_call e y)) True \<or>
    snd (device_add d r) = r \<and> settles devices_sane (devices_clean J) status_of
      (if \<not> fst (device_add d r) then Answer (Inr x) else save_call J (publish_call e y)) False"
    by (auto simp: device_registry.add_result settles_saved)
qed

lemma device_prog_settles: "settles devices_sane (devices_clean J) status_of (device_prog_of J q) False"
proof (cases q)
  case (ReqAdd rnd n t)
  show ?thesis
  proof (cases "n = [] \<or> t = []")
    case False
    then show ?thesis
      unfolding ReqAdd device_prog_of.simps add_prog_def Let_def by (simp only: if_False) (rule add_settles)
  qed (auto simp: ReqAdd add_prog_def)
next
  case (ReqRemove k)
  show ?thesis
    unfolding ReqRemove device_prog_of.simps remove_prog_def registry_call_def
    by (intro device_sections.settles_check device_sections.settles_change device_registry.wf_remove settles_saved)
next
  case (ReqCommand k pl)
  show ?thesis
    unfolding ReqCommand device_prog_of.simps command_prog_def registry_call_def save_call_def
    by (intro device_sections.settles_check device_sections.settles_change updateState_wf device_sections.settles_save)
      (simp_all add: settles_publish split: sum.split)
qed

interpretation device_saves: settling_service devices_sane "devices_clean J" access_reply_of "device_access J" for J
  by unfold_locales (unfold device_access_def, rule device_sections.access_settles, rule device_prog_settles)

section \<open>Properties\<close>

lemma service_ok_split: "service_ok J w \<longleftrightarrow> devices_sane w \<and> devices_clean J w"
  by (auto simp: service_ok_def devices_sane_def devices_clean_def)

text \<open>
  C6: requests to the device service that run in parallel, reading ones included, are
  linearizable. Whatever the interleaving of their critical sections, all can finish, and once all
  have returned there is an order of the requests, in which a request that was answered before
  another began stands before it, such that the registry is what the sequential specification
  gives for this order and every answer, the devices that \<open>get\<close> and \<open>list\<close> return included, is
  the one specified for its place, except that a removal or a command that lost a race may report
  success for a device that was gone; and the file again holds exactly the registry.
\<close>

theorem parallel_requests_are_serialized:
  assumes "service_ok J w" "run_schedule sched (w, map (\<lambda>q. enter (device_access J q)) qs) = (w', ps)"
  shows "(\<exists>sched'. all_answered (run_schedule sched' (w', ps))) \<and>
    ((\<forall>i < length qs. \<exists>x. ps ! i = Answer (Inr x)) \<longrightarrow> service_ok J w' \<and>
     (\<exists>order. distinct order \<and> set order = {..<length qs} \<and>
       respects_time order sched (w, map (\<lambda>q. enter (device_access J q)) qs) \<and>
       snd (spec_run (spec_access (spec_request J)) (map ((!) qs) order) (lookup w)) = lookup w' \<and>
       (\<forall>j < length qs. \<exists>a r. ps ! (order ! j) = Answer a \<and> access_reply_of a = Some r \<and>
          access_agrees device_agrees (qs ! (order ! j)) r
            (fst (spec_run (spec_access (spec_request J)) (map ((!) qs) order) (lookup w)) ! j))))"
proof (intro conjI [OF schedule_finishes] impI, drule access_answers)
  assume fin: "\<forall>i < length qs. \<exists>a r. ps ! i = Answer a \<and> access_reply_of a = Some r"
  have s: "devices_sane w" "devices_clean J w" using assms(1) by (simp_all add: service_ok_split)
  have "service_ok J w'"
    using device_saves.schedule_settles [OF s assms(2) fin] by (simp add: service_ok_split)
  from conjI [OF this device_requests.schedule_linearizes [OF s(1) assms(2) fin]]
  show "service_ok J w' \<and> (\<exists>order. distinct order \<and> set order = {..<length qs} \<and>
       respects_time order sched (w, map (\<lambda>q. enter (device_access J q)) qs) \<and>
       snd (spec_run (spec_access (spec_request J)) (map ((!) qs) order) (lookup w)) = lookup w' \<and>
       (\<forall>j < length qs. \<exists>a r. ps ! (order ! j) = Answer a \<and> access_reply_of a = Some r \<and>
          access_agrees device_agrees (qs ! (order ! j)) r
            (fst (spec_run (spec_access (spec_request J)) (map ((!) qs) order) (lookup w)) ! j)))" .
qed

text \<open>
  Running alone, a request of the concurrent model is the request of the sequential one: the
  programs and the functions of Devices are two readings of the same code.
\<close>

theorem requests_alone_are_sequential:
  "run_prog (device_access J q) w =
     (case q of
        Change c \<Rightarrow> map_prod (map_sum (\<lambda>e. e) Changed) (\<lambda>w. w) (device_handle J c w)
      | Get k \<Rightarrow> (map_sum (\<lambda>e. e) Found (devices_get k w), w)
      | ListAll \<Rightarrow> (map_sum (\<lambda>e. e) Listed (devices_list w), w))"
  by (cases q) (simp_all add: device_access_def device_sections.access_alone device_prog_alone devices_get_def
      devices_list_def split: option.split)

text \<open>
  Two removals of one device that overlap are both answered with 200 and both publish
  \<open>device.removed\<close>, where one after the other gives 200 and 404.
\<close>

theorem racing_removals_both_succeed:
  assumes "service_ok J w" "dv_reg w = Some r" "device_get k r \<noteq> None"
    and "j_pretty J 2 (devices_json J (table_erase k r)) = Some t" "bus_isActive (dv_bus w)"
  shows "\<exists>sched w' ps. run_schedule sched (w, map (device_prog_of J) [ReqRemove k, ReqRemove k]) = (w', ps) \<and>
    list_all (\<lambda>p. \<exists>res. p = Answer (Inr res) \<and> r_status res = 200) ps \<and>
    bus_queue (dv_bus w') = bus_queue (dv_bus w) @ replicate 2 \<lparr>ev_name = ''device.removed'', ev_data = AnyString k\<rparr>"
proof -
  let ?r = "table_erase k r"
  have save: "persist J ?r x = (Inr (), x\<lparr>dv_reg := Some ?r, dv_disk := dv_disk x\<lparr>dk_content := Some t\<rparr>\<rparr>)"
    if "healthy (dv_disk x)" for x :: "('a, 'b) device_world"
    using that assms(4) by (simp add: persist_def device_save_def disk_save_def pretty_exn_def healthy_def Let_def)
  have h: "healthy (dv_disk w)" "\<not> bus_down (dv_bus w)" "map_of r k \<noteq> None"
    using assms(1,3,5) by (simp_all add: service_ok_def bus_isActive_def device_get_def)
  have "table_erase k ?r = ?r" by (simp add: table_erase_def)
  with assms(2) h save show ?thesis
    by (intro exI [of _ "[0, 1, 0, 1, 0, 1, 0, 1]"])
      (simp add: device_prog_defs step_thread_def device_exists_def device_remove_def publish_sel result_ok_def
        numeral_2_eq_2 healthy_def)
qed

section \<open>Witnesses\<close>

text \<open>
  A device is added while another thread removes the id: the removal comes between. Two more
  threads read, one of them the list with the device, the other the id after the removal.
\<close>

definition demo_requests_race :: "json device_req access list" where
  "demo_requests_race = [Change (ReqAdd 1 ''lamp'' ''light''), Change (ReqRemove (generateId 1)), ListAll, Get (generateId 1)]"

definition demo_sched :: "nat list" where
  "demo_sched = [0, 0, 2, 2, 1, 1, 0, 3, 1, 3, 0, 1, 1]"

definition demo_race :: "(json, nat) device_world \<times> ((json, nat) device_world, json device access_answer outcome) prog list" where
  "demo_race = run_schedule demo_sched (demo_world, map (\<lambda>q. enter (device_access demo_json q)) demo_requests_race)"

lemma demo_saves:
  "persist demo_json [] x = (Inr (), x\<lparr>dv_reg := Some [], dv_disk := dv_disk x\<lparr>dk_content := Some ''0''\<rparr>\<rparr>)"
  "persist demo_json [(generateId 1, demo_device)] x =
     (Inr (), x\<lparr>dv_reg := Some [(generateId 1, demo_device)], dv_disk := dv_disk x\<lparr>dk_content := Some ''1''\<rparr>\<rparr>)"
  if "healthy (dv_disk x)" for x :: "(json, 'c) device_world"
  using that by (simp_all add: persist_def device_save_def disk_save_def pretty_exn_def healthy_def Let_def
      demo_json_def devices_json_def device_toJson_def)

lemma demo_device_id: "d_id demo_device = generateId 1"
  by (simp add: demo_device_def)

lemma demo_race_answers:
  "snd demo_race =
     [Answer (Inr (Changed (result_created (''Device '' @ quoted (generateId 1) @ '' registered'')))),
      Answer (Inr (Changed (result_ok (''Device '' @ quoted (generateId 1) @ '' removed'')))),
      Answer (Inr (Listed [demo_device])), Answer (Inr (Found None))]"
proof -
  have obj: "j_object demo_json [] = JObject []" by (simp add: demo_json_def)
  have "healthy (dv_disk demo_world)" using demo_world_ok by (simp add: service_ok_def)
  then show ?thesis
    by (simp add: demo_race_def demo_sched_def demo_requests_race_def device_access_def access_prog_def enter_def
        device_prog_defs step_thread_def Let_def demo_saves device_add_def device_exists_def device_remove_def
        device_list_def device_get_def table_erase_def demo_world_def healthy_def obj demo_device_id
        flip: demo_device_def)
qed

lemma parallel_requests_are_serialized_witness:
  "service_ok demo_json (fst demo_race) \<and> snd demo_race ! 2 = Answer (Inr (Listed [demo_device]))"
proof -
  have "\<forall>i < length demo_requests_race. \<exists>x. snd demo_race ! i = Answer (Inr x)"
    unfolding demo_race_answers by (simp add: demo_requests_race_def less_Suc_eq)
  moreover have "run_schedule demo_sched (demo_world, map (\<lambda>q. enter (device_access demo_json q)) demo_requests_race)
      = (fst demo_race, snd demo_race)" by (simp add: demo_race_def)
  ultimately have "service_ok demo_json (fst demo_race)"
    using parallel_requests_are_serialized [OF demo_world_ok] by blast
  then show ?thesis by (simp add: demo_race_answers)
qed

lemma racing_removals_both_succeed_witness:
  "\<exists>sched w' ps. run_schedule sched (demo_after, map (device_prog_of demo_json) [ReqRemove (generateId 1), ReqRemove (generateId 1)]) = (w', ps) \<and>
    list_all (\<lambda>p. \<exists>res. p = Answer (Inr res) \<and> r_status res = 200) ps"
proof -
  have ok: "service_ok demo_json demo_after"
    by (rule device_handle_all_ok [OF demo_world_ok demo_requests])
  have after: "demo_after = demo_world\<lparr>dv_reg := Some [(generateId 1, demo_device)],
      dv_disk := dv_disk demo_world\<lparr>dk_content := Some ''1''\<rparr>,
      dv_bus := bus_publish \<lparr>ev_name = ''device.registered'', ev_data = AnyString (generateId 1)\<rparr> new_bus\<rparr>"
  proof -
    have obj: "j_object demo_json [] = JObject []" by (simp add: demo_json_def)
    have "healthy (dv_disk demo_world)" using demo_world_ok by (simp add: service_ok_def)
    from demo_saves(2) [OF this] show ?thesis
      by (simp add: demo_after_def devices_add_def with_registry_def device_add_def Let_def demo_world_def obj
          demo_device_id flip: demo_device_def)
  qed
  from racing_removals_both_succeed [OF ok, of "[(generateId 1, demo_device)]" "generateId 1" "''0''"] show ?thesis
    by (auto simp: after demo_json_def devices_json_def table_erase_def device_get_def bus_isActive_def publish_sel
        new_bus_def)
qed

end
