(* ===== verification/Room_Threads.thy ===== *)
theory Room_Threads
  imports Rooms Device_Threads
begin

text \<open>
  The requests of \<open>RoomService\<close> (src/services/RoomService.cpp) running in parallel, in the same
  way as those of the device service: every operation of \<open>RoomRegistry\<close> is one section, and so is
  the look into the registry of the device service, which has a mutex of its own. The devices
  do not change while the requests of this theory run, except in the last example.
\<close>

section \<open>The requests as programs\<close>

record 'j room_site =
  st_rooms :: room_world
  st_devs :: "'j devices option"

type_synonym 'j room_prog = "('j room_site, cpp_result outcome) prog"

definition rooms_call ::
  "(rooms \<Rightarrow> 'b \<times> rooms) \<Rightarrow> ('b \<Rightarrow> 'j room_prog) \<Rightarrow> 'j room_prog" where
  "rooms_call = call_section (\<lambda>s. rv_reg (st_rooms s)) (\<lambda>r s. s\<lparr>st_rooms := (st_rooms s)\<lparr>rv_reg := Some r\<rparr>\<rparr>)"

definition site_persist :: "'j json_api \<Rightarrow> rooms \<Rightarrow> 'j room_site \<Rightarrow> unit outcome \<times> 'j room_site" where
  "site_persist J r s = (case rooms_persist J r (st_rooms s) of (x, w) \<Rightarrow> (x, s\<lparr>st_rooms := w\<rparr>))"

definition rooms_save_call :: "'j json_api \<Rightarrow> 'j room_prog \<Rightarrow> 'j room_prog" where
  "rooms_save_call J = save_section (\<lambda>s. rv_reg (st_rooms s)) (site_persist J)"

definition device_check :: "string \<Rightarrow> (bool \<Rightarrow> 'j room_prog) \<Rightarrow> 'j room_prog" where
  "device_check did = call_section st_devs (\<lambda>r s. s\<lparr>st_devs := Some r\<rparr>) (\<lambda>r. (device_exists did r, r))"

text \<open>\<open>if (!_registry->exists(roomId)) return Result::notFound(...)\<close>\<close>

definition room_check :: "string \<Rightarrow> 'j room_prog \<Rightarrow> 'j room_prog" where
  "room_check k p = rooms_call (\<lambda>r. (room_exists k r, r)) (\<lambda>found.
     if \<not> found then Answer (Inr (result_notFound (''Room '' @ quoted k @ '' not found''))) else p)"

definition room_add_prog :: "'j json_api \<Rightarrow> u64 \<Rightarrow> string \<Rightarrow> 'j room_prog" where
  "room_add_prog J rnd name =
     (if name = [] then Answer (Inr (result_badRequest (''Field '' @ quoted ''name'' @ '' is required'')))
      else
        let x = \<lparr>rm_id = generateRoomId rnd, rm_name = name, rm_devices = []\<rparr>
        in rooms_call (room_add x) (\<lambda>ok.
             if \<not> ok then Answer (Inr (result_conflict ''Room with this id already exists''))
             else rooms_save_call J (Answer (Inr (result_created (''Room '' @ quoted (rm_id x) @ '' created''))))))"

definition room_remove_prog :: "'j json_api \<Rightarrow> string \<Rightarrow> 'j room_prog" where
  "room_remove_prog J k = room_check k (rooms_call (room_remove k) (\<lambda>_.
     rooms_save_call J (Answer (Inr (result_ok (''Room '' @ quoted k @ '' removed''))))))"

definition room_addDevice_prog :: "'j json_api \<Rightarrow> string \<Rightarrow> string \<Rightarrow> 'j room_prog" where
  "room_addDevice_prog J k did = room_check k (device_check did (\<lambda>found.
     if \<not> found then Answer (Inr (result_notFound (''Device '' @ quoted did @ '' not found'')))
     else rooms_call (room_addDevice k did) (\<lambda>ok.
       if \<not> ok then Answer (Inr (result_conflict ''Device already in this room''))
       else rooms_save_call J (Answer (Inr (result_ok ''Device added to room''))))))"

definition room_removeDevice_prog :: "'j json_api \<Rightarrow> string \<Rightarrow> string \<Rightarrow> 'j room_prog" where
  "room_removeDevice_prog J k did = room_check k (rooms_call (room_removeDevice k did) (\<lambda>ok.
     if \<not> ok then Answer (Inr (result_notFound ''Device not in this room''))
     else rooms_save_call J (Answer (Inr (result_ok ''Device removed from room'')))))"

text \<open>The requests; the devices are where the program finds them.\<close>

datatype room_call = CallAdd u64 string | CallRemove string | CallAddDevice string string | CallRemoveDevice string string

fun room_prog_of :: "'j json_api \<Rightarrow> room_call \<Rightarrow> 'j room_prog" where
  "room_prog_of J (CallAdd rnd n) = room_add_prog J rnd n"
| "room_prog_of J (CallRemove k) = room_remove_prog J k"
| "room_prog_of J (CallAddDevice k did) = room_addDevice_prog J k did"
| "room_prog_of J (CallRemoveDevice k did) = room_removeDevice_prog J k did"

text \<open>All requests: those that change the rooms, \<open>get\<close> and \<open>list\<close>.\<close>

definition room_access ::
  "'j json_api \<Rightarrow> room_call access \<Rightarrow> ('j room_site, room access_answer outcome) prog" where
  "room_access J = access_prog (\<lambda>s. rv_reg (st_rooms s)) (\<lambda>r s. s\<lparr>st_rooms := (st_rooms s)\<lparr>rv_reg := Some r\<rparr>\<rparr>)
     room_get room_list (room_prog_of J)"

fun room_req_of :: "'j devices option \<Rightarrow> room_call \<Rightarrow> 'j room_req" where
  "room_req_of devs (CallAdd rnd n) = RoomAdd rnd n"
| "room_req_of devs (CallRemove k) = RoomRemove k"
| "room_req_of devs (CallAddDevice k did) = RoomAddDevice devs k did"
| "room_req_of devs (CallRemoveDevice k did) = RoomRemoveDevice k did"

lemmas room_prog_defs = rooms_call_def rooms_save_call_def device_check_def room_check_def call_section_def
  save_section_def room_add_prog_def room_remove_prog_def room_addDevice_prog_def room_removeDevice_prog_def

lemma rooms_persist_reg [simp]: "rv_reg (snd (rooms_persist J r w)) = Some r"
  by (simp add: rooms_persist_def split: prod.split)

lemma rooms_persist_cong [simp]: "rooms_persist J r (w\<lparr>rv_reg := x\<rparr>) = rooms_persist J r w"
  by (simp add: rooms_persist_def split: prod.split)

lemma room_change_refused:
  "room_add x r = (False, r') \<Longrightarrow> r' = r"
  "room_addDevice k did r = (False, r') \<Longrightarrow> r' = r"
  "room_removeDevice k did r = (False, r') \<Longrightarrow> r' = r"
  by (auto simp: room_add_def room_addDevice_def room_removeDevice_def split: if_splits option.splits)

text \<open>Alone, a request is the one of the sequential model.\<close>

lemma site_same: "rv_reg (st_rooms s) = Some r \<Longrightarrow> s\<lparr>st_rooms := (st_rooms s)\<lparr>rv_reg := Some r\<rparr>\<rparr> = s"
  by simp

lemma site_persist_sel [simp]:
  "site_persist J r (s\<lparr>st_rooms := (st_rooms s)\<lparr>rv_reg := x\<rparr>\<rparr>) = site_persist J r s"
  "fst (site_persist J r s) = fst (rooms_persist J r (st_rooms s))"
  "snd (site_persist J r s) = s\<lparr>st_rooms := snd (rooms_persist J r (st_rooms s))\<rparr>"
  by (simp_all add: site_persist_def split: prod.split)

lemma saved_fst_snd:
  "saved J r res w = (case fst (rooms_persist J r w) of Inl e \<Rightarrow> (Inl e, snd (rooms_persist J r w))
     | Inr _ \<Rightarrow> (Inr res, snd (rooms_persist J r w)))"
  by (simp add: saved_def split: prod.split sum.split)

lemma room_prog_alone:
  "run_prog (room_prog_of J q) s =
     (case room_handle J (room_req_of (st_devs s) q) (st_rooms s) of (a, w) \<Rightarrow> (a, s\<lparr>st_rooms := w\<rparr>))"
proof (cases "rv_reg (st_rooms s)")
  case None
  then show ?thesis
    by (cases q) (simp_all add: room_prog_defs rooms_add_def rooms_remove_def rooms_addDevice_def rooms_removeDevice_def Let_def)
next
  case (Some r)
  note same = site_same [OF Some]
  show ?thesis
  proof (cases q)
    case (CallAdd rnd n)
    obtain ok r' where add: "room_add \<lparr>rm_id = generateRoomId rnd, rm_name = n, rm_devices = []\<rparr> r = (ok, r')"
      by fastforce
    with same have "\<not> ok \<Longrightarrow> s\<lparr>st_rooms := (st_rooms s)\<lparr>rv_reg := Some r'\<rparr>\<rparr> = s" using room_change_refused(1) by auto
    with Some add CallAdd show ?thesis
      by (auto simp: room_prog_defs rooms_add_def saved_fst_snd Let_def split: sum.splits)
  next
    case (CallRemove k)
    with Some same show ?thesis
      by (auto simp: room_prog_defs rooms_remove_def saved_fst_snd split: sum.splits)
  next
    case (CallAddDevice k did)
    obtain ok r' where add: "room_addDevice k did r = (ok, r')" by fastforce
    then have "\<not> ok \<Longrightarrow> r' = r" using room_change_refused(2) [of k did r r'] by simp
    with Some add CallAddDevice show ?thesis
      by (cases ok) (auto simp: room_prog_defs rooms_addDevice_def saved_fst_snd split: sum.splits option.splits)
  next
    case (CallRemoveDevice k did)
    obtain ok r' where rem: "room_removeDevice k did r = (ok, r')" by fastforce
    with same have "\<not> ok \<Longrightarrow> s\<lparr>st_rooms := (st_rooms s)\<lparr>rv_reg := Some r'\<rparr>\<rparr> = s" using room_change_refused(3) by auto
    with Some same rem CallRemoveDevice show ?thesis
      by (auto simp: room_prog_defs rooms_removeDevice_def saved_fst_snd split: sum.splits)
  qed
qed

section \<open>The contract\<close>

text \<open>What a request answers and makes of the rooms, the devices being given.\<close>

fun spec_room :: "'j devices \<Rightarrow> room_call \<Rightarrow> (string \<Rightarrow> room option) \<Rightarrow> int \<times> (string \<Rightarrow> room option)" where
  "spec_room devs (CallAdd rnd name) m =
     (if name = [] then (400, m)
      else if m (generateRoomId rnd) \<noteq> None then (409, m)
      else (201, m(generateRoomId rnd \<mapsto> \<lparr>rm_id = generateRoomId rnd, rm_name = name, rm_devices = []\<rparr>)))"
| "spec_room devs (CallRemove k) m = (if m k = None then (404, m) else (200, m(k := None)))"
| "spec_room devs (CallAddDevice k did) m =
     (case m k of
        None \<Rightarrow> (404, m)
      | Some x \<Rightarrow>
          if \<not> device_exists did devs then (404, m)
          else if did \<in> set (rm_devices x) then (409, m)
          else (200, m(k \<mapsto> x\<lparr>rm_devices := rm_devices x @ [did]\<rparr>)))"
| "spec_room devs (CallRemoveDevice k did) m =
     (case m k of
        None \<Rightarrow> (404, m)
      | Some x \<Rightarrow>
          if did \<notin> set (rm_devices x) then (404, m)
          else (200, m(k \<mapsto> x\<lparr>rm_devices := remove1 did (rm_devices x)\<rparr>)))"

definition rooms_sane :: "'j devices \<Rightarrow> 'j room_site \<Rightarrow> bool" where
  "rooms_sane devs s \<longleftrightarrow> st_devs s = Some devs \<and> healthy (rv_disk (st_rooms s)) \<and>
     (\<exists>r. rv_reg (st_rooms s) = Some r \<and> rooms_wf r)"

definition rooms_clean :: "'j json_api \<Rightarrow> 'j room_site \<Rightarrow> bool" where
  "rooms_clean J s \<longleftrightarrow> (\<exists>r. rv_reg (st_rooms s) = Some r \<and> room_file_of J r (rv_disk (st_rooms s)))"

definition site_lookup :: "'j room_site \<Rightarrow> string \<Rightarrow> room option" where
  "site_lookup s = room_lookup (st_rooms s)"

text \<open>
  Replies that differ from the specified one: a removal of a room that was removed after the
  check reports success, and a device added to a room that is gone is reported as already there.
\<close>

fun room_agrees :: "room_call \<Rightarrow> int \<Rightarrow> int \<Rightarrow> bool" where
  "room_agrees (CallRemove _) actual specified = (actual = specified \<or> actual = 200 \<and> specified = 404)"
| "room_agrees (CallAddDevice _ _) actual specified = (actual = specified \<or> actual = 409 \<and> specified = 404)"
| "room_agrees _ actual specified = (actual = specified)"

lemma rooms_persist_healthy:
  "healthy (rv_disk w) \<Longrightarrow> healthy (rv_disk (snd (rooms_persist J r w)))"
  by (auto simp: rooms_persist_def room_save_def disk_save_def healthy_def Let_def split: prod.split sum.split)

lemma rooms_persist_file:
  "healthy (rv_disk w) \<Longrightarrow> fst (rooms_persist J r w) = Inr () \<Longrightarrow> room_file_of J r (rv_disk (snd (rooms_persist J r w)))"
  by (auto simp: rooms_persist_def room_save_def disk_save_def pretty_exn_def healthy_def room_file_of_def Let_def
      split: prod.splits if_splits option.splits)

interpretation room_sections: readable_registry "\<lambda>s. rv_reg (st_rooms s)"
    "\<lambda>r s. s\<lparr>st_rooms := (st_rooms s)\<lparr>rv_reg := Some r\<rparr>\<rparr>" rooms_wf "\<lambda>r k. room_get k r" "site_persist J"
    "\<lambda>s. st_devs s = Some devs \<and> healthy (rv_disk (st_rooms s))" "\<lambda>r s. room_file_of J r (rv_disk (st_rooms s))"
    "rooms_sane devs" "rooms_clean J" site_lookup
    room_get room_list
    for J devs
  by unfold_locales (auto simp: room_registry.items_ran rooms_persist_healthy rooms_persist_file rooms_sane_def rooms_clean_def site_lookup_def
      room_lookup_def)

lemma room_view_kept_saved:
  "ok (r_status res) \<Longrightarrow> view_kept (rooms_sane devs) site_lookup status_of ok (rooms_save_call J (Answer (Inr res)))"
  unfolding rooms_save_call_def by (rule room_sections.view_kept_save) simp

lemma room_settles_saved:
  "settles (rooms_sane devs) (rooms_clean J) status_of (rooms_save_call J (Answer (Inr res))) owes"
  unfolding rooms_save_call_def by (rule room_sections.settles_save) simp

text \<open>The check of the room, and the check of the device, which reads the other registry.\<close>

lemma room_check_effect:
  assumes "\<And>m. m k = None \<Longrightarrow> spec m = (404, m)" "\<And>st. agr st st"
    and "takes_effect (rooms_sane devs) site_lookup status_of agr spec p"
  shows "takes_effect (rooms_sane devs) site_lookup status_of agr spec (room_check k p)"
  unfolding room_check_def rooms_call_def
  by (rule room_sections.takes_effect_check) (use assms in \<open>auto simp: room_registry.exists_get\<close>)

lemma device_check_effect:
  assumes "\<not> device_exists did devs \<Longrightarrow> \<forall>m. spec m = (404, m)" "\<And>st. agr st st"
    and "device_exists did devs \<Longrightarrow> takes_effect (rooms_sane devs) site_lookup status_of agr spec p"
  shows "takes_effect (rooms_sane devs) site_lookup status_of agr spec
    (device_check did (\<lambda>found. if \<not> found then Answer (Inr (result_notFound msg)) else p))"
  using assms by (auto simp: device_check_def call_section_def rooms_sane_def site_lookup_def)

lemma room_change_effect:
  assumes "\<And>r. rooms_wf r \<Longrightarrow> rooms_wf (snd (f r))"
    and "\<And>r. rooms_wf r \<Longrightarrow> (\<lambda>k. room_get k (snd (f r))) = snd (spec (\<lambda>k. room_get k r))"
    and "\<And>r. rooms_wf r \<Longrightarrow> fst (f r) \<Longrightarrow> agr (r_status good) (fst (spec (\<lambda>k. room_get k r)))"
    and "\<And>r. rooms_wf r \<Longrightarrow> \<not> fst (f r) \<Longrightarrow> agr (r_status bad) (fst (spec (\<lambda>k. room_get k r)))"
  shows "takes_effect (rooms_sane devs) site_lookup status_of agr spec
    (rooms_call f (\<lambda>ok. if \<not> ok then Answer (Inr bad) else rooms_save_call J (Answer (Inr good))))"
  unfolding rooms_call_def
  by (rule room_sections.takes_effect_change) (use assms in \<open>auto intro!: room_view_kept_saved\<close>)

text \<open>\<open>room_effect q\<close>: the program of the request takes effect as specified.\<close>

abbreviation room_effect :: "'j devices \<Rightarrow> room_call \<Rightarrow> 'j room_prog \<Rightarrow> bool" where
  "room_effect devs q \<equiv> takes_effect (rooms_sane devs) site_lookup status_of (room_agrees q) (spec_room devs q)"

lemma room_add_effect: "room_effect devs (CallAdd rnd name) (room_add_prog J rnd name)"
proof (cases "name = []")
  case False
  let ?x = "\<lparr>rm_id = generateRoomId rnd, rm_name = name, rm_devices = []\<rparr>"
  have get: "(\<lambda>k. room_get k (snd (room_add ?x r))) =
      (if room_get (generateRoomId rnd) r = None then (\<lambda>k. room_get k r)(generateRoomId rnd \<mapsto> ?x) else (\<lambda>k. room_get k r))" for r
    using room_registry.get_add [of _ ?x r] by (auto simp: fun_eq_iff)
  from False show ?thesis
    unfolding room_add_prog_def Let_def
    by (simp only: if_False, intro room_change_effect)
      (simp_all add: room_registry.wf_add get room_registry.add_result)
qed (simp add: room_add_prog_def)

lemma room_remove_effect: "room_effect devs (CallRemove k) (room_remove_prog J k)"
proof -
  have get: "(\<lambda>k'. room_get k' (snd (room_remove k r))) = (\<lambda>k'. room_get k' r)(k := None)" for r
    by (simp add: fun_eq_iff room_registry.get_remove)
  have "room_effect devs (CallRemove k)
      (rooms_call (room_remove k) (\<lambda>_. rooms_save_call J (Answer (Inr (result_ok (''Room '' @ quoted k @ '' removed''))))))"
    unfolding rooms_call_def
    by (rule room_sections.takes_effect_change)
      (auto simp: room_registry.wf_remove get intro!: room_view_kept_saved)
  then show ?thesis
    unfolding room_remove_prog_def by (intro room_check_effect) simp_all
qed

lemma room_addDevice_effect: "room_effect devs (CallAddDevice k did) (room_addDevice_prog J k did)"
proof -
  have "room_effect devs (CallAddDevice k did)
      (rooms_call (room_addDevice k did) (\<lambda>ok.
         if \<not> ok then Answer (Inr (result_conflict ''Device already in this room''))
         else rooms_save_call J (Answer (Inr (result_ok ''Device added to room'')))))" if "device_exists did devs"
  proof (rule room_change_effect)
    show "\<And>r. rooms_wf r \<Longrightarrow> rooms_wf (snd (room_addDevice k did r))" by (rule addDevice_wf)
    show "(\<lambda>k'. room_get k' (snd (room_addDevice k did r))) =
        snd (spec_room devs (CallAddDevice k did) (\<lambda>k. room_get k r))" for r
      using that by (auto simp: fun_eq_iff addDevice_get room_get_def split: option.split)
  qed (use that in \<open>auto simp: room_addDevice_def room_get_def split: option.splits if_splits\<close>)
  then show ?thesis
    unfolding room_addDevice_prog_def
    by (intro room_check_effect device_check_effect) (simp_all split: option.split)
qed

lemma room_removeDevice_effect: "room_effect devs (CallRemoveDevice k did) (room_removeDevice_prog J k did)"
proof -
  have "room_effect devs (CallRemoveDevice k did)
      (rooms_call (room_removeDevice k did) (\<lambda>ok.
         if \<not> ok then Answer (Inr (result_notFound ''Device not in this room''))
         else rooms_save_call J (Answer (Inr (result_ok ''Device removed from room'')))))"
  proof (rule room_change_effect)
    show "\<And>r. rooms_wf r \<Longrightarrow> rooms_wf (snd (room_removeDevice k did r))" by (rule removeDevice_wf)
    show "(\<lambda>k'. room_get k' (snd (room_removeDevice k did r))) =
        snd (spec_room devs (CallRemoveDevice k did) (\<lambda>k. room_get k r))" for r
      by (auto simp: fun_eq_iff removeDevice_get room_get_def split: option.split)
  qed (auto simp: room_removeDevice_def room_get_def split: option.splits if_splits)
  then show ?thesis
    unfolding room_removeDevice_prog_def by (intro room_check_effect) simp_all
qed

lemma room_prog_takes_effect: "room_effect devs q (room_prog_of J q)"
  by (cases q) (simp_all only: room_prog_of.simps room_add_effect room_remove_effect
      room_addDevice_effect room_removeDevice_effect)

lemma room_change_settles:
  assumes "\<And>r. rooms_wf r \<Longrightarrow> rooms_wf (snd (f r))" "\<And>r. \<not> fst (f r) \<Longrightarrow> snd (f r) = r"
  shows "settles (rooms_sane devs) (rooms_clean J) status_of
    (rooms_call f (\<lambda>ok. if \<not> ok then Answer (Inr bad) else rooms_save_call J (Answer (Inr good)))) False"
  unfolding rooms_call_def
  by (rule room_sections.settles_call) (use assms in \<open>auto simp: room_settles_saved\<close>)

lemma room_check_settles:
  "settles (rooms_sane devs) (rooms_clean J) status_of p False \<Longrightarrow>
     settles (rooms_sane devs) (rooms_clean J) status_of (room_check k p) False"
  unfolding room_check_def rooms_call_def by (rule room_sections.settles_check)

lemma device_check_settles:
  assumes "settles (rooms_sane devs) (rooms_clean J) status_of p False"
  shows "settles (rooms_sane devs) (rooms_clean J) status_of
    (device_check did (\<lambda>found. if \<not> found then Answer (Inr m) else p)) False"
  using assms by (auto simp: device_check_def call_section_def rooms_sane_def rooms_clean_def)

lemma room_prog_settles:
  "settles (rooms_sane devs) (rooms_clean J) status_of (room_prog_of J q) False"
proof (cases q)
  case (CallAdd rnd name)
  have "\<not> fst (room_add x r) \<Longrightarrow> snd (room_add x r) = r" for x r
    by (simp add: room_add_def split: if_splits)
  then show ?thesis
    unfolding CallAdd room_prog_of.simps room_add_prog_def Let_def
    by (auto intro!: room_change_settles room_registry.wf_add)
next
  case (CallRemove k)
  have "settles (rooms_sane devs) (rooms_clean J) status_of
      (rooms_call (room_remove k) (\<lambda>_. rooms_save_call J (Answer (Inr res)))) False" for res
    unfolding rooms_call_def
    by (intro room_sections.settles_change room_registry.wf_remove room_settles_saved)
  then show ?thesis
    unfolding CallRemove room_prog_of.simps room_remove_prog_def by (intro room_check_settles)
next
  case (CallAddDevice k did)
  have "\<not> fst (room_addDevice k did r) \<Longrightarrow> snd (room_addDevice k did r) = r" for r
    by (simp add: room_addDevice_def split: option.splits if_splits)
  then show ?thesis
    unfolding CallAddDevice room_prog_of.simps room_addDevice_prog_def
    by (intro room_check_settles device_check_settles room_change_settles addDevice_wf)
next
  case (CallRemoveDevice k did)
  have "\<not> fst (room_removeDevice k did r) \<Longrightarrow> snd (room_removeDevice k did r) = r" for r
    by (simp add: room_removeDevice_def split: option.splits if_splits)
  then show ?thesis
    unfolding CallRemoveDevice room_prog_of.simps room_removeDevice_prog_def
    by (intro room_check_settles room_change_settles removeDevice_wf)
qed

interpretation room_requests: request_service "rooms_sane devs" site_lookup access_reply_of "access_agrees room_agrees"
    "spec_access (spec_room devs)" "room_access J" for J devs
  by unfold_locales (unfold room_access_def, rule room_sections.access_takes_effect, rule room_prog_takes_effect)

interpretation room_saves: settling_service "rooms_sane devs" "rooms_clean J" access_reply_of "room_access J" for J devs
  by unfold_locales (unfold room_access_def, rule room_sections.access_settles, rule room_prog_settles)

section \<open>Properties\<close>

lemma spec_rooms_distinct:
  "(\<forall>k x. m k = Some x \<longrightarrow> distinct (rm_devices x)) \<Longrightarrow>
     snd (spec_run (spec_access (spec_room devs)) qs m) k = Some x \<Longrightarrow> distinct (rm_devices x)"
proof (induction qs arbitrary: m)
  case (Cons q qs)
  have "\<forall>k x. snd (spec_room devs c m) k = Some x \<longrightarrow> distinct (rm_devices x)" for c
    using Cons.prems(1) by (cases c) (auto split: option.splits)
  then have "\<forall>k x. snd (spec_access (spec_room devs) q m) k = Some x \<longrightarrow> distinct (rm_devices x)"
    using Cons.prems(1) by (cases q) simp_all
  with Cons show ?case by (simp add: case_prod_beta)
qed simp

lemma room_requests_linearized:
  assumes "room_service_ok J (st_rooms s)" "st_devs s = Some devs"
    and "run_schedule sched (s, map (\<lambda>q. enter (room_access J q)) qs) = (s', ps)"
    and "\<forall>i < length qs. \<exists>x. ps ! i = Answer (Inr x)"
  shows "room_service_ok J (st_rooms s') \<and>
    (\<exists>order. distinct order \<and> set order = {..<length qs} \<and>
       respects_time order sched (s, map (\<lambda>q. enter (room_access J q)) qs) \<and>
       snd (spec_run (spec_access (spec_room devs)) (map ((!) qs) order) (site_lookup s)) = site_lookup s' \<and>
       (\<forall>j < length qs. \<exists>a r. ps ! (order ! j) = Answer a \<and> access_reply_of a = Some r \<and>
          access_agrees room_agrees (qs ! (order ! j)) r
            (fst (spec_run (spec_access (spec_room devs)) (map ((!) qs) order) (site_lookup s)) ! j)))"
proof -
  obtain r where r: "rv_reg (st_rooms s) = Some r" "rooms_wf r" "no_duplicates r" "room_file_of J r (rv_disk (st_rooms s))"
    "healthy (rv_disk (st_rooms s))"
    using assms(1) by (auto simp: room_service_ok_def)
  with assms(2) have s: "rooms_sane devs s" "rooms_clean J s" by (auto simp: rooms_sane_def rooms_clean_def)
  note fin = access_answers [OF assms(4)]
  from room_requests.schedule_linearizes [OF s(1) assms(3) fin] obtain order
    where o: "distinct order" "set order = {..<length qs}"
      "respects_time order sched (s, map (\<lambda>q. enter (room_access J q)) qs)"
      "snd (spec_run (spec_access (spec_room devs)) (map ((!) qs) order) (site_lookup s)) = site_lookup s'"
      "\<forall>j < length qs. \<exists>a r. ps ! (order ! j) = Answer a \<and> access_reply_of a = Some r \<and>
        access_agrees room_agrees (qs ! (order ! j)) r
          (fst (spec_run (spec_access (spec_room devs)) (map ((!) qs) order) (site_lookup s)) ! j)"
    by (elim exE conjE)
  obtain r' where r': "rv_reg (st_rooms s') = Some r'" "rooms_wf r'" "healthy (rv_disk (st_rooms s'))"
    "room_file_of J r' (rv_disk (st_rooms s'))"
    using room_saves.schedule_settles [OF s assms(3) fin] by (auto simp: rooms_sane_def rooms_clean_def)
  have "distinct (rm_devices x)" if "map_of r' k = Some x" for k x
  proof (rule spec_rooms_distinct)
    show "\<forall>k x. site_lookup s k = Some x \<longrightarrow> distinct (rm_devices x)"
      using r(1,3) by (simp add: site_lookup_def room_lookup_def room_get_def no_duplicates_def)
    show "snd (spec_run (spec_access (spec_room devs)) (map ((!) qs) order) (site_lookup s)) k = Some x"
      using o(4) that r'(1) by (simp add: site_lookup_def room_lookup_def room_get_def)
  qed
  with r' have "room_service_ok J (st_rooms s')" by (auto simp: room_service_ok_def no_duplicates_def)
  with o show ?thesis by (intro conjI exI [of _ order])
qed

text \<open>Alone, a request of the concurrent model is the one of the sequential service.\<close>

lemma room_requests_alone:
  "run_prog (room_access J q) s =
     (case q of
        Change c \<Rightarrow> (case room_handle J (room_req_of (st_devs s) c) (st_rooms s) of
          (a, w) \<Rightarrow> (map_sum (\<lambda>e. e) Changed a, s\<lparr>st_rooms := w\<rparr>))
      | Get k \<Rightarrow> (map_sum (\<lambda>e. e) Found (rooms_get k (st_rooms s)), s)
      | ListAll \<Rightarrow> (map_sum (\<lambda>e. e) Listed (rooms_list (st_rooms s)), s))"
  by (cases q) (simp_all add: room_access_def room_sections.access_alone room_prog_alone rooms_get_def rooms_list_def
      split: option.split prod.split)


text \<open>
  When the devices do change, a room can be given a device that is gone: the removal of the
  device falls between the check and the change.
\<close>

definition device_drop :: "string \<Rightarrow> 'j room_prog" where
  "device_drop did = call_section st_devs (\<lambda>r s. s\<lparr>st_devs := Some r\<rparr>) (device_remove did)
     (\<lambda>_. Answer (Inr (result_ok (''Device '' @ quoted did @ '' removed''))))"

theorem room_can_get_a_removed_device:
  assumes "room_service_ok J (st_rooms s)" "site_lookup s k = Some x" "did \<notin> set (rm_devices x)"
    and "st_devs s = Some devs" "device_exists did devs"
    and "\<And>r. \<exists>t. j_pretty J 2 (rooms_json J r) = Some t"
  shows "\<exists>sched s' ps. run_schedule sched (s, [room_prog_of J (CallAddDevice k did), device_drop did]) = (s', ps) \<and>
    ps ! 0 = Answer (Inr (result_ok ''Device added to room'')) \<and>
    (\<exists>x'. site_lookup s' k = Some x' \<and> did \<in> set (rm_devices x')) \<and>
    (\<exists>devs'. st_devs s' = Some devs' \<and> \<not> device_exists did devs')"
proof -
  obtain r where r: "rv_reg (st_rooms s) = Some r" "healthy (rv_disk (st_rooms s))" "map_of r k = Some x"
    using assms(1,2) by (auto simp: room_service_ok_def site_lookup_def room_lookup_def room_get_def)
  obtain t where t: "j_pretty J 2 (rooms_json J (snd (room_addDevice k did r))) = Some t" using assms(6) by blast
  have add: "room_addDevice k did r = (True, snd (room_addDevice k did r))"
    using r(3) assms(3) by (simp add: room_addDevice_def)
  have save: "fst (rooms_persist J (snd (room_addDevice k did r)) w) = Inr ()" if "healthy (rv_disk w)" for w
    using that t by (simp add: rooms_persist_def room_save_def disk_save_def pretty_exn_def healthy_def Let_def)
  have get: "map_of (snd (room_addDevice k did r)) k = Some (x\<lparr>rm_devices := rm_devices x @ [did]\<rparr>)"
    using r(3) assms(3) by (simp add: addDevice_get)
  obtain r' where r': "room_addDevice k did r = (True, r')" using add by blast
  show ?thesis
    by (intro exI [of _ "[0, 0, 1, 0, 0]"])
      (use r assms(3,4,5) save get in \<open>simp add: room_prog_defs device_drop_def step_thread_def room_exists_def
        device_remove_def device_exists_def r' site_lookup_def room_lookup_def room_get_def registry_simps\<close>)
qed

section \<open>Witnesses\<close>

definition demo_site :: "json room_site" where
  "demo_site = \<lparr>st_rooms = demo_room_world, st_devs = Some []\<rparr>"

definition demo_room_calls :: "room_call access list" where
  "demo_room_calls = [Change (CallAdd 1 ''attic''), Change (CallRemove (generateRoomId 1)), Get (generateRoomId 1), ListAll]"

definition demo_room_sched :: "nat list" where
  "demo_room_sched = [0, 0, 2, 2, 1, 1, 1, 0, 3, 3, 1]"

definition demo_room_race :: "json room_site \<times> (json room_site, room access_answer outcome) prog list" where
  "demo_room_race = run_schedule demo_room_sched (demo_site, map (\<lambda>q. enter (room_access demo_rooms_json q)) demo_room_calls)"

lemma demo_room_ok: "room_service_ok demo_rooms_json demo_room_world"
  by (simp add: room_service_ok_def demo_room_world_def healthy_def rooms_wf_def no_duplicates_def
      room_file_of_def rooms_json_def demo_rooms_json_def)

lemma demo_room_race_answers:
  "snd demo_room_race =
     [Answer (Inr (Changed (result_created (''Room '' @ quoted (generateRoomId 1) @ '' created'')))),
      Answer (Inr (Changed (result_ok (''Room '' @ quoted (generateRoomId 1) @ '' removed'')))),
      Answer (Inr (Found (Some \<lparr>rm_id = generateRoomId 1, rm_name = ''attic'', rm_devices = []\<rparr>))),
      Answer (Inr (Listed []))]"
proof -
  have "rooms_persist demo_rooms_json [] w = (Inr (), w\<lparr>rv_reg := Some [], rv_disk := rv_disk w\<lparr>dk_content := Some ''0''\<rparr>\<rparr>)"
    if "healthy (rv_disk w)" for w
    using that by (simp add: rooms_persist_def room_save_def disk_save_def pretty_exn_def healthy_def Let_def
        rooms_json_def demo_rooms_json_def)
  then show ?thesis
    by (simp add: demo_room_race_def demo_room_sched_def demo_room_calls_def demo_site_def demo_room_world_def
        room_access_def access_prog_def enter_def room_prog_defs step_thread_def room_add_def room_exists_def
        room_remove_def room_get_def room_list_def table_erase_def healthy_def Let_def)
qed


lemma room_can_get_a_removed_device_witness:
  "\<exists>sched s' ps. run_schedule sched
     (\<lparr>st_rooms = \<lparr>rv_reg = Some [(''r'', \<lparr>rm_id = ''r'', rm_name = ''attic'', rm_devices = []\<rparr>)],
         rv_disk = \<lparr>dk_dir_ok = True, dk_writable = True, dk_readable = True, dk_content = Some ''t''\<rparr>\<rparr>,
       st_devs = Some [(generateId 1, demo_device)]\<rparr>,
      [room_prog_of ((table_json [])\<lparr>j_pretty := \<lambda>_ _. Some ''t''\<rparr>) (CallAddDevice ''r'' (generateId 1)),
       device_drop (generateId 1)]) = (s', ps) \<and>
     (\<exists>x'. site_lookup s' ''r'' = Some x' \<and> generateId 1 \<in> set (rm_devices x'))"
proof -
  let ?s = "\<lparr>st_rooms = \<lparr>rv_reg = Some [(''r'', \<lparr>rm_id = ''r'', rm_name = ''attic'', rm_devices = []\<rparr>)],
         rv_disk = \<lparr>dk_dir_ok = True, dk_writable = True, dk_readable = True, dk_content = Some ''t''\<rparr>\<rparr>,
       st_devs = Some [(generateId 1, demo_device)]\<rparr>"
  let ?J = "(table_json [])\<lparr>j_pretty := \<lambda>_ _. Some ''t''\<rparr>"
  have "room_service_ok ?J (st_rooms ?s)"
    by (simp add: room_service_ok_def healthy_def rooms_wf_def table_wf_def no_duplicates_def room_file_of_def)
  moreover have "site_lookup ?s ''r'' = Some \<lparr>rm_id = ''r'', rm_name = ''attic'', rm_devices = []\<rparr>"
    by (simp add: site_lookup_def room_lookup_def room_get_def)
  ultimately show ?thesis
    using room_can_get_a_removed_device [of ?J ?s "''r''" "\<lparr>rm_id = ''r'', rm_name = ''attic'', rm_devices = []\<rparr>"
        "generateId 1" "[(generateId 1, demo_device)]"]
    by (auto simp: device_exists_def)
qed

end
