(* ===== verification/Stream_Threads.thy ===== *)
theory Stream_Threads
  imports Request_Threads
begin

text \<open>
  Threads that feed members of a group with entries while members join and leave. A thread that
  makes an entry recent has to hand it to every member afterwards; a thread that joins a member
  has to hand it what was recent at some later moment. The theory says when a program does so, in
  one predicate that is checked section by section, and that a schedule of such programs ends with
  every member having got every recent entry.
\<close>

text \<open>Whatever the other threads do, the program hands \<open>e\<close> to \<open>c\<close>, unless \<open>c\<close> leaves before.\<close>

primrec sends ::
  "('s \<Rightarrow> bool) \<Rightarrow> ('s \<Rightarrow> 'c set) \<Rightarrow> ('s \<Rightarrow> 'c \<Rightarrow> 'e set) \<Rightarrow> 'c \<Rightarrow> 'e \<Rightarrow> ('s, 'a) prog \<Rightarrow> bool" where
  "sends sane members got c e (Answer a) = False"
| "sends sane members got c e (Section u k) =
     (\<forall>s. sane s \<longrightarrow> c \<in> members s \<longrightarrow> e \<in> got (u s) c \<or> sends sane members got c e (k s))"

text \<open>
  \<open>dutiful p own\<close>: the program takes nothing back; what a section makes recent is handed to all
  members; a section that joins a member owes it (\<open>own\<close>) what is recent until a section from
  which on all of it has been handed over or will be, or until the member is out again.
\<close>

primrec dutiful ::
  "('s \<Rightarrow> bool) \<Rightarrow> ('s \<Rightarrow> 'c set) \<Rightarrow> ('s \<Rightarrow> 'c \<Rightarrow> 'e set) \<Rightarrow> ('s \<Rightarrow> 'e set) \<Rightarrow> ('s, 'a) prog \<Rightarrow> 'c option \<Rightarrow> bool" where
  "dutiful sane members got recent (Answer a) = (\<lambda>own. own = None)"
| "dutiful sane members got recent (Section u k) = (\<lambda>own. \<forall>s. sane s \<longrightarrow>
     sane (u s) \<and> (\<forall>c. got s c \<subseteq> got (u s) c) \<and>
     (\<forall>e \<in> recent (u s) - recent s. \<forall>c. sends sane members got c e (k s)) \<and>
     (\<exists>own'. dutiful sane members got recent (k s) own' \<and>
        (\<forall>c \<in> members (u s) - members s. own' = Some c) \<and>
        (\<forall>c \<in> members (u s). own = Some c \<longrightarrow> own' = Some c \<or>
          (\<forall>e \<in> recent (u s). e \<in> got (u s) c \<or> sends sane members got c e (k s)))))"

locale streaming_service =
  fixes sane :: "'s \<Rightarrow> bool" and members :: "'s \<Rightarrow> 'c set" and got :: "'s \<Rightarrow> 'c \<Rightarrow> 'e set"
    and recent :: "'s \<Rightarrow> 'e set" and prog_of :: "'q \<Rightarrow> ('s, 'a) prog"
  assumes dutiful_prog_of: "dutiful sane members got recent (prog_of q) None"
begin

abbreviation sending :: "'c \<Rightarrow> 'e \<Rightarrow> ('s, 'a) prog \<Rightarrow> bool" where
  "sending \<equiv> sends sane members got"

abbreviation served :: "('s, 'a) prog list \<Rightarrow> 's \<Rightarrow> 'c \<Rightarrow> 'e \<Rightarrow> bool" where
  "served ps s c e \<equiv> e \<in> got s c \<or> (\<exists>j < length ps. sending c e (ps ! j))"

definition streaming :: "'c option list \<Rightarrow> 's \<times> ('s, 'a) prog list \<Rightarrow> bool" where
  "streaming owns x \<longleftrightarrow> length owns = length (snd x) \<and> sane (fst x) \<and>
     (\<forall>i < length (snd x). dutiful sane members got recent (snd x ! i) (owns ! i)) \<and>
     (\<forall>c \<in> members (fst x). (\<exists>i < length owns. owns ! i = Some c) \<or>
        (\<forall>e \<in> recent (fst x). served (snd x) (fst x) c e))"

text \<open>A section of thread \<open>i\<close> leaves a member served that stays a member.\<close>

lemma served_step:
  assumes "served ps s c e" "i < length ps" "ps ! i = Section u k" "sane s" "c \<in> members s" "got s c \<subseteq> got (u s) c"
  shows "served (ps[i := k s]) (u s) c e"
proof (cases "e \<in> got s c")
  case False
  with assms(1) obtain j where j: "j < length ps" "sending c e (ps ! j)" by blast
  show ?thesis
  proof (cases "j = i")
    case True
    with j assms(3-5) have "e \<in> got (u s) c \<or> sending c e (k s)" by simp
    with assms(2) show ?thesis by (auto intro: exI [of _ i])
  next
    case False
    with j show ?thesis by (intro disjI2 exI [of _ j]) simp
  qed
qed (use assms(6) in blast)

text \<open>After a section of thread \<open>i\<close>, every member is owed by some thread or served.\<close>

lemma members_step:
  assumes "i < length ps" "ps ! i = Section u k" "sane s" "length owns = length ps"
    and old: "\<forall>c \<in> members s. (\<exists>j < length owns. owns ! j = Some c) \<or> (\<forall>e \<in> recent s. served ps s c e)"
    and u: "\<And>c. got s c \<subseteq> got (u s) c" "\<And>e c. e \<in> recent (u s) \<Longrightarrow> e \<notin> recent s \<Longrightarrow> sending c e (k s)"
    and own': "c \<notin> members s \<Longrightarrow> own' = Some c"
      "owns ! i = Some c \<Longrightarrow> own' = Some c \<or> (\<forall>e \<in> recent (u s). e \<in> got (u s) c \<or> sending c e (k s))"
  shows "(\<exists>j < length owns. owns[i := own'] ! j = Some c) \<or> (\<forall>e \<in> recent (u s). served (ps[i := k s]) (u s) c e)"
proof -
  have new: "served (ps[i := k s]) (u s) c e" if "sending c e (k s)" for e
    using that assms(1) by (intro disjI2 exI [of _ i]) simp
  consider (own) "own' = Some c" | (mine) "owns ! i = Some c" "own' \<noteq> Some c"
    | (other) j where "c \<in> members s" "j < length owns" "j \<noteq> i" "owns ! j = Some c"
    | (free) "c \<in> members s" "\<forall>e \<in> recent s. served ps s c e"
    using old own'(1) by metis
  then show ?thesis
  proof cases
    case own
    then show ?thesis using assms(1,4) by (intro disjI1 exI [of _ i]) simp
  next
    case mine
    with own'(2) new show ?thesis by blast
  next
    case other
    then show ?thesis by (intro disjI1 exI [of _ j]) simp
  next
    case free
    then have "served (ps[i := k s]) (u s) c e" if "e \<in> recent s" for e
      using that served_step [OF _ assms(1-3) free(1) u(1)] by blast
    with u(2) new show ?thesis by blast
  qed
qed

lemma streaming_step:
  assumes "streaming owns x" "i < length (snd x)" "snd x ! i = Section u k"
  shows "\<exists>owns'. streaming owns' (u (fst x), (snd x)[i := k (fst x)])"
proof -
  obtain s ps where x: "x = (s, ps)" by (cases x)
  note st = assms(1) [unfolded streaming_def x, simplified]
  note i = assms(2,3) [unfolded x, simplified]
  from st i have "dutiful sane members got recent (Section u k) (owns ! i)" "sane s" by metis+
  then obtain own' where u: "sane (u s)" "\<And>c. got s c \<subseteq> got (u s) c"
      "\<And>e c. e \<in> recent (u s) \<Longrightarrow> e \<notin> recent s \<Longrightarrow> sending c e (k s)"
    and own': "dutiful sane members got recent (k s) own'"
      "\<And>c. c \<in> members (u s) \<Longrightarrow> c \<notin> members s \<Longrightarrow> own' = Some c"
      "\<And>c. c \<in> members (u s) \<Longrightarrow> owns ! i = Some c \<Longrightarrow> own' = Some c \<or>
        (\<forall>e \<in> recent (u s). e \<in> got (u s) c \<or> sending c e (k s))"
    by fastforce
  have "(\<exists>j < length owns. owns[i := own'] ! j = Some c) \<or> (\<forall>e \<in> recent (u s). served (ps[i := k s]) (u s) c e)"
    if "c \<in> members (u s)" for c
  proof (rule members_step [OF i \<open>sane s\<close>])
    show "\<forall>c \<in> members s. (\<exists>j < length owns. owns ! j = Some c) \<or> (\<forall>e \<in> recent s. served ps s c e)"
      using st by blast
  qed (use st u own'(2,3) that in blast)+
  moreover have "dutiful sane members got recent (ps[i := k s] ! j) (owns[i := own'] ! j)" if "j < length ps" for j
    using st own'(1) that by (cases "j = i") simp_all
  ultimately have "streaming (owns[i := own']) (u s, ps[i := k s])"
    using st u(1) by (simp add: streaming_def)
  with x show ?thesis by auto
qed

text \<open>Once all threads are through, every member has got every recent entry.\<close>

lemma schedule_serves:
  assumes "sane s" "members s = {}" "run_schedule sched (s, map prog_of qs) = (s', ps)"
    and "all_answered (s', ps)" "c \<in> members s'" "e \<in> recent s'"
  shows "e \<in> got s' c"
proof -
  have "\<exists>owns. streaming owns (run_schedule sched (s, map prog_of qs))"
  proof (rule run_schedule_invariant)
    have "streaming (replicate (length qs) None) (s, map prog_of qs)"
      using assms(1,2) by (simp add: streaming_def dutiful_prog_of)
    then show "\<exists>owns. streaming owns (s, map prog_of qs)" ..
  qed (use streaming_step in blast)
  then obtain owns where st: "streaming owns (s', ps)" unfolding assms(3) by blast
  have ans: "\<exists>a. ps ! i = Answer a" if "i < length ps" for i using assms(4) that by (simp add: all_answered_def list_all_length answered_iff)
  then have "owns ! i = None" if "i < length ps" for i
    using st that by (force simp: streaming_def)
  moreover have "\<not> sending c e (ps ! i)" if "i < length ps" for i
    using ans [OF that] by auto
  ultimately show ?thesis using st assms(5,6) by (force simp: streaming_def)
qed

end

end
