(* ===== verification/Log_Threads.thy ===== *)
theory Log_Threads
  imports Logging Ws_Frames Stream_Threads
begin

text \<open>
  The log stream under threads: \<open>LogBroadcaster\<close> (src/logging) with its own \<open>WsServer\<close>, and
  \<open>LogService\<close>, which starts and stops it. Any thread may log; every client has a thread of its
  own. A section is one hold of \<open>_mu\<close> of the broadcaster or of the server, one access of
  \<open>_running\<close>, or one \<open>send\<close> on a socket: frames are written after the lock is released. A socket
  is named by the id of its client; the bytes handed to \<open>send\<close> are recorded per client.
\<close>

section \<open>State and operations\<close>

record log_site =
  lg_buffer :: "log_entry list"
  lg_clients :: "int list"   \<comment> \<open>\<open>_clients\<close>, in the order the container enumerates them\<close>
  lg_sent :: "int \<Rightarrow> byte list list"
  lg_onConnect :: bool   \<comment> \<open>whether \<open>onConnect\<close> has installed the backfill\<close>
  lg_running :: bool
  lg_port :: int

type_synonym log_prog = "(log_site, unit outcome) prog"

definition broadcaster_start :: "int \<Rightarrow> log_site \<Rightarrow> log_site" where
  "broadcaster_start port s = s\<lparr>lg_onConnect := True, lg_running := True, lg_port := port\<rparr>"

text \<open>\<open>WsServer::stop\<close>, the critical part: \<open>exchange\<close> and then the clients under the lock.\<close>

definition broadcaster_stop :: log_prog where
  "broadcaster_stop = Section (\<lambda>s. s\<lparr>lg_running := False\<rparr>)
     (\<lambda>s. if \<not> lg_running s then Answer (Inr ())
          else Section (\<lambda>s. s\<lparr>lg_clients := []\<rparr>) (\<lambda>_. Answer (Inr ())))"

definition log_service_start :: "int \<Rightarrow> log_site \<Rightarrow> log_site" where
  "log_service_start port s = broadcaster_start port s"

definition log_service_stop :: log_prog where
  "log_service_stop = broadcaster_stop"

text \<open>One \<open>send\<close> on the socket of a client; \<open>handshake\<close> and \<open>readFrame\<close> may send nothing.\<close>

definition write_bytes :: "int \<Rightarrow> byte list \<Rightarrow> log_site \<Rightarrow> log_site" where
  "write_bytes c bs s = (if bs = [] then s else s\<lparr>lg_sent := (lg_sent s)(c := lg_sent s c @ [bs])\<rparr>)"

primrec write_all :: "string \<Rightarrow> int list \<Rightarrow> log_prog" where
  "write_all frame [] = Answer (Inr ())"
| "write_all frame (c # cs) = Section (write_bytes c (frame_bytes frame)) (\<lambda>_. write_all frame cs)"

definition broadcast_prog :: "string \<Rightarrow> log_prog" where
  "broadcast_prog frame = Section (\<lambda>s. s) (\<lambda>s. write_all frame (lg_clients s))"

definition log_prog :: "'j json_api \<Rightarrow> (nat \<Rightarrow> string) \<Rightarrow> nat \<Rightarrow> string \<Rightarrow> string \<Rightarrow> string \<Rightarrow> log_prog" where
  "log_prog J fmt ms level source message =
     (let entry = \<lparr>le_level = level, le_source = source, le_message = message, le_timestamp = nowIso fmt ms\<rparr>
      in case entryToJson J entry of
           Inl e \<Rightarrow> Answer (Inl e)
         | Inr frame \<Rightarrow> Section (\<lambda>s. s\<lparr>lg_buffer := buffer_push (lg_buffer s) entry\<rparr>) (\<lambda>_. broadcast_prog frame))"

definition send_prog :: "int \<Rightarrow> string \<Rightarrow> log_prog \<Rightarrow> log_prog" where
  "send_prog c msg p = Section (\<lambda>s. s)
     (\<lambda>s. if c \<in> set (lg_clients s) then Section (write_bytes c (frame_bytes msg)) (\<lambda>_. p) else p)"

text \<open>The loop over the snapshot; an exception would leave the thread of the client.\<close>

primrec backfill_prog :: "'j json_api \<Rightarrow> int \<Rightarrow> log_prog \<Rightarrow> log_entry list \<Rightarrow> log_prog" where
  "backfill_prog J c p [] = p"
| "backfill_prog J c p (e # es) =
     (case entryToJson J e of Inl x \<Rightarrow> Answer (Inl x) | Inr frame \<Rightarrow> send_prog c frame (backfill_prog J c p es))"

definition onClientConnect_prog :: "'j json_api \<Rightarrow> int \<Rightarrow> log_prog \<Rightarrow> log_prog" where
  "onClientConnect_prog J c p = Section (\<lambda>s. s) (\<lambda>s. backfill_prog J c p (backfill (lg_buffer s)))"

definition leave_prog :: "int \<Rightarrow> log_prog" where
  "leave_prog c = Section (\<lambda>s. s\<lparr>lg_clients := removeAll c (lg_clients s)\<rparr>) (\<lambda>_. Answer (Inr ()))"

text \<open>
  The reading loop of a client: \<open>reads\<close> are the results of the calls of \<open>readFrame\<close> that return,
  with what each of them sends; behind the last one the thread waits in \<open>recv\<close> and has nothing
  left to do for the log. The broadcaster installs no \<open>onMessage\<close> and no \<open>onClose\<close>.
\<close>

primrec reading_prog :: "int \<Rightarrow> (frame_result \<times> byte list) list \<Rightarrow> log_prog" where
  "reading_prog c [] = Section (\<lambda>s. s) (\<lambda>s. if lg_running s then Answer (Inr ()) else leave_prog c)"
| "reading_prog c (r # rs) = Section (\<lambda>s. s) (\<lambda>s.
     if \<not> lg_running s then leave_prog c
     else Section (write_bytes c (snd r)) (\<lambda>_.
       case fst r of
         FrThrow \<Rightarrow> Answer (Inl (StdException ''length_error''))
       | FrClosed \<Rightarrow> leave_prog c
       | FrMessage _ \<Rightarrow> Section (\<lambda>s. s) (\<lambda>s. if lg_running s then reading_prog c rs else leave_prog c)))"

text \<open>
  A client from the moment \<open>acceptLoop\<close> inserts it; \<open>snd\<close> and \<open>inp\<close> say how its \<open>handshake\<close>
  goes.
\<close>

definition client_prog ::
  "'j json_api \<Rightarrow> int \<Rightarrow> (byte list \<Rightarrow> int) \<Rightarrow> inbound \<Rightarrow> (frame_result \<times> byte list) list \<Rightarrow> log_prog" where
  "client_prog J c send inp reads =
     Section (\<lambda>s. s\<lparr>lg_clients := lg_clients s @ [c]\<rparr>) (\<lambda>_.
       Section (write_bytes c (snd (fst (handshake send inp)))) (\<lambda>_.
         if \<not> fst (fst (handshake send inp)) then leave_prog c
         else Section (\<lambda>s. s) (\<lambda>s.
           if lg_onConnect s then onClientConnect_prog J c (reading_prog c reads) else reading_prog c reads)))"

datatype log_call =
    LogLine nat string string string
  | LogClient int "byte list \<Rightarrow> int" inbound "(frame_result \<times> byte list) list"
  | LogStop

fun log_prog_of :: "'j json_api \<Rightarrow> (nat \<Rightarrow> string) \<Rightarrow> log_call \<Rightarrow> log_prog" where
  "log_prog_of J fmt (LogLine ms level source message) = log_prog J fmt ms level source message"
| "log_prog_of J fmt (LogClient c send inp reads) = client_prog J c send inp reads"
| "log_prog_of J fmt LogStop = log_service_stop"

text \<open>Alone, a call of \<open>log\<close> does what the sequential model says, and sends the frame to all clients.\<close>

lemma run_write_all:
  "run_prog (write_all frame cs) s = (Inr (), fold (\<lambda>c. write_bytes c (frame_bytes frame)) cs s)"
  by (induction cs arbitrary: s) simp_all

lemma log_prog_alone:
  "run_prog (log_prog J fmt ms level source message) s =
     (case broadcaster_log J fmt ms level source message (lg_buffer s) of
        Inl e \<Rightarrow> (Inl e, s)
      | Inr (buf, frame) \<Rightarrow>
          (Inr (), fold (\<lambda>c. write_bytes c (frame_bytes frame)) (lg_clients s) (s\<lparr>lg_buffer := buf\<rparr>)))"
  by (simp add: log_prog_def broadcaster_log_def Let_def broadcast_prog_def run_write_all bind_exn_def split: sum.split)

section \<open>Who gets what\<close>

definition log_sane :: "'j json_api \<Rightarrow> log_site \<Rightarrow> bool" where
  "log_sane J s \<longleftrightarrow> lg_onConnect s \<and> (\<forall>e \<in> set (lg_buffer s). dumps J e)"

definition log_members :: "log_site \<Rightarrow> int set" where
  "log_members s = set (lg_clients s)"

definition log_got :: "log_site \<Rightarrow> int \<Rightarrow> string set" where
  "log_got s c = {f. frame_bytes f \<in> set (lg_sent s c)}"

definition log_recent :: "'j json_api \<Rightarrow> log_site \<Rightarrow> string set" where
  "log_recent J s = {f. \<exists>e \<in> set (backfill (lg_buffer s)). entryToJson J e = Inr f}"

abbreviation log_sends :: "'j json_api \<Rightarrow> int \<Rightarrow> string \<Rightarrow> log_prog \<Rightarrow> bool" where
  "log_sends J \<equiv> sends (log_sane J) log_members log_got"

abbreviation log_dutiful :: "'j json_api \<Rightarrow> log_prog \<Rightarrow> int option \<Rightarrow> bool" where
  "log_dutiful J \<equiv> dutiful (log_sane J) log_members log_got (log_recent J)"

lemma frame_bytes_not_Nil: "frame_bytes m \<noteq> []"
  by (simp add: frame_bytes_def)

lemma write_bytes_sel [simp]:
  "lg_buffer (write_bytes c bs s) = lg_buffer s" "lg_clients (write_bytes c bs s) = lg_clients s"
  "lg_onConnect (write_bytes c bs s) = lg_onConnect s" "lg_running (write_bytes c bs s) = lg_running s"
  by (simp_all add: write_bytes_def)

lemma got_write: "log_got s d \<subseteq> log_got (write_bytes c bs s) d"
  by (auto simp: log_got_def write_bytes_def)

lemma got_written: "f \<in> log_got (write_bytes c (frame_bytes f) s) c"
  by (simp add: log_got_def write_bytes_def frame_bytes_not_Nil)

text \<open>A section that changes neither buffer nor callback and lets nobody in.\<close>

lemma dutiful_passive:
  assumes "\<And>s. lg_buffer (u s) = lg_buffer s" "\<And>s. lg_onConnect (u s) = lg_onConnect s"
    and "\<And>s. set (lg_clients (u s)) \<subseteq> set (lg_clients s)" "\<And>s d. log_got s d \<subseteq> log_got (u s) d"
    and "\<And>s. log_sane J s \<Longrightarrow> log_dutiful J (k s) None"
  shows "log_dutiful J (Section u k) None"
  using assms by (auto simp: log_sane_def log_recent_def log_members_def intro!: exI [of _ None])

lemma dutiful_read: "(\<And>s. log_sane J s \<Longrightarrow> log_dutiful J (k s) None) \<Longrightarrow> log_dutiful J (Section (\<lambda>s. s) k) None"
  by (rule dutiful_passive) auto

lemma dutiful_write: "(\<And>s. log_dutiful J (k s) None) \<Longrightarrow> log_dutiful J (Section (write_bytes c bs) k) None"
  by (rule dutiful_passive) (use got_write in auto)

lemma dutiful_leave: "log_dutiful J (leave_prog c) None"
  unfolding leave_prog_def by (rule dutiful_passive) (auto simp: log_got_def)

lemma dutiful_write_all: "log_dutiful J (write_all f cs) None"
proof (induction cs)
  case (Cons c cs)
  then show ?case unfolding write_all.simps by (rule dutiful_write)
qed simp

lemma dutiful_reading: "log_dutiful J (reading_prog c rs) None"
proof (induction rs)
  case Nil
  show ?case unfolding reading_prog.simps by (rule dutiful_read) (simp add: dutiful_leave)
next
  case (Cons r rs)
  have "log_dutiful J (Section (\<lambda>s. s) (\<lambda>s. if lg_running s then reading_prog c rs else leave_prog c)) None"
    by (rule dutiful_read) (simp add: Cons.IH dutiful_leave)
  then have "log_dutiful J (case fst r of FrThrow \<Rightarrow> Answer (Inl (StdException ''length_error''))
      | FrClosed \<Rightarrow> leave_prog c
      | FrMessage _ \<Rightarrow> Section (\<lambda>s. s) (\<lambda>s. if lg_running s then reading_prog c rs else leave_prog c)) None"
    by (cases "fst r") (simp_all del: dutiful.simps(2) add: dutiful_leave)
  then show ?case unfolding reading_prog.simps
    by (intro dutiful_read) (simp del: dutiful.simps(2) add: dutiful_leave dutiful_write)
qed

lemma dutiful_stop: "log_dutiful J broadcaster_stop None"
proof -
  have "log_dutiful J (Section (\<lambda>s. s\<lparr>lg_clients := []\<rparr>) (\<lambda>_. Answer (Inr ()))) None"
    by (rule dutiful_passive) (auto simp: log_got_def)
  then show ?thesis unfolding broadcaster_stop_def
    by (intro dutiful_passive) (auto simp: log_got_def)
qed

lemma dutiful_backfill: "log_dutiful J p None \<Longrightarrow> log_dutiful J (backfill_prog J c p es) None"
proof (induction es)
  case (Cons e es)
  then show ?case
    by (auto simp: send_prog_def simp del: dutiful.simps(2) split: sum.split
      intro!: dutiful_read dutiful_write)
qed simp

subsection \<open>What is sent\<close>

lemma sends_write_all: "c \<in> set cs \<Longrightarrow> log_sends J c f (write_all f cs)"
  by (induction cs) (auto simp: got_written)

lemma sends_broadcast: "log_sends J c f (broadcast_prog f)"
  by (simp add: broadcast_prog_def log_members_def sends_write_all)

lemma sends_backfill:
  assumes "e \<in> set es" "\<forall>e \<in> set es. dumps J e" "entryToJson J e = Inr f"
  shows "log_sends J c f (backfill_prog J c p es)"
  using assms(1,2)
proof (induction es)
  case (Cons x es)
  from Cons.prems(2) obtain fx where fx: "entryToJson J x = Inr fx" by (auto simp: dumps_def)
  show ?case
  proof (cases "x = e")
    case True
    with fx assms(3) show ?thesis by (auto simp: send_prog_def log_members_def got_written)
  next
    case False
    with Cons have "log_sends J c f (backfill_prog J c p es)" by simp
    with fx show ?thesis by (simp add: send_prog_def)
  qed
qed simp

lemma backfill_push: "set (backfill (buffer_push buf e)) \<subseteq> insert e (set (backfill buf))"
proof -
  have b: "backfill xs = drop (length xs - 100) xs" for xs :: "'a list"
    by (simp add: backfill_def BACKFILL_COUNT_def Let_def)
  have "set (drop (Suc (length buf) - 100) buf) \<subseteq> set (drop (length buf - 100) buf)"
    "set (drop (Suc (length buf - 100)) buf) \<subseteq> set (drop (length buf - 100) buf)"
    by (rule set_drop_subset_set_drop, simp)+
  then show ?thesis
    by (cases "500 \<le> length buf") (auto simp: b buffer_push_def BUFFER_MAX_def Suc_diff_le dest: in_set_dropD)
qed

lemma dutiful_log: "log_dutiful J (log_prog J fmt ms level source message) None"
proof -
  define e where "e = \<lparr>le_level = level, le_source = source, le_message = message, le_timestamp = nowIso fmt ms\<rparr>"
  show ?thesis
  proof (cases "entryToJson J e")
    case (Inr f)
    have b: "log_dutiful J (broadcast_prog f) None"
      unfolding broadcast_prog_def by (intro dutiful_read dutiful_write_all)
    have "set (buffer_push buf e) \<subseteq> insert e (set buf)" for buf
      by (auto simp: buffer_push_def dest: in_set_dropD)
    then have "log_sane J (s\<lparr>lg_buffer := buffer_push (lg_buffer s) e\<rparr>)" if "log_sane J s" for s
      using that Inr by (auto simp: log_sane_def dumps_def)
    moreover have "f' = f" if "f' \<in> log_recent J (s\<lparr>lg_buffer := buffer_push (lg_buffer s) e\<rparr>) - log_recent J s" for s f'
      using that backfill_push [of "lg_buffer s" e] Inr by (auto simp: log_recent_def)
    moreover have "log_got (s\<lparr>lg_buffer := buf\<rparr>) = log_got s" "log_members (s\<lparr>lg_buffer := buf\<rparr>) = log_members s" for s buf
      by (auto simp: log_got_def log_members_def)
    ultimately show ?thesis
      using b sends_broadcast unfolding log_prog_def Let_def e_def [symmetric]
      by (simp add: Inr) blast
  qed (simp add: log_prog_def Let_def e_def)
qed

text \<open>The thread of a client: from its insertion it owes the backfill, and a failed handshake ends that.\<close>

lemma dutiful_snapshot:
  "log_dutiful J (Section (\<lambda>s. s) (\<lambda>s.
     if lg_onConnect s then onClientConnect_prog J c (reading_prog c reads) else reading_prog c reads)) (Some c)"
proof -
  have "log_sends J c f (backfill_prog J c p (backfill (lg_buffer s)))"
    if "log_sane J s" "f \<in> log_recent J s" for s f p
  proof -
    from that(1) have "\<forall>e \<in> set (backfill (lg_buffer s)). dumps J e"
      by (auto simp: log_sane_def backfill_def Let_def dest: in_set_dropD)
    with that(2) sends_backfill show ?thesis by (auto simp: log_recent_def)
  qed
  then have "log_dutiful J (onClientConnect_prog J c (reading_prog c reads)) (Some c)"
    unfolding onClientConnect_prog_def
    by (auto simp: dutiful_backfill dutiful_reading intro!: exI [of _ None])
  then show ?thesis by (auto simp: log_sane_def intro!: exI [of _ "Some c"])
qed

lemma dutiful_leave_owing: "log_dutiful J (leave_prog c) (Some c)"
  by (auto simp: leave_prog_def log_sane_def log_members_def log_got_def log_recent_def intro!: exI [of _ None])

lemma dutiful_client: "log_dutiful J (client_prog J c send inp reads) None"
proof -
  define p where "p = (if \<not> fst (fst (handshake send inp)) then leave_prog c
     else Section (\<lambda>s. s) (\<lambda>s.
       if lg_onConnect s then onClientConnect_prog J c (reading_prog c reads) else reading_prog c reads))"
  define bs where "bs = snd (fst (handshake send inp))"
  have "log_dutiful J p (Some c)"
    unfolding p_def by (cases "fst (fst (handshake send inp))")
      (simp_all only: dutiful_leave_owing dutiful_snapshot simp_thms if_True if_False)
  then have "log_dutiful J (Section (write_bytes c bs) (\<lambda>_. p)) (Some c)"
    using got_write by (auto simp: log_sane_def log_recent_def log_members_def intro!: exI [of _ "Some c"])
  then show ?thesis
    unfolding client_prog_def p_def [symmetric] bs_def [symmetric]
    by (subst dutiful.simps)
      (auto simp: log_sane_def log_recent_def log_members_def log_got_def simp del: dutiful.simps intro!: exI [of _ "Some c"])
qed

lemma log_prog_dutiful: "log_dutiful J (log_prog_of J fmt q) None"
  by (cases q) (simp_all add: dutiful_log dutiful_client dutiful_stop log_service_stop_def del: dutiful.simps)

interpretation log_stream: streaming_service "log_sane J" log_members log_got "log_recent J" "log_prog_of J fmt" for J fmt
  by unfold_locales (rule log_prog_dutiful)

section \<open>Properties\<close>

definition log_new :: "log_entry list \<Rightarrow> log_site" where
  "log_new buf = \<lparr>lg_buffer = buf, lg_clients = [], lg_sent = (\<lambda>_. []), lg_onConnect = False,
     lg_running = False, lg_port = 0\<rparr>"

lemma log_started_sane: "log_sane J (log_service_start port (log_new (log_all J fmt ls [])))"
  by (auto simp: log_sane_def log_service_start_def broadcaster_start_def log_new_def log_all_foldl
    buffer_pushes dest: in_set_dropD)

text \<open>
  C10: no client of the log stream misses an entry. However the threads that log, the threads of
  the clients and \<open>stop\<close> interleave, they can always run to completion, and whenever they have, a
  client that is still connected has been sent the frame of each of the last 100 entries, those
  from before it connected and those that came in while it did.
\<close>

theorem no_log_entry_is_missed:
  assumes "run_schedule sched (log_service_start port (log_new (log_all J fmt ls [])), map (log_prog_of J fmt) calls) = x"
  shows "(\<exists>sched'. all_answered (run_schedule sched' x)) \<and>
    (\<forall>sched' s' ps. run_schedule sched' x = (s', ps) \<longrightarrow> all_answered (s', ps) \<longrightarrow>
      (\<forall>c \<in> set (lg_clients s'). \<forall>e \<in> set (backfill (lg_buffer s')). \<forall>frame.
         entryToJson J e = Inr frame \<longrightarrow> frame_bytes frame \<in> set (lg_sent s' c)))"
proof (intro conjI allI ballI impI)
  show "\<exists>sched'. all_answered (run_schedule sched' x)" by (rule schedule_finishes)
next
  fix sched' s' ps c e frame
  assume run: "run_schedule sched' x = (s', ps)" "all_answered (s', ps)"
    and c: "c \<in> set (lg_clients s')" and e: "e \<in> set (backfill (lg_buffer s'))" "entryToJson J e = Inr frame"
  have "log_members (log_service_start port (log_new (log_all J fmt ls []))) = {}"
    by (simp add: log_members_def log_service_start_def broadcaster_start_def log_new_def)
  from log_stream.schedule_serves [where fmt = fmt and sched = "sched @ sched'" and qs = calls and s' = s' and ps = ps
      and c = c and e = frame, OF log_started_sane this]
  have "frame \<in> log_got s' c"
    using run c e assms by (auto simp: run_schedule_append log_members_def log_recent_def)
  then show "frame_bytes frame \<in> set (lg_sent s' c)" by (simp add: log_got_def)
qed

text \<open>
  What a client can be sent before the server has accepted it: an entry that is logged between the
  insertion of the client and its handshake is written to the socket before the response of the
  handshake, and once more with the backfill.
\<close>

theorem entry_can_precede_the_handshake:
  assumes "entryToJson J \<lparr>le_level = level, le_source = source, le_message = message, le_timestamp = nowIso fmt ms\<rparr> = Inr frame"
    and "fst (handshake send inp) = (True, resp)" "resp \<noteq> []"
  shows "\<exists>sched s' ps. run_schedule sched (log_service_start port (log_new []),
       map (log_prog_of J fmt) [LogClient c send inp [], LogLine ms level source message]) = (s', ps) \<and>
     all_answered (s', ps) \<and> lg_sent s' c = [frame_bytes frame, resp, frame_bytes frame]"
proof -
  let ?e = "\<lparr>le_level = level, le_source = source, le_message = message, le_timestamp = nowIso fmt ms\<rparr>"
  have e: "buffer_push [] ?e = [?e]" "backfill [?e] = [?e]"
    by (simp_all add: buffer_push_def BUFFER_MAX_def backfill_def BACKFILL_COUNT_def)
  show ?thesis
    by (rule exI [of _ "[0, 1, 1, 1, 0, 0, 0, 0, 0, 0]"])
      (use assms e in \<open>simp add: step_thread_def client_prog_def log_prog_def broadcast_prog_def Let_def
        log_service_start_def broadcaster_start_def log_new_def onClientConnect_prog_def send_prog_def
        write_bytes_def frame_bytes_not_Nil all_answered_def\<close>)
qed

section \<open>Witnesses\<close>

definition demo_log_entry :: log_entry where
  "demo_log_entry = \<lparr>le_level = ''info'', le_source = ''a'', le_message = ''b'', le_timestamp = nowIso (\<lambda>_. ''T'') 0\<rparr>"

definition demo_log_json :: "json json_api" where
  "demo_log_json = table_json [(''t'', JObject
     [(''level'', JString ''info''), (''source'', JString ''a''), (''message'', JString ''b''),
      (''timestamp'', JString (nowIso (\<lambda>_. ''T'') 0))])]"

definition demo_log_calls :: "log_call list" where
  "demo_log_calls = [LogClient 0 (\<lambda>b. int (length b)) [bytes_of demo_request] [], LogLine 0 ''info'' ''a'' ''b'']"

lemma demo_entry_json: "entryToJson demo_log_json demo_log_entry = Inr ''t''"
  by (simp add: demo_log_json_def demo_log_entry_def entryToJson_def dump_exn_def)

lemma demo_log_handshake:
  "handshake (\<lambda>b. int (length b)) [bytes_of demo_request] = ((True, bytes_of (handshake_response ''dGhl'')), [])"
proof -
  have "extract_key demo_request = Some ''dGhl''" by code_simp
  moreover have "bytes_of demo_request \<noteq> []" "length (bytes_of demo_request) \<le> 4095"
    by (simp_all add: bytes_of_def demo_request_def crlf_def)
  ultimately show ?thesis by (simp add: handshake_def Let_def)
qed

definition demo_log_run :: "log_site \<times> log_prog list" where
  "demo_log_run = run_schedule [0, 0, 0, 1, 0, 1, 1, 0, 0, 0]
     (log_service_start 8084 (log_new []), map (log_prog_of demo_log_json (\<lambda>_. ''T'')) demo_log_calls)"

lemma demo_log_run:
  "all_answered demo_log_run" "lg_clients (fst demo_log_run) = [0]" "lg_buffer (fst demo_log_run) = [demo_log_entry]"
proof -
  have e: "buffer_push [] demo_log_entry = [demo_log_entry]" "backfill [demo_log_entry] = [demo_log_entry]"
    by (simp_all add: buffer_push_def BUFFER_MAX_def backfill_def BACKFILL_COUNT_def)
  note defs = demo_log_run_def demo_log_calls_def step_thread_def client_prog_def log_prog_def broadcast_prog_def Let_def
    log_service_start_def broadcaster_start_def log_new_def onClientConnect_prog_def send_prog_def all_answered_def
  have entry: "\<lparr>le_level = ''info'', le_source = ''a'', le_message = ''b'', le_timestamp = nowIso (\<lambda>_. ''T'') 0\<rparr> = demo_log_entry"
    by (simp add: demo_log_entry_def)
  show "all_answered demo_log_run" "lg_clients (fst demo_log_run) = [0]" "lg_buffer (fst demo_log_run) = [demo_log_entry]"
    by (simp_all add: defs demo_log_handshake entry demo_entry_json e)
qed

lemma no_log_entry_is_missed_witness:
  "frame_bytes ''t'' \<in> set (lg_sent (fst demo_log_run) 0)"
proof -
  have "log_all demo_log_json (\<lambda>_. ''T'') [] [] = []" by simp
  from no_log_entry_is_missed [of "[0, 0, 0, 1]" 8084 demo_log_json "\<lambda>_. ''T''" "[]" demo_log_calls, OF refl]
  have "\<forall>sched' s' ps. run_schedule sched' (run_schedule [0, 0, 0, 1] (log_service_start 8084 (log_new []),
        map (log_prog_of demo_log_json (\<lambda>_. ''T'')) demo_log_calls)) = (s', ps) \<longrightarrow> all_answered (s', ps) \<longrightarrow>
      (\<forall>c \<in> set (lg_clients s'). \<forall>e \<in> set (backfill (lg_buffer s')). \<forall>frame.
         entryToJson demo_log_json e = Inr frame \<longrightarrow> frame_bytes frame \<in> set (lg_sent s' c))"
    by simp
  from this [rule_format, of "[0, 1, 1, 0, 0, 0]" "fst demo_log_run" "snd demo_log_run" 0 demo_log_entry "''t''"]
  show ?thesis
    using demo_log_run demo_entry_json
    by (simp add: demo_log_run_def backfill_def BACKFILL_COUNT_def)
qed

lemma entry_can_precede_the_handshake_witness:
  "\<exists>sched s' ps. run_schedule sched (log_service_start 8084 (log_new []),
       map (log_prog_of demo_log_json (\<lambda>_. ''T'')) demo_log_calls) = (s', ps) \<and>
     all_answered (s', ps) \<and>
     lg_sent s' 0 = [frame_bytes ''t'', bytes_of (handshake_response ''dGhl''), frame_bytes ''t'']"
proof -
  have "bytes_of (handshake_response ''dGhl'') \<noteq> []" by (simp add: handshake_response_def Let_def bytes_of_def)
  then show ?thesis
    using entry_can_precede_the_handshake [of demo_log_json "''info''" "''a''" "''b''" "\<lambda>_. ''T''" 0 "''t''"
        "\<lambda>b. int (length b)" "[bytes_of demo_request]" "bytes_of (handshake_response ''dGhl'')" 8084 0]
      demo_entry_json demo_log_handshake
    by (simp add: demo_log_calls_def demo_log_entry_def)
qed

end
