(* ===== verification/Mcp_Flow.thy ===== *)
theory Mcp_Flow
  imports Mcp
begin

text \<open>
  What an MCP client sees: the types of the replies of \<open>McpServer\<close> (src/mcp), and the path of a
  tool call over the HTTP API to the controllers and back, for the running services.
\<close>

section \<open>Types of JSON values\<close>

definition is_str :: "'j json_api \<Rightarrow> 'j \<Rightarrow> bool" where
  "is_str J j \<longleftrightarrow> (\<exists>s. j = j_string J s)"

definition is_num :: "'j json_api \<Rightarrow> 'j \<Rightarrow> bool" where
  "is_num J j \<longleftrightarrow> (\<exists>i. j = j_int J i)"

definition is_arr :: "'j json_api \<Rightarrow> ('j \<Rightarrow> bool) \<Rightarrow> 'j \<Rightarrow> bool" where
  "is_arr J T j \<longleftrightarrow> (\<exists>xs. j = j_array J xs \<and> list_all T xs)"

text \<open>An object with the members \<open>req\<close>, some of the members \<open>opt\<close>, and no others.\<close>

definition is_obj ::
  "'j json_api \<Rightarrow> (string \<times> ('j \<Rightarrow> bool)) list \<Rightarrow> (string \<times> ('j \<Rightarrow> bool)) list \<Rightarrow> 'j \<Rightarrow> bool" where
  "is_obj J req opt j \<longleftrightarrow> (\<exists>kvs. j = j_object J kvs \<and> distinct (map fst kvs) \<and>
     list_all (\<lambda>(k, T). \<exists>v. map_of kvs k = Some v \<and> T v) req \<and>
     list_all (\<lambda>(k, v). k \<in> set (map fst req) \<or> (\<exists>T. (k, T) \<in> set opt \<and> T v)) kvs)"

definition is_map :: "'j json_api \<Rightarrow> ('j \<Rightarrow> bool) \<Rightarrow> 'j \<Rightarrow> bool" where
  "is_map J T j \<longleftrightarrow> (\<exists>kvs. j = j_object J kvs \<and> distinct (map fst kvs) \<and> list_all (\<lambda>(k, v). T v) kvs)"

text \<open>The replies that JSON-RPC and MCP prescribe.\<close>

definition rpc_result :: "'j json_api \<Rightarrow> 'j \<Rightarrow> ('j \<Rightarrow> bool) \<Rightarrow> 'j \<Rightarrow> bool" where
  "rpc_result J i T = is_obj J
     [(''jsonrpc'', \<lambda>v. v = j_string J ''2.0''), (''id'', \<lambda>v. v = i), (''result'', T)] []"

definition rpc_error :: "'j json_api \<Rightarrow> 'j \<Rightarrow> 'j \<Rightarrow> bool" where
  "rpc_error J i = is_obj J
     [(''jsonrpc'', \<lambda>v. v = j_string J ''2.0''), (''id'', \<lambda>v. v = i),
      (''error'', is_obj J [(''code'', is_num J), (''message'', is_str J)] [])] []"

definition initialize_result :: "'j json_api \<Rightarrow> 'j \<Rightarrow> bool" where
  "initialize_result J = is_obj J
     [(''protocolVersion'', is_str J),
      (''serverInfo'', is_obj J [(''name'', is_str J), (''version'', is_str J)] []),
      (''capabilities'', is_obj J [(''tools'', is_obj J [] [])] [])] []"

definition schema_type :: "'j json_api \<Rightarrow> 'j \<Rightarrow> bool" where
  "schema_type J = is_obj J
     [(''type'', \<lambda>v. v = j_string J ''object''),
      (''properties'', is_map J (is_obj J [(''type'', is_str J)] [(''description'', is_str J)]))]
     [(''required'', is_arr J (is_str J))]"

definition tools_result :: "'j json_api \<Rightarrow> 'j \<Rightarrow> bool" where
  "tools_result J = is_obj J
     [(''tools'', is_arr J (is_obj J
        [(''name'', is_str J), (''description'', is_str J), (''inputSchema'', schema_type J)] []))] []"

definition content_result :: "'j json_api \<Rightarrow> 'j \<Rightarrow> bool" where
  "content_result J = is_obj J
     [(''content'', is_arr J (is_obj J [(''type'', \<lambda>v. v = j_string J ''text''), (''text'', is_str J)] []))] []"

definition reply_type :: "'j json_api \<Rightarrow> string \<Rightarrow> 'j \<Rightarrow> 'j \<Rightarrow> bool" where
  "reply_type J mth i reply =
     (if mth = ''initialize'' then rpc_result J i (initialize_result J) reply
      else if mth = ''notifications/initialized'' then reply = j_null J
      else if mth = ''ping'' then rpc_result J i (is_obj J [] []) reply
      else if mth = ''tools/list'' then rpc_result J i (tools_result J) reply
      else if mth = ''tools/call'' then rpc_result J i (content_result J) reply \<or> rpc_error J i reply
      else rpc_error J i reply)"

section \<open>Lemmas\<close>

lemma is_objI:
  assumes "distinct (map fst kvs)" "list_all (\<lambda>(k, T). \<exists>v. map_of kvs k = Some v \<and> T v) req"
    and "list_all (\<lambda>(k, v). k \<in> set (map fst req) \<or> (\<exists>T. (k, T) \<in> set opt \<and> T v)) kvs"
  shows "is_obj J req opt (j_object J kvs)"
  using assms by (auto simp: is_obj_def)

lemma is_str [simp]: "is_str J (j_string J s)"
  by (auto simp: is_str_def)

lemma is_num [simp]: "is_num J (j_int J i)"
  by (auto simp: is_num_def)

lemma is_arrI: "list_all T xs \<Longrightarrow> is_arr J T (j_array J xs)"
  by (auto simp: is_arr_def)

lemma is_empty_obj [simp]: "is_obj J [] [] (j_object J [])"
  by (auto simp: is_obj_def)

lemma mcp_ok_type: "T v \<Longrightarrow> rpc_result J i T (mcp_ok J i v)"
  unfolding rpc_result_def mcp_ok_def by (rule is_objI) simp_all

lemma mcp_err_type: "rpc_error J i (mcp_err J i code msg)"
  unfolding rpc_error_def mcp_err_def by (rule is_objI) (auto intro: is_objI)

lemma ping_type: "rpc_result J i (is_obj J [] []) (mcp_ok J i (j_object J []))"
  by (rule mcp_ok_type, rule is_empty_obj)

lemma initialize_type: "rpc_result J i (initialize_result J) (handleInitialize J i)"
  unfolding handleInitialize_def initialize_result_def
  by (intro mcp_ok_type is_objI) (auto intro!: is_objI)

lemma content_type: "content_result J (j_object J [(''content'', j_array J [mcp_text J t])])"
  unfolding content_result_def mcp_text_def by (rule is_objI) (auto intro!: is_arrI is_objI)

text \<open>The schema of any endpoint, parameters with the same name included.\<close>

abbreviation property_type :: "'j json_api \<Rightarrow> 'j \<Rightarrow> bool" where
  "property_type J \<equiv> is_obj J [(''type'', is_str J)] [(''description'', is_str J)]"

lemma assoc_set_all: "list_all (\<lambda>(k, v). T v) kvs \<Longrightarrow> T v \<Longrightarrow> list_all (\<lambda>(k, v). T v) (assoc_set k v kvs)"
  by (induction k v kvs rule: assoc_set.induct) auto

text \<open>The object of one parameter, as the loop builds it.\<close>

definition prop_of :: "'j json_api \<Rightarrow> endpoint_param \<Rightarrow> 'j outcome" where
  "prop_of J p = (if pa_description p \<noteq> []
     then j_set J (j_object J [(''type'', j_string J (pa_type p))]) ''description'' (j_string J (pa_description p))
     else Inr (j_object J [(''type'', j_string J (pa_type p))]))"

lemma property_typed: "json_laws J \<Longrightarrow> \<exists>v. prop_of J p = Inr v \<and> property_type J v"
  by (auto simp: prop_of_def json_laws_object intro!: is_objI)

lemma schema_loop_Cons:
  "schema_loop J (p # ps) props req = bind_exn (prop_of J p) (\<lambda>v.
     bind_exn (j_set J props (pa_name p) v) (\<lambda>props'.
       schema_loop J ps props' (if pa_required p then req @ [pa_name p] else req)))"
  by (simp add: prop_of_def Let_def)

lemma schema_loop_type:
  assumes "json_laws J" "table_wf kvs" "list_all (\<lambda>(k, v). property_type J v) kvs"
  shows "\<exists>props req'. schema_loop J ps (j_object J kvs) req = Inr (props, req') \<and> is_map J (property_type J) props"
  using assms(2,3)
proof (induction ps arbitrary: kvs req)
  case Nil
  then have "is_map J (property_type J) (j_object J kvs)"
    unfolding is_map_def table_wf_def by (intro exI [of _ kvs] conjI refl)
  then show ?case by simp
next
  case (Cons p ps)
  from property_typed [OF assms(1), of p] obtain v where v: "prop_of J p = Inr v" "property_type J v"
    by (elim exE conjE)
  have "j_set J (j_object J kvs) (pa_name p) v = Inr (j_object J (assoc_set (pa_name p) v kvs))"
    using assms(1) Cons.prems(1) by (simp add: json_laws_object table_wf_def)
  moreover have "\<exists>props req'. schema_loop J ps (j_object J (assoc_set (pa_name p) v kvs)) r = Inr (props, req') \<and>
      is_map J (property_type J) props" for r
    using Cons.prems v(2) by (intro Cons.IH table_wf_assoc_set assoc_set_all [where T = "property_type J"])
  ultimately show ?case by (simp only: schema_loop_Cons v(1) bind_exn_simps)
qed

lemma schema_typed:
  assumes "json_laws J"
  shows "\<exists>schema. buildInputSchema J ep = Inr schema \<and> schema_type J schema"
proof -
  from schema_loop_type [OF assms, of "[]" "ep_params ep" "[]"] obtain props req
    where "schema_loop J (ep_params ep) (j_object J []) [] = Inr (props, req)" "is_map J (property_type J) props" by auto
  with assms show ?thesis
    by (auto simp: buildInputSchema_def schema_type_def json_laws_object Let_def list_all_iff intro!: is_objI is_arrI)
qed

lemma tools_typed:
  assumes "json_laws J"
  shows "\<exists>tools. map_outcomes (tool_json J) eps = Inr tools \<and> list_all (is_obj J
    [(''name'', is_str J), (''description'', is_str J), (''inputSchema'', schema_type J)] []) tools"
proof (induction eps)
  case (Cons ep eps)
  from schema_typed [OF assms] obtain schema where "buildInputSchema J ep = Inr schema" "schema_type J schema" by blast
  then have "\<exists>tool. tool_json J ep = Inr tool \<and> is_obj J
      [(''name'', is_str J), (''description'', is_str J), (''inputSchema'', schema_type J)] [] tool"
    by (auto simp: tool_json_def intro!: is_objI)
  with Cons.IH show ?case by auto
qed simp

lemma tools_list_type:
  assumes "json_laws J" "handleToolsList J eps i = Inr reply"
  shows "rpc_result J i (tools_result J) reply"
proof -
  from tools_typed [OF assms(1), of eps] obtain tools where tools: "map_outcomes (tool_json J) eps = Inr tools"
      "list_all (is_obj J [(''name'', is_str J), (''description'', is_str J), (''inputSchema'', schema_type J)] []) tools"
    by blast
  then have "tools_result J (j_object J [(''tools'', j_array J tools)])"
    unfolding tools_result_def by (intro is_objI) (simp_all add: is_arrI)
  with tools(1) assms(2) show ?thesis by (auto simp: handleToolsList_def intro: mcp_ok_type)
qed

lemma content_reply:
  "rpc_result J i (content_result J) (mcp_ok J i (j_object J [(''content'', j_array J [mcp_text J t])]))"
  by (rule mcp_ok_type, rule content_type)

lemma tools_call_type:
  assumes "handleToolsCall J client base routes params i w = (Inr reply, w')"
  shows "rpc_result J i (content_result J) reply \<or> rpc_error J i reply"
  using assms content_reply mcp_err_type
  by (fastforce simp: handleToolsCall_def bind_exn_Inr split: sum.splits option.splits prod.splits)

section \<open>Properties\<close>



subsection \<open>A tool call and the API\<close>

definition api_request :: "http_method \<Rightarrow> string \<Rightarrow> string option \<Rightarrow> request" where
  "api_request m path body = \<lparr>rq_method = httpMethodToString m, rq_path = path,
     rq_body = (case body of None \<Rightarrow> [] | Some b \<Rightarrow> b), rq_params = Map.empty\<rparr>"

definition fresh_response :: response where
  "fresh_response = \<lparr>rs_status = 200, rs_body = [], rs_type = []\<rparr>"

text \<open>
  What cpp-httplib promises for its client and its server in one process: a request to a path
  that is bound without placeholders runs the handler bound to it, on a fresh response whose
  status becomes 200 unless the handler sets it, and the client gets the response the handler
  has written. Nothing is assumed of other paths or of handlers that throw.
\<close>

definition api_transport ::
  "(handler \<Rightarrow> request \<Rightarrow> response \<Rightarrow> 'a \<Rightarrow> response outcome \<times> 'a) \<Rightarrow> handler http_server \<Rightarrow> 'a client \<Rightarrow> bool" where
  "api_transport run srv client \<longleftrightarrow> (\<forall>(m, path, ep) \<in> set (hs_bound srv). CHR '':'' \<notin> set path \<longrightarrow>
     (\<forall>h body a res a'. ep_handler ep = Some h \<longrightarrow> run h (api_request m path body) fresh_response a = (Inr res, a') \<longrightarrow>
        client \<lparr>cl_host = ''localhost'', cl_port = 8080, cl_method = m, cl_url = path, cl_body = body\<rparr> a
          = (ClientOk (rs_status res) (rs_body res), a')))"

lemma get_handlers:
  assumes "ep \<in> set (hs_routes http_service_start)" "ep_method ep = GET" "ep_handler ep = Some h"
  shows "h \<in> {HStatus, HHealth, HMetrics, HModuleIndex, HDeviceIndex, HDeviceShow, HRoomIndex, HRoomShow, HConfigShow}"
  using assms by (auto simp: service_endpoint_defs)

lemma get_changes_nothing:
  assumes "ep \<in> set (hs_routes http_service_start)" "ep_method ep = GET" "ep_handler ep = Some h"
  shows "snd (handle J P pm up mq rss rnd h req res a) = a"
  using get_handlers [OF assms] by (auto simp: handle_def Let_def)

lemma running_service:
  assumes "mcp_service_start (Some http_service_start) cur = Some s"
  shows "mc_routes s = hs_routes http_service_start" "mc_base s = ''http://localhost:8080''"
  using assms by (auto simp: mcp_service_start_def mcp_start_def)

lemma find_service_tool:
  assumes "ep \<in> set (hs_routes http_service_start)"
  shows "find_tool (ep_name ep) (hs_routes http_service_start) = Some ep"
proof -
  have "distinct (map ep_name (hs_routes http_service_start))" unfolding service_names by simp
  with assms show ?thesis by (rule find_tool_distinct [rotated])
qed

text \<open>The call of a GET endpoint without placeholders, up to the JSON of the answer.\<close>

lemma callEndpoint_get:
  assumes "json_laws J" "api_transport (handle J P pm up mq rss rnd) http_service_start client"
    and "ep \<in> set (hs_routes http_service_start)" "ep_method ep = GET" "CHR '':'' \<notin> set (ep_path ep)"
    and "ep_handler ep = Some h"
    and "handle J P pm up mq rss rnd h (api_request GET (ep_path ep) None) fresh_response a = (Inr res, a')"
  shows "callEndpoint J client ''http://localhost:8080'' ep args a
    = (Inr (reply_json J (ClientOk (rs_status res) (rs_body res))), a)"
proof -
  have np: "ep_params ep = []" using service_no_params assms(3) by (auto simp: list_all_iff)
  have "(GET, ep_path ep, ep) \<in> set (hs_bound http_service_start)"
    using assms(3,4) unfolding http_service_bound by force
  with assms(2,5-7) have "client \<lparr>cl_host = ''localhost'', cl_port = 8080, cl_method = GET, cl_url = ep_path ep, cl_body = None\<rparr> a
      = (ClientOk (rs_status res) (rs_body res), a')"
    unfolding api_transport_def by fastforce
  moreover have "a' = a"
    using get_changes_nothing [OF assms(3,4,6), of J P pm up mq rss rnd "api_request GET (ep_path ep) None" fresh_response a]
      assms(7) by simp
  ultimately show ?thesis unfolding callEndpoint_no_params [OF assms(1) np] by (simp add: assms(4))
qed


text \<open>A transport for the witness: bound paths are compared as they are.\<close>

definition exact_client ::
  "(handler \<Rightarrow> request \<Rightarrow> response \<Rightarrow> 'a \<Rightarrow> response outcome \<times> 'a) \<Rightarrow> handler http_server \<Rightarrow> 'a client" where
  "exact_client run srv call a =
     (case List.find (\<lambda>(m, path, ep). m = cl_method call \<and> path = cl_url call) (hs_bound srv) of
        None \<Rightarrow> (ClientOk 404 [], a)
      | Some (m, path, ep) \<Rightarrow>
          (case ep_handler ep of
             None \<Rightarrow> (ClientOk 404 [], a)
           | Some h \<Rightarrow>
               (case run h (api_request m path (cl_body call)) fresh_response a of
                  (Inl _, a') \<Rightarrow> (ClientOk 500 [], a')
                | (Inr res, a') \<Rightarrow> (ClientOk (rs_status res) (rs_body res), a'))))"

lemma find_bound:
  "distinct (map (\<lambda>(m, path, ep). (m, path)) bound) \<Longrightarrow> (m, path, ep) \<in> set bound \<Longrightarrow>
     List.find (\<lambda>(m', path', ep'). m' = m \<and> path' = path) bound = Some (m, path, ep)"
  by (induction bound) force+

lemma exact_client_transport: "api_transport run http_service_start (exact_client run http_service_start)"
proof -
  have "distinct (map (\<lambda>(m, path, ep). (m, path)) (hs_bound http_service_start))"
    unfolding http_service_bound map_map comp_def case_prod_conv service_paths by simp
  note find = find_bound [OF this]
  show ?thesis
    unfolding api_transport_def
  proof (intro ballI, clarify)
    fix m path ep h body a res a'
    assume "(m, path, ep) \<in> set (hs_bound http_service_start)" "ep_handler ep = Some h"
      "run h (api_request m path body) fresh_response a = (Inr res, a')"
    with find show "exact_client run http_service_start
        \<lparr>cl_host = ''localhost'', cl_port = 8080, cl_method = m, cl_url = path, cl_body = body\<rparr> a
      = (ClientOk (rs_status res) (rs_body res), a')"
      by (simp add: exact_client_def)
  qed
qed

definition relay_api :: "json json_api" where
  "relay_api = table_json
     [(''q'', JObject [(''jsonrpc'', JString ''2.0''), (''id'', JInt 1), (''method'', JString ''tools/call''),
        (''params'', JObject [(''name'', JString ''status''), (''arguments'', JObject [])])]),
      (server_toJson True ''OK'', JObject [(''success'', JBool True), (''output'', JString ''OK'')]),
      (''o'', mcp_ok (table_json []) (JInt 1) (JObject [(''content'', JArray [mcp_text (table_json []) (server_toJson True ''OK'')])]))]"


end
