(* ===== verification/Module_Template.thy ===== *)
theory Module_Template
  imports Event_Task
begin

text \<open>
  \<open>Logger\<close> (includes/logging/Logger.hpp), \<open>IModule::getLogger\<close>, and the template for modules
  (src/templates/nexus-module), which the authors of modules start from. The registry of spdlog
  is a parameter, a record of the calls the wrapper makes on a state of the library.
\<close>

section \<open>Logger\<close>

record ('l, 'r) spdlog_api =
  sp_create :: "string \<Rightarrow> 'r \<Rightarrow> ('l \<times> 'r) option"   \<comment> \<open>\<open>stdout_color_mt\<close>; \<open>None\<close> when it throws\<close>
  sp_get :: "string \<Rightarrow> 'r \<Rightarrow> 'l option"
  sp_set_trace :: "'l \<Rightarrow> 'r \<Rightarrow> 'r"
  sp_set_pattern :: "'l \<Rightarrow> string \<Rightarrow> 'r \<Rightarrow> 'r"
  sp_write :: "log_level \<Rightarrow> 'l \<Rightarrow> string \<Rightarrow> 'r \<Rightarrow> 'r"

text \<open>Documented: creating throws exactly when the name is taken, and registers the logger otherwise.\<close>

definition spdlog_laws :: "('l, 'r) spdlog_api \<Rightarrow> bool" where
  "spdlog_laws S \<longleftrightarrow>
     (\<forall>n r. sp_create S n r = None \<longleftrightarrow> sp_get S n r \<noteq> None) \<and>
     (\<forall>n r l r'. sp_create S n r = Some (l, r') \<longrightarrow> sp_get S n r' = Some l) \<and>
     (\<forall>l n r. sp_get S n (sp_set_trace S l r) = sp_get S n r) \<and>
     (\<forall>l p n r. sp_get S n (sp_set_pattern S l p r) = sp_get S n r) \<and>
     (\<forall>v l t n r. sp_get S n (sp_write S v l t r) = sp_get S n r)"

definition log_pattern :: string where
  "log_pattern = ''[%H:%M:%S.%e] [%^%-8l%$] [%n] %v''"

definition logger_new :: "('l, 'r) spdlog_api \<Rightarrow> string \<Rightarrow> 'r \<Rightarrow> 'l option \<times> 'r" where
  "logger_new S name r =
     (case sp_create S name r of
        None \<Rightarrow> (sp_get S name r, r)
      | Some (l, r') \<Rightarrow> (Some l, sp_set_pattern S l log_pattern (sp_set_trace S l r')))"

definition logInfo :: "('l, 'r) spdlog_api \<Rightarrow> 'l option \<Rightarrow> string \<Rightarrow> 'r \<Rightarrow> 'r" where
  "logInfo S lg t r = (case lg of None \<Rightarrow> r | Some l \<Rightarrow> sp_write S LInfo l t r)"

definition logWarning :: "('l, 'r) spdlog_api \<Rightarrow> 'l option \<Rightarrow> string \<Rightarrow> 'r \<Rightarrow> 'r" where
  "logWarning S lg t r = (case lg of None \<Rightarrow> r | Some l \<Rightarrow> sp_write S LWarning l t r)"

definition logError :: "('l, 'r) spdlog_api \<Rightarrow> 'l option \<Rightarrow> string \<Rightarrow> 'r \<Rightarrow> 'r" where
  "logError S lg t r = (case lg of None \<Rightarrow> r | Some l \<Rightarrow> sp_write S LError l t r)"

definition logCritical :: "('l, 'r) spdlog_api \<Rightarrow> 'l option \<Rightarrow> string \<Rightarrow> 'r \<Rightarrow> 'r" where
  "logCritical S lg t r = (case lg of None \<Rightarrow> r | Some l \<Rightarrow> sp_write S LCritical l t r)"

definition getLogger :: "('l, 'r) spdlog_api \<Rightarrow> string \<Rightarrow> 'r \<Rightarrow> 'l option \<times> 'r" where
  "getLogger S name r = logger_new S name r"

section \<open>The template\<close>

record my_module =
  my_bus :: bool   \<comment> \<open>whether \<open>bus_\<close> points to the event bus\<close>
  my_subId :: int

definition createModule :: my_module where
  "createModule = \<lparr>my_bus = False, my_subId = -1\<rparr>"

definition my_getName :: string where "my_getName = ''MyModule''"

definition my_on_event :: "('l, 'r) spdlog_api \<Rightarrow> event \<Rightarrow> 'r \<Rightarrow> 'r" where
  "my_on_event S e r = (case getLogger S my_getName r of (lg, r') \<Rightarrow> logInfo S lg (''Received: '' @ ev_name e) r')"

definition my_initialize ::
  "('l, 'r) spdlog_api \<Rightarrow> 'c \<Rightarrow> my_module \<times> 'c bus \<times> 'r \<Rightarrow> my_module \<times> 'c bus \<times> 'r" where
  "my_initialize S c s =
     (case s of (m, b, r) \<Rightarrow>
      case getLogger S my_getName r of (lg, r1) \<Rightarrow>
      case bus_subscribe ''some.event'' c b of (sub, b1) \<Rightarrow>
        (m\<lparr>my_bus := True, my_subId := sub\<rparr>, b1,
         logInfo S lg ''MyModule initialized.'' (logInfo S lg ''MyModule initializing...'' r1)))"

definition my_shutdown :: "('l, 'r) spdlog_api \<Rightarrow> my_module \<times> 'c bus \<times> 'r \<Rightarrow> my_module \<times> 'c bus \<times> 'r" where
  "my_shutdown S s =
     (case s of (m, b, r) \<Rightarrow>
      case getLogger S my_getName r of (lg, r1) \<Rightarrow>
        (m, if my_bus m \<and> my_subId m \<ge> 0 then bus_unsubscribe ''some.event'' (my_subId m) b else b,
         logInfo S lg ''MyModule shutting down...'' r1))"

section \<open>Properties\<close>

lemma logger_new_get:
  assumes "spdlog_laws S" "logger_new S name r = (lg, r')"
  shows "\<exists>l. lg = Some l \<and> sp_get S name r' = Some l"
  using assms by (auto simp: logger_new_def spdlog_laws_def split: option.splits prod.splits)

text \<open>
  A logger is never null, so its messages are written, and another logger of the same name is the
  same one: it changes nothing in the registry.
\<close>

theorem loggers_of_a_name_are_shared:
  assumes "spdlog_laws S" "logger_new S name r = (lg, r')" "sp_get S name r'' = sp_get S name r'"
  shows "lg \<noteq> None \<and> logger_new S name r'' = (lg, r'')"
proof -
  from logger_new_get [OF assms(1,2)] obtain l where l: "lg = Some l" "sp_get S name r'' = Some l"
    using assms(3) by auto
  with assms(1) have "sp_create S name r'' = None" by (simp add: spdlog_laws_def)
  with l show ?thesis by (simp add: logger_new_def)
qed

text \<open>An id that has been given out stays with its event, whatever others do on the bus.\<close>

definition only_under :: "string \<Rightarrow> int \<Rightarrow> 'c bus \<Rightarrow> bool" where
  "only_under n i b \<longleftrightarrow> i < bus_next_id b \<and> (\<forall>m. m \<noteq> n \<longrightarrow> i \<notin> set (all_ids b m))"

lemma only_under_subscribe: "only_under n i b \<Longrightarrow> only_under n i (snd (bus_subscribe_cb m cb b))"
  by (auto simp: only_under_def all_ids_subscribe subscribe_sel)

lemma only_under_listeners:
  "only_under n i b \<Longrightarrow> bus_listeners b' = bus_listeners b \<Longrightarrow> bus_next_id b' = bus_next_id b \<Longrightarrow> only_under n i b'"
  using all_ids_cong [of b' b] by (simp add: only_under_def)

lemma only_under_do: "only_under n i b \<Longrightarrow> only_under n i (bus_do op b)"
proof (cases op)
  case (OpUnsubscribe m j)
  then show "only_under n i b \<Longrightarrow> ?thesis" by (simp add: only_under_def all_ids_unsubscribe unsubscribe_sel)
next
  case (OpPublish e)
  then show "only_under n i b \<Longrightarrow> ?thesis"
    by (simp only: bus_do.simps) (erule only_under_listeners, simp_all add: publish_sel)
next
  case OpShutdown
  then show "only_under n i b \<Longrightarrow> ?thesis" by (simp add: only_under_def all_ids_def listeners_of_def shutdown_sel)
qed (simp_all only: bus_do.simps bus_subscribe_def bus_subscribe_result_def only_under_subscribe)

lemma only_under_do_all: "only_under n i b \<Longrightarrow> only_under n i (fold bus_do ops b)"
  by (induction ops arbitrary: b) (simp_all add: only_under_do)

text \<open>
  A module that follows the template leaves no listener behind. Whatever other parties do on the
  bus between \<open>initialize\<close> and \<open>shutdown\<close>, afterwards the id of its subscription is in no list.
\<close>

theorem template_leaves_no_listener:
  assumes "bus_wf b" "my_initialize S c (createModule, b, r) = (m, b1, r1)"
    and "my_shutdown S (m, fold bus_do ops b1, r2) = (m', b2, r3)"
  shows "\<forall>n. my_subId m \<notin> set (all_ids b2 n)"
proof (cases "bus_down b")
  case True
  with assms(1,2) have m: "my_subId m = -1" "b1 = b"
    by (auto simp: my_initialize_def createModule_def bus_subscribe_def bus_subscribe_cb_def split: prod.splits)
  with assms(3) have "b2 = fold bus_do ops b" by (auto simp: my_shutdown_def split: prod.splits)
  with bus_wf_do_all [OF assms(1), of ops] m show ?thesis by (fastforce simp: bus_wf_def)
next
  case False
  with assms(2) have m: "my_subId m = bus_next_id b" "my_bus m" "b1 = snd (bus_subscribe_cb ''some.event'' (VoidCallback c) b)"
    by (auto simp: my_initialize_def createModule_def bus_subscribe_def bus_subscribe_cb_def Let_def split: prod.splits)
  have "only_under ''some.event'' (bus_next_id b) b1"
    using assms(1) False m(3) by (auto simp: only_under_def all_ids_subscribe subscribe_sel bus_wf_def)
  then have "only_under ''some.event'' (my_subId m) (fold bus_do ops b1)"
    unfolding m(1) by (rule only_under_do_all)
  moreover have "my_subId m \<ge> 0" using assms(1) m(1) by (simp add: bus_wf_def)
  then have "b2 = bus_unsubscribe ''some.event'' (my_subId m) (fold bus_do ops b1)"
    using assms(3) m(2) by (auto simp: my_shutdown_def split: prod.splits)
  ultimately show ?thesis by (auto simp: all_ids_unsubscribe only_under_def)
qed

section \<open>Witnesses\<close>

definition demo_spdlog :: "(string, (string \<times> string) list) spdlog_api" where
  "demo_spdlog = \<lparr>sp_create = (\<lambda>n r. if n \<in> set (map fst r) then None else Some (n, (n, '''') # r)),
     sp_get = (\<lambda>n r. if n \<in> set (map fst r) then Some n else None),
     sp_set_trace = (\<lambda>l r. r), sp_set_pattern = (\<lambda>l p r. r), sp_write = (\<lambda>v l t r. map (\<lambda>(n, x). (n, if n = l then x @ t else x)) r)\<rparr>"

lemma demo_spdlog_laws: "spdlog_laws demo_spdlog"
  by (auto simp: spdlog_laws_def demo_spdlog_def comp_def case_prod_unfold image_image split: if_splits)

lemma loggers_of_a_name_are_shared_witness:
  "logger_new demo_spdlog ''a'' [(''a'', [])] = (Some ''a'', [(''a'', [])])"
  using loggers_of_a_name_are_shared [OF demo_spdlog_laws, of "''a''" "[]" "Some ''a''" "[(''a'', [])]" "[(''a'', [])]"]
  by (simp add: logger_new_def demo_spdlog_def)

lemma template_leaves_no_listener_witness:
  "\<forall>n. 1 \<notin> set (all_ids (fst (snd (my_shutdown demo_spdlog
     (\<lparr>my_bus = True, my_subId = 1\<rparr>, bus_publish \<lparr>ev_name = ''some.event'', ev_data = AnyString []\<rparr>
        (snd (bus_subscribe ''some.event'' () new_bus)), [])))) n)"
proof -
  have init: "my_initialize demo_spdlog () (createModule, new_bus, []) =
      (\<lparr>my_bus = True, my_subId = 1\<rparr>, snd (bus_subscribe ''some.event'' () new_bus),
       snd (snd (my_initialize demo_spdlog () (createModule, new_bus, []))))"
    by (simp add: my_initialize_def createModule_def bus_subscribe_def bus_subscribe_cb_def new_bus_def Let_def split: prod.split)
  show ?thesis
    using template_leaves_no_listener [OF bus_wf_new init, where ops = "[OpPublish \<lparr>ev_name = ''some.event'', ev_data = AnyString []\<rparr>]" and ?r2.0 = "[]"]
    by (cases "my_shutdown demo_spdlog (\<lparr>my_bus = True, my_subId = 1\<rparr>, bus_publish \<lparr>ev_name = ''some.event'', ev_data = AnyString []\<rparr>
        (snd (bus_subscribe ''some.event'' () new_bus)), [])") simp
qed

end
