(* ===== verification/Spec2Isabelle.thy ===== *)
theory Spec2Isabelle
  imports NexusPrelude Bus_Threads Event_Task Scheduling Logging Ws_Server Ws_Service Mqtt
    Devices Rooms Paths Config Config_Provider Modules Http Controllers Mcp Mainframe
    Cast_Proto Cast_Channel Cast_Device Chromecast_Module
    Module_Scanner Message_Flow Registry_Threads Device_Threads Room_Threads Log_Threads Mcp_Flow Module_Template
begin

text \<open>
  \<^bold>\<open>NexusMainFrame\<close>: a model of the smart-home server in src/ and of its Chromecast plugin.

  The program is a main loop (src/NexusMainFrame.cpp) over a list of services. They talk through
  one event bus: \<open>publish\<close> queues an event, the main loop calls \<open>dispatchPending\<close>, which calls
  the listeners. An MQTT client and a WebSocket bridge exchange messages with the outside,
  an HTTP server and an MCP server expose device, room, module and configuration operations,
  modules are shared libraries loaded at run time, and registries keep their content in JSON files.

  \<^bold>\<open>Conventions\<close> (theories \<open>NexusPrelude\<close>, \<open>JsonApi\<close>). A call that may throw has the type
  \<open>outcome\<close>, a sum of an exception (\<open>StdException\<close> with its text, \<open>OtherException\<close>, or \<open>Undefined\<close>
  for undefined behaviour, which no \<open>catch\<close> handles) and a value. State is passed explicitly: a
  record per class with the members of the class. Bytes and machine integers are words. A
  connection is the list of pieces that its successive \<open>recv\<close> calls deliver; results of \<open>send\<close>,
  \<open>socket\<close>, TLS and Win32 calls are arguments. The library nlohmann::json is the record
  \<open>json_api\<close>, an argument \<open>J\<close> of every definition that uses it; \<open>json_laws\<close> collects its
  documented behaviour, and \<open>table_json\<close> is an instance for the witnesses. croncpp, cpp-httplib and
  the plugins themselves are parameters in the same way.

  \<^bold>\<open>Theories and sources.\<close>
  \<^item> \<open>Results\<close>: src/src/result. \<open>Event_Bus\<close>, \<open>Bus_Threads\<close>: src/src/event; first the methods as
    functions, with re-entrant listeners, then their critical sections as an inductive step
    relation of any number of threads. \<open>Event_Task\<close>: src/src/task and trigger. \<open>Scheduling\<close>:
    src/src/scheduler. \<open>Logging\<close>: src/src/logging.
  \<^item> \<open>Request_Threads\<close>, \<open>Stream_Threads\<close>: code that many threads run, as programs of critical sections;
    what follows from the shape of the programs under every schedule. \<open>Registry_Threads\<close>:
    reading and changing requests to a service over a registry. \<open>Device_Threads\<close>, \<open>Room_Threads\<close>:
    the requests of DeviceService and RoomService as the worker threads of the HTTP server run them.
    \<open>Log_Threads\<close>: the log stream of LogBroadcaster, WsServer and LogService.
  \<^item> \<open>WsCrypto\<close>, \<open>Ws_Frames\<close>, \<open>Ws_Server\<close>: src/src/server/WsServer.cpp; SHA-1 and Base64 on words,
    handshake and frames, and accept loop, client threads and \<open>stop\<close> as a step relation.
  \<^item> \<open>Mqtt\<close>, \<open>Ws_Service\<close>, \<open>Message_Flow\<close>: src/src/mqtt and the services MqttService and WsService;
    packets, the receive loop, topic filters and subscriptions, and the path of a message from the
    broker over the bus to the WebSocket clients.
  \<^item> \<open>Registry\<close>, \<open>Devices\<close>, \<open>Rooms\<close>: src/src/devices, src/src/rooms and their services, over one
    shared table with a file.
  \<^item> \<open>Paths\<close>: src/src/paths. \<open>Config\<close>, \<open>Config_Provider\<close>: src/src/config and its controller.
  \<^item> \<open>Modules\<close>, \<open>Module_Scanner\<close>: src/src/modules, includes/modules; every acquisition and release of
    a library or an instance is recorded in a trace.
  \<^item> \<open>Http\<close>, \<open>Controllers\<close>, \<open>Mcp\<close>: src/src/server/HttpServer.cpp and Endpoint.cpp, src/src/http and
    HttpService, src/src/mcp and McpService. \<open>Mcp_Flow\<close>: the types of the MCP replies, and a tool call
    through the HTTP API to the controllers and back.
  \<^item> \<open>Mainframe\<close>: src/NexusMainFrame.cpp, main.cpp, the service hosts and their choice.
  \<^item> \<open>Module_Template\<close>: includes/logging/Logger.hpp, includes/modules/IModule.hpp and
    src/templates/nexus-module.
  \<^item> \<open>Cast_Proto\<close>, \<open>Cast_Channel\<close>, \<open>Cast_Device\<close>, \<open>Chromecast_Module\<close>:
    src/modules/NexusChromecastModule; protocol buffers, TLS connection and framing, one device, and
    the plugin with its events.

  \<^bold>\<open>Interfaces\<close> are locales, each interpreted on the model's definitions: the bus as an event
  sink (\<open>Event_Bus\<close>), \<open>stream_codec\<close> for messages on a byte stream in any chunking (interpreted
  for both directions of WebSocket frames and for Chromecast packets), the registries as
  tables (\<open>Registry\<close>), configuration adapters (\<open>Config_Provider\<close>), and services whose requests run in
  parallel (\<open>request_service\<close>, \<open>settling_service\<close> and \<open>saved_registry\<close> in \<open>Request_Threads\<close>,
  \<open>readable_registry\<close> in \<open>Registry_Threads\<close>, interpreted for devices and for rooms; \<open>streaming_service\<close> in \<open>Stream_Threads\<close>, interpreted for the log).

  \<^bold>\<open>What is proved.\<close> Invariants of the bus, of the rooms, of the module devices and of the thread
  systems under every sequence of operations or interleaving; in-order, exactly-once delivery on the
  bus, over WebSocket and over the Chromecast channel; refinement of the device service to a map and
  of a Chromecast device to its session contract; requests to either service that run in parallel,
  reading ones included, are linearizable and leave the file up to date; no client of the log stream misses an entry; the types of all
  replies of the MCP server; equivalence of SHA-1 with FIPS 180-4 and of the
  topic matcher with MQTT's filters; round trips of frames, protocol buffers, packets, registries,
  configuration and module state through their encodings and files; resources (modules, TLS
  connections, subscriptions, sockets) released exactly once; error paths of malformed input and of
  throwing tasks; memory bounds of the decoder; termination of the directory scan and of the main
  loop once a stop is requested. Each property stands in the theory of its component under
  \<open>Properties\<close>, with a witness when it has hypotheses. Some theorems without a number state
  precisely where the code departs from what it means to do.

  \<^bold>\<open>Bounds and termination.\<close> Loops over input are total functions: each read shortens the stream.
  The main loop runs over the list of values its flag is read with, and is shown to stop when one of
  them is false. The scan of directories is a partial function, shown to return on every finite tree.
  The programs of the threads are well founded, so every schedule can be run to completion.
  No fuel is used.

  \<^bold>\<open>Not modelled\<close>: console output, spdlog behind its wrapper, singletons and the factories that choose
  a class at compile time, the thread that
  runs cpp-httplib and its matching of paths, the sockets below the byte streams, signal
  and console handlers, wall-clock waiting, the tests and the client written in
  Go. \<open>int\<close> counters that would have to overflow after two billion steps are unbounded. Memory
  exhaustion appears only where a size announced by the peer decides it.
\<close>

end
